(* ===== verification/Prelude.thy ===== *)
theory Prelude
  imports Main "HOL-Library.Word" "HOL-Library.Monad_Syntax"
begin

text \<open>
  What every component shares: the machine integers of the Go source, Go's run-time
  panics as the value \<open>None\<close> of an option type, bounds-checked indexing and slicing,
  the big-endian byte order of \<open>encoding/binary\<close>, and the lemma collections the
  component proofs draw on.

  A Go expression \<open>xs[i]\<close> or \<open>xs[i:j]\<close> panics when an index is out of range.
  The model computes such expressions with \<open>index\<close> and \<open>slice\<close>, so that every
  panic of the source is a branch of the model, and \<open>f x = Some y\<close> says that the code
  returns \<open>y\<close> without panicking. Go checks the upper bound of a slice expression
  against the capacity; \<open>slice\<close> checks it against the length, which is never larger,
  so the absence of panics in the model carries over to the code.
\<close>

unbundle bit_operations_syntax

section \<open>Types\<close>

type_synonym byte = "8 word"
type_synonym u16 = "16 word"
type_synonym u32 = "32 word"

text \<open>A computation that may end in a run-time panic (\<open>None\<close>).\<close>

type_synonym 'a go = "'a option"

named_theorems go_index \<open>the value of a bounds-checked access whose index is in range\<close>
named_theorems no_panic \<open>functions of the source that return whatever their input\<close>
named_theorems byte_order \<open>big-endian encodings and what they decode to\<close>

section \<open>Indexing and slicing\<close>

definition index :: "'a list \<Rightarrow> nat \<Rightarrow> 'a go" where
  "index xs i = (if i < length xs then Some (xs ! i) else None)"

definition slice :: "'a list \<Rightarrow> nat \<Rightarrow> nat \<Rightarrow> 'a list go" where
  "slice xs i j = (if i \<le> j \<and> j \<le> length xs then Some (take (j - i) (drop i xs)) else None)"

lemma index_ok [go_index]: "i < length xs \<Longrightarrow> index xs i = Some (xs ! i)"
  by (simp add: index_def)

lemma slice_ok [go_index]:
  "i \<le> j \<Longrightarrow> j \<le> length xs \<Longrightarrow> slice xs i j = Some (take (j - i) (drop i xs))"
  by (simp add: slice_def)

lemma slice_to_end [go_index]: "i \<le> length xs \<Longrightarrow> slice xs i (length xs) = Some (drop i xs)"
  by (simp add: slice_def)

text \<open>Access relative to a position, as the parsing loops make it.\<close>

lemma index_at: "pos \<le> length xs \<Longrightarrow> index xs (pos + a) = index (drop pos xs) a"
  by (auto simp: index_def)

lemma slice_at: "pos \<le> length xs \<Longrightarrow> slice xs (pos + a) (pos + b) = slice (drop pos xs) a b"
  by (auto simp: slice_def add.commute)

section \<open>Big-endian integers\<close>

text \<open>\<open>binary.BigEndian.Uint16\<close>, \<open>PutUint16\<close> and \<open>Uint32\<close>, \<open>PutUint32\<close>.\<close>

definition be_uint16 :: "byte list \<Rightarrow> u16 go" where
  "be_uint16 b = do {
     b1 \<leftarrow> index b 1;
     b0 \<leftarrow> index b 0;
     Some (ucast b1 OR push_bit 8 (ucast b0)) }"

definition be_put16 :: "u16 \<Rightarrow> byte list" where
  "be_put16 v = [ucast (drop_bit 8 v), ucast v]"

definition be_uint32 :: "byte list \<Rightarrow> u32 go" where
  "be_uint32 b = do {
     b3 \<leftarrow> index b 3;
     b2 \<leftarrow> index b 2;
     b1 \<leftarrow> index b 1;
     b0 \<leftarrow> index b 0;
     Some (ucast b3 OR push_bit 8 (ucast b2) OR push_bit 16 (ucast b1) OR push_bit 24 (ucast b0)) }"

definition be_put32 :: "u32 \<Rightarrow> byte list" where
  "be_put32 v = [ucast (drop_bit 24 v), ucast (drop_bit 16 v), ucast (drop_bit 8 v), ucast v]"

lemma length_be_put16 [simp]: "length (be_put16 v) = 2"
  by (simp add: be_put16_def)

lemma length_be_put32 [simp]: "length (be_put32 v) = 4"
  by (simp add: be_put32_def)

lemma be_uint16_ok [go_index]:
  "2 \<le> length b \<Longrightarrow> be_uint16 b = Some (ucast (b ! 1) OR push_bit 8 (ucast (b ! 0)))"
  by (auto simp: be_uint16_def index_def)

lemma be_uint32_ok [go_index]:
  "4 \<le> length b \<Longrightarrow> be_uint32 b =
     Some (ucast (b ! 3) OR push_bit 8 (ucast (b ! 2)) OR push_bit 16 (ucast (b ! 1))
       OR push_bit 24 (ucast (b ! 0)))"
  by (auto simp: be_uint32_def index_def)

lemma be16_roundtrip [byte_order]: "be_uint16 (be_put16 v) = Some v"
  by (simp add: be_uint16_def be_put16_def index_def, rule bit_eqI)
    (auto simp: bit_simps)

lemma be32_roundtrip [byte_order]: "be_uint32 (be_put32 v) = Some v"
proof -
  have "ucast (ucast v :: byte) OR push_bit 8 (ucast (ucast (drop_bit 8 v) :: byte))
      OR push_bit 16 (ucast (ucast (drop_bit 16 v) :: byte))
      OR push_bit 24 (ucast (ucast (drop_bit 24 v) :: byte)) = v"
    (is "?l = v")
  proof (rule bit_eqI)
    fix n
    assume "possible_bit TYPE(u32) n"
    then show "bit ?l n = bit v n"
      by (cases "n < 8"; cases "n < 16"; cases "n < 24") (auto simp: bit_simps)
  qed
  then show ?thesis
    by (simp add: be_uint32_def be_put32_def index_def)
qed

lemma unat_byte_less: "unat (b :: byte) < 256"
  using unsigned_less [of b, where ?'a = nat] by simp

lemma unat_ucast_byte16 [simp]: "unat (ucast (b :: byte) :: u16) = unat b"
  using unat_byte_less [of b] by (simp add: unsigned_ucast_eq take_bit_nat_eq_self)

lemma unat_ucast_byte32 [simp]: "unat (ucast (b :: byte) :: u32) = unat b"
  using unat_byte_less [of b] by (simp add: unsigned_ucast_eq take_bit_nat_eq_self)

lemma unat_be16:
  "unat (ucast (lo :: byte) OR push_bit 8 (ucast (hi :: byte)) :: u16) = unat hi * 256 + unat lo"
proof -
  have dis: "(ucast lo :: u16) AND push_bit 8 (ucast hi) = 0"
    by (rule bit_eqI) (auto simp: bit_simps dest: bit_imp_le_length)
  have "(ucast lo OR push_bit 8 (ucast hi) :: u16) = ucast lo + push_bit 8 (ucast hi)"
    using dis by (simp add: disjunctive_add_eq_or)
  moreover have "unat (ucast lo + push_bit 8 (ucast hi) :: u16) = unat hi * 256 + unat lo"
    using unat_byte_less [of lo] unat_byte_less [of hi]
    by (simp add: unat_word_ariths push_bit_eq_mult)
  ultimately show ?thesis by simp
qed

section \<open>Linear scans\<close>

text \<open>
  Three loops of the protocol code have one shape: walk an index upwards while it is below
  a limit, return a value at the first index that satisfies a test, and \<open>-1\<close> if there is
  none. The locale states that shape once; each loop is an interpretation of it.
\<close>

locale linear_scan =
  fixes loop :: "nat \<Rightarrow> int go"
    and limit :: nat
    and test :: "nat \<Rightarrow> bool"
    and hit :: "nat \<Rightarrow> int"
  assumes step: "loop i = (if i < limit then (if test i then Some (hit i) else loop (Suc i))
    else Some (-1))"
begin

lemma stop: "limit \<le> i \<Longrightarrow> loop i = Some (-1)"
  by (subst step) simp

text \<open>The loop computes the library's \<open>find\<close> over the indices it visits.\<close>

lemma loop_find: "loop i = Some (case find test [i..<limit] of None \<Rightarrow> -1 | Some j \<Rightarrow> hit j)"
proof (induction "limit - i" arbitrary: i)
  case 0
  then show ?case by (simp add: stop)
next
  case (Suc d)
  then have "i < limit" "loop (Suc i) =
      Some (case find test [Suc i..<limit] of None \<Rightarrow> -1 | Some j \<Rightarrow> hit j)"
    by auto
  then show ?case
    by (subst step) (simp add: upt_conv_Cons)
qed

end

lemma find_upt_Some:
  "find P [i..<n] = Some j \<longleftrightarrow> i \<le> j \<and> j < n \<and> P j \<and> (\<forall>k. i \<le> k \<and> k < j \<longrightarrow> \<not> P k)"
  (is "?l \<longleftrightarrow> ?r")
proof
  assume ?l
  then obtain m where m: "m < n - i" "P (i + m)" "j = i + m" "\<forall>k<m. \<not> P (i + k)"
    by (auto simp: find_Some_iff)
  have "\<not> P k" if "i \<le> k" "k < j" for k
    using m(3,4) that by (metis le_Suc_ex nat_add_left_cancel_less)
  with m show ?r by auto
next
  assume r: ?r
  then have "j - i < length [i..<n] \<and> P ([i..<n] ! (j - i)) \<and> j = [i..<n] ! (j - i) \<and>
      (\<forall>k<j - i. \<not> P ([i..<n] ! k))"
    by auto
  then show ?l unfolding find_Some_iff by blast
qed

lemma find_upt_None: "find P [i..<n] = None \<longleftrightarrow> (\<forall>k. i \<le> k \<and> k < n \<longrightarrow> \<not> P k)"
  by (auto simp: find_None_iff)

end
