(* ===== verification/GoFmt.thy ===== *)
theory GoFmt
  imports Prelude "HOL-Library.Char_ord"
begin

text \<open>
  Go strings and the verbs of package \<open>fmt\<close> that the gateway uses. A Go string is a
  sequence of bytes; the model uses Isabelle's \<open>string\<close>, whose characters are bytes too.
\<close>

definition char_of_byte :: "byte \<Rightarrow> char" where
  "char_of_byte b = char_of (unat b)"

definition string_of_bytes :: "byte list \<Rightarrow> string" where
  "string_of_bytes bs = map char_of_byte bs"

definition byte_of_char :: "char \<Rightarrow> byte" where
  "byte_of_char c = of_nat (of_char c)"

lemma byte_of_char_of_byte [simp]: "byte_of_char (char_of_byte b) = b"
  using unat_byte_less [of b] by (simp add: byte_of_char_def char_of_byte_def)

lemma char_of_byte_of_char [simp]: "char_of_byte (byte_of_char c) = c"
  using nat_of_char_less_256 [of c] by (simp add: byte_of_char_def char_of_byte_def unat_of_nat)

section \<open>Decimal and hexadecimal digits\<close>

definition digit_char :: "nat \<Rightarrow> char" where
  "digit_char d = char_of (48 + d)"

definition lower_hex_char :: "nat \<Rightarrow> char" where
  "lower_hex_char d = (if d < 10 then digit_char d else char_of (87 + d))"

definition upper_hex_char :: "nat \<Rightarrow> char" where
  "upper_hex_char d = (if d < 10 then digit_char d else char_of (55 + d))"

text \<open>\<open>%d\<close> on a non-negative number, on an integer, and \<open>%+d\<close>.\<close>

fun fmt_nat :: "nat \<Rightarrow> string" where
  "fmt_nat n = (if n < 10 then [digit_char n] else fmt_nat (n div 10) @ [digit_char (n mod 10)])"

declare fmt_nat.simps [simp del]

definition fmt_d :: "int \<Rightarrow> string" where
  "fmt_d i = (if i < 0 then ''-'' @ fmt_nat (nat (- i)) else fmt_nat (nat i))"

definition fmt_plus_d :: "int \<Rightarrow> string" where
  "fmt_plus_d i = (if i < 0 then fmt_d i else ''+'' @ fmt_d i)"

text \<open>\<open>%02x\<close> and \<open>%02X\<close> on a byte, \<open>hex.EncodeToString\<close>.\<close>

definition fmt_02x :: "byte \<Rightarrow> string" where
  "fmt_02x b = [lower_hex_char (unat b div 16), lower_hex_char (unat b mod 16)]"

definition fmt_02X :: "byte \<Rightarrow> string" where
  "fmt_02X b = [upper_hex_char (unat b div 16), upper_hex_char (unat b mod 16)]"

definition hex_EncodeToString :: "byte list \<Rightarrow> string" where
  "hex_EncodeToString bs = concat (map fmt_02x bs)"

text \<open>\<open>%q\<close> on a string, whose bytes from 0x80 on are taken to be printable UTF-8.\<close>

definition quote_char :: "char \<Rightarrow> string" where
  "quote_char c =
     (let n = (of_char c :: nat); bs = CHR 0x5C in
      if n = 0x22 \<or> n = 0x5C then [bs, c]
      else if n = 7 then [bs, CHR ''a''] else if n = 8 then [bs, CHR ''b''] else if n = 9 then [bs, CHR ''t'']
      else if n = 10 then [bs, CHR ''n''] else if n = 11 then [bs, CHR ''v''] else if n = 12 then [bs, CHR ''f'']
      else if n = 13 then [bs, CHR ''r'']
      else if n < 0x20 \<or> n = 0x7F then [bs, CHR ''x''] @ fmt_02x (byte_of_char c)
      else [c])"

definition fmt_q :: "string \<Rightarrow> string" where
  "fmt_q s = [CHR 0x22] @ concat (map quote_char s) @ [CHR 0x22]"

section \<open>The formats are injective\<close>

definition hex_value :: "char \<Rightarrow> nat" where
  "hex_value c = (let n = of_char c in if n < 58 then n - 48 else n - 87)"

lemma hex_value_lower: "d < 16 \<Longrightarrow> hex_value (lower_hex_char d) = d"
  by (simp add: hex_value_def lower_hex_char_def digit_char_def Let_def)

lemma fmt_02x_inj: "fmt_02x a = fmt_02x b \<Longrightarrow> a = b"
proof -
  assume "fmt_02x a = fmt_02x b"
  then have "hex_value (lower_hex_char (unat a div 16)) = hex_value (lower_hex_char (unat b div 16))"
    "hex_value (lower_hex_char (unat a mod 16)) = hex_value (lower_hex_char (unat b mod 16))"
    by (simp_all add: fmt_02x_def)
  then have "unat a div 16 = unat b div 16" "unat a mod 16 = unat b mod 16"
    using unat_byte_less [of a] unat_byte_less [of b] by (simp_all add: hex_value_lower)
  then have "unat a = unat b" by (metis div_mult_mod_eq)
  then show "a = b" by (simp add: word_unat_eq_iff)
qed

lemma hex_Encode_Cons: "hex_EncodeToString (b # bs) = fmt_02x b @ hex_EncodeToString bs"
  by (simp add: hex_EncodeToString_def)

lemma hex_Encode_inj: "hex_EncodeToString xs = hex_EncodeToString ys \<Longrightarrow> xs = ys"
proof (induction xs arbitrary: ys)
  case Nil
  then show ?case by (cases ys) (auto simp: hex_EncodeToString_def fmt_02x_def)
next
  case (Cons x xs)
  then obtain y ys' where ys: "ys = y # ys'"
    by (cases ys) (auto simp: hex_EncodeToString_def fmt_02x_def)
  have "length (fmt_02x x) = length (fmt_02x y)" by (simp add: fmt_02x_def)
  with Cons.prems have "fmt_02x x = fmt_02x y" "hex_EncodeToString xs = hex_EncodeToString ys'"
    by (simp_all add: ys hex_Encode_Cons)
  with Cons.IH show ?case by (simp add: ys fmt_02x_inj)
qed

end
