(* ===== verification/GoTime.thy ===== *)
theory GoTime
  imports Prelude
begin

text \<open>
  What the gateway uses of Go's package \<open>time\<close>, in UTC. An instant is the number of
  nanoseconds since 1970-01-01T00:00:00Z; \<open>time_Date\<close> is \<open>time.Date\<close> with its
  normalisation of out-of-range months, days, hours, minutes and seconds; the field functions
  are the methods \<open>Year\<close>, \<open>Month\<close>, \<open>Day\<close>, \<open>Hour\<close>, \<open>Minute\<close>, \<open>Second\<close>.
  Go's \<open>Time\<close> holds 64-bit seconds; the instants of the gateway (years 1 to 2255 and the
  wall clock) are far inside that range, so the model uses \<open>int\<close>.
\<close>

type_synonym instant = int
type_synonym duration = int

abbreviation nanos_per_second :: int where "nanos_per_second \<equiv> 1000000000"
abbreviation minute_dur :: duration where "minute_dur \<equiv> 60 * nanos_per_second"
abbreviation second_dur :: duration where "second_dur \<equiv> nanos_per_second"

section \<open>The calendar\<close>

definition is_leap :: "int \<Rightarrow> bool" where
  "is_leap y \<longleftrightarrow> y mod 4 = 0 \<and> (y mod 100 \<noteq> 0 \<or> y mod 400 = 0)"

text \<open>Days from 0001-01-01 to the first of January of year \<open>y\<close>.\<close>

definition days_before_year :: "int \<Rightarrow> int" where
  "days_before_year y = (let n = y - 1 in 365 * n + n div 4 - n div 100 + n div 400)"

text \<open>Days of the year before month \<open>m\<close>, counted from 0.\<close>

definition days_before_month :: "bool \<Rightarrow> nat \<Rightarrow> int" where
  "days_before_month leap m =
     [0, 31, 59, 90, 120, 151, 181, 212, 243, 273, 304, 334, 365] ! m + (if leap \<and> m \<ge> 2 then 1 else 0)"

definition days_in_month :: "bool \<Rightarrow> nat \<Rightarrow> int" where
  "days_in_month leap m = days_before_month leap (m + 1) - days_before_month leap m"

abbreviation epoch_days :: int where "epoch_days \<equiv> 719162"

definition time_Date :: "int \<Rightarrow> int \<Rightarrow> int \<Rightarrow> int \<Rightarrow> int \<Rightarrow> int \<Rightarrow> instant" where
  "time_Date year month day hour minute sec =
     (let m = month - 1; y = year + m div 12; mi = nat (m mod 12);
          days = days_before_year y + days_before_month (is_leap y) mi + (day - 1) - epoch_days in
      (days * 86400 + hour * 3600 + minute * 60 + sec) * nanos_per_second)"

definition time_seconds :: "instant \<Rightarrow> int" where
  "time_seconds t = t div nanos_per_second + epoch_days * 86400"

definition time_days :: "instant \<Rightarrow> int" where
  "time_days t = time_seconds t div 86400"

definition year_of_days :: "int \<Rightarrow> int" where
  "year_of_days d =
     (let y = (400 * d) div 146097 + 1 in
      if days_before_year (y + 1) \<le> d then y + 1
      else if d < days_before_year y then y - 1 else y)"

definition month_of_yday :: "bool \<Rightarrow> int \<Rightarrow> nat" where
  "month_of_yday leap yd = last (filter (\<lambda>m. days_before_month leap m \<le> yd) [0..<12])"

definition time_Year :: "instant \<Rightarrow> int" where
  "time_Year t = year_of_days (time_days t)"

definition time_yday :: "instant \<Rightarrow> int" where
  "time_yday t = time_days t - days_before_year (time_Year t)"

definition time_Month :: "instant \<Rightarrow> int" where
  "time_Month t = int (month_of_yday (is_leap (time_Year t)) (time_yday t)) + 1"

definition time_Day :: "instant \<Rightarrow> int" where
  "time_Day t =
     (let leap = is_leap (time_Year t) in
      time_yday t - days_before_month leap (month_of_yday leap (time_yday t)) + 1)"

definition time_Hour :: "instant \<Rightarrow> int" where "time_Hour t = time_seconds t mod 86400 div 3600"
definition time_Minute :: "instant \<Rightarrow> int" where "time_Minute t = time_seconds t mod 3600 div 60"
definition time_Second :: "instant \<Rightarrow> int" where "time_Second t = time_seconds t mod 60"

definition time_IsZero :: "instant \<Rightarrow> bool" where
  "time_IsZero t \<longleftrightarrow> t = - epoch_days * 86400 * nanos_per_second"

definition time_UnixMilli :: "instant \<Rightarrow> int" where
  "time_UnixMilli t = t div 1000000"

section \<open>The calendar is consistent\<close>

lemma div_lower: "numeral k * (n div numeral k) \<le> n" for n :: int
proof -
  have "n div numeral k * numeral k + n mod numeral k = n" by (rule div_mult_mod_eq)
  moreover have "0 \<le> n mod numeral k" by simp
  ultimately show ?thesis by (metis add.commute le_add_same_cancel2 mult.commute)
qed

lemma div_upper: "n < numeral k * (n div numeral k) + numeral k" for n :: int
proof -
  have "n div numeral k * numeral k + n mod numeral k = n" by (rule div_mult_mod_eq)
  moreover have "n mod numeral k < numeral k" by simp
  ultimately show ?thesis by (metis add_strict_left_mono mult.commute)
qed

lemma div_pred: "0 < k \<Longrightarrow> y div k = (y - 1) div k + (if y mod k = 0 then 1 else 0)" for y k :: int
proof -
  assume k: "0 < k"
  have y: "y = k * (y div k) + y mod k" by simp
  show ?thesis
  proof (cases "y mod k = 0")
    case True
    with y have "y - 1 = k * (y div k - 1) + (k - 1)" by (simp add: right_diff_distrib)
    with k have "(y - 1) div k = y div k - 1" by (intro int_div_pos_eq [of _ _ _ "k - 1"]) auto
    with True show ?thesis by simp
  next
    case False
    with k have "0 < y mod k" "y mod k < k" using pos_mod_sign [OF k, of y] pos_mod_bound [OF k, of y] by linarith+
    with y have "(y - 1) div k = y div k"
      by (intro int_div_pos_eq [of _ _ _ "y mod k - 1"]) auto
    with False show ?thesis by simp
  qed
qed

lemma mod_of_mod_0: "y mod n = 0 \<Longrightarrow> m dvd n \<Longrightarrow> y mod m = 0" for y m n :: int
  by (metis dvd_trans mod_0_imp_dvd dvd_imp_mod_0)

lemma leap_year_length: "days_before_year (y + 1) = days_before_year y + (if is_leap y then 366 else 365)"
proof -
  define a b c where "a = (y - 1) div 4" and "b = (y - 1) div 100" and "c = (y - 1) div 400"
  have d: "y div 4 = a + (if y mod 4 = 0 then 1 else 0)" "y div 100 = b + (if y mod 100 = 0 then 1 else 0)"
      "y div 400 = c + (if y mod 400 = 0 then 1 else 0)"
    unfolding a_def b_def c_def by (rule div_pred; simp)+
  have "y mod 400 = 0 \<Longrightarrow> y mod 100 = 0" "y mod 100 = 0 \<Longrightarrow> y mod 4 = 0"
    using mod_of_mod_0 [of y 400 100] mod_of_mod_0 [of y 100 4] by simp_all
  then show ?thesis
    unfolding days_before_year_def Let_def is_leap_def a_def [symmetric] b_def [symmetric]
      c_def [symmetric] add_diff_cancel_right' d
    by (cases "y mod 4 = 0"; cases "y mod 100 = 0"; cases "y mod 400 = 0") simp_all
qed

lemma days_before_year_bounds:
  "146097 * (y - 1) - 699 \<le> 400 * days_before_year y"
  "400 * days_before_year y \<le> 146097 * (y - 1) + 396"
proof -
  define n where "n = y - 1"
  define a b c where "a = n div 4" and "b = n div 100" and "c = n div 400"
  have "4 * a \<le> n" "n < 4 * a + 4" "100 * b \<le> n" "n < 100 * b + 100" "400 * c \<le> n" "n < 400 * c + 400"
    unfolding a_def b_def c_def by (rule div_lower div_upper)+
  moreover have "days_before_year y = 365 * n + a - b + c"
    by (simp only: days_before_year_def Let_def n_def a_def b_def c_def)
  ultimately show "146097 * (y - 1) - 699 \<le> 400 * days_before_year y"
    "400 * days_before_year y \<le> 146097 * (y - 1) + 396"
    unfolding n_def [symmetric] by linarith+
qed

lemma year_of_days_bounds:
  "days_before_year (year_of_days d) \<le> d \<and> d < days_before_year (year_of_days d + 1)"
proof -
  define y where "y = (400 * d) div 146097 + 1"
  have y: "146097 * (y - 1) \<le> 400 * d" "400 * d < 146097 * y"
    using div_lower [of _ "400 * d"] div_upper [of "400 * d"]
    by (simp_all only: y_def add_diff_cancel distrib_left mult_1_right)
  have "days_before_year (y - 1) \<le> d" "d < days_before_year (y + 2)"
    using days_before_year_bounds(2) [of "y - 1"] days_before_year_bounds(1) [of "y + 2"] y by simp_all
  moreover have "year_of_days d = (if days_before_year (y + 1) \<le> d then y + 1
      else if d < days_before_year y then y - 1 else y)"
    by (simp only: year_of_days_def y_def Let_def)
  ultimately show ?thesis by (auto simp: add.commute [of _ 2])
qed

lemma days_before_year_mono: "x \<le> y \<Longrightarrow> days_before_year x \<le> days_before_year y"
proof -
  have "days_before_year x \<le> days_before_year (x + int k)" for k
  proof (induction k)
    case (Suc k)
    have "days_before_year (x + int k) \<le> days_before_year ((x + int k) + 1)"
      using leap_year_length [of "x + int k"] by simp
    with Suc show ?case by (simp add: ac_simps)
  qed simp
  from this [of "nat (y - x)"] show "x \<le> y \<Longrightarrow> ?thesis" by simp
qed

lemma year_of_days_unique:
  "days_before_year y \<le> d \<Longrightarrow> d < days_before_year (y + 1) \<Longrightarrow> year_of_days d = y"
  using year_of_days_bounds [of d] days_before_year_mono [of "year_of_days d + 1" y]
    days_before_year_mono [of "y + 1" "year_of_days d"]
  by linarith

lemma less_12_cases:
  "m < 12 \<Longrightarrow> m \<in> {0, 1, 2, 3, 4, 5, 6, 7, 8, 9, 10, 11}" for m :: nat
  by (simp only: insert_iff empty_iff) arith

lemma month_step: "m < 12 \<Longrightarrow> days_before_month leap m < days_before_month leap (Suc m)"
  using less_12_cases [of m] by (auto simp: days_before_month_def numeral_eq_Suc)

lemma month_mono: "m \<le> n \<Longrightarrow> n \<le> 12 \<Longrightarrow> days_before_month leap m \<le> days_before_month leap n"
proof (induction n rule: dec_induct)
  case (step n)
  then show ?case using month_step [of n leap] by simp
qed simp

lemma days_before_month_ends:
  "days_before_month leap 0 = 0" "days_before_month leap 12 = (if leap then 366 else 365)"
  by (simp_all add: days_before_month_def)

lemma month_of_ydayI:
  assumes "m < 12" "days_before_month leap m \<le> yd" "yd < days_before_month leap (Suc m)"
  shows "month_of_yday leap yd = m"
proof -
  let ?P = "\<lambda>m. days_before_month leap m \<le> yd"
  have low: "?P k" if "k < Suc m" for k
    using month_mono [of k m leap] that assms by simp
  have high: "\<not> ?P k" if "Suc m \<le> k" "k < 12" for k
    using month_mono [of "Suc m" k leap] that assms by simp
  have "[0..<12] = [0..<Suc m] @ [Suc m..<12]"
    using assms(1) by (metis Suc_leI upt_add_eq_append le_add_diff_inverse zero_le)
  moreover have "filter ?P [0..<Suc m] = [0..<Suc m]"
    using low by (intro filter_True) auto
  moreover have "filter ?P [Suc m..<12] = []"
    using high by (intro filter_False) auto
  ultimately have "filter ?P [0..<12] = [0..<Suc m]" by (simp only: filter_append append_Nil2)
  then show ?thesis by (simp add: month_of_yday_def)
qed

section \<open>Fields and dates are inverse to each other\<close>

text \<open>A date and time of day that needs no normalisation.\<close>

definition valid_date :: "int \<Rightarrow> int \<Rightarrow> int \<Rightarrow> int \<Rightarrow> int \<Rightarrow> int \<Rightarrow> bool" where
  "valid_date y mo d h mi s \<longleftrightarrow> 1 \<le> mo \<and> mo \<le> 12 \<and> 1 \<le> d \<and>
     d \<le> days_in_month (is_leap y) (nat (mo - 1)) \<and>
     0 \<le> h \<and> h \<le> 23 \<and> 0 \<le> mi \<and> mi \<le> 59 \<and> 0 \<le> s \<and> s \<le> 59"

lemma month_table:
  assumes "m < 12" "0 \<le> d" "d < days_in_month leap m"
  shows "month_of_yday leap (days_before_month leap m + d) = m"
  using assms by (intro month_of_ydayI) (auto simp: days_in_month_def)

lemma month_range:
  assumes "0 \<le> d" "d < (if leap then 366 else 365)"
  defines "m \<equiv> month_of_yday leap d"
  shows "m < 12" "days_before_month leap m \<le> d" "d < days_before_month leap (m + 1)"
proof -
  let ?P = "\<lambda>m. d < days_before_month leap (Suc m)"
  define n where "n = (LEAST m. ?P m)"
  have ex: "?P 11" using assms(2) days_before_month_ends(2) [of leap] by (simp add: numeral_eq_Suc)
  then have n: "?P n" "n \<le> 11"
    unfolding n_def by (rule LeastI, rule Least_le)
  have "days_before_month leap n \<le> d"
  proof (cases n)
    case 0
    then show ?thesis using assms(1) days_before_month_ends(1) by simp
  next
    case (Suc k)
    then show ?thesis using not_less_Least [of k ?P] by (simp add: n_def [symmetric])
  qed
  with n have "m = n" unfolding m_def by (intro month_of_ydayI) auto
  with n \<open>days_before_month leap n \<le> d\<close> show "m < 12" "days_before_month leap m \<le> d"
      "d < days_before_month leap (m + 1)"
    by auto
qed

lemma days_before_month_bounds:
  assumes "m < 12"
  shows "0 \<le> days_before_month leap m" "days_before_month leap (Suc m) \<le> (if leap then 366 else 365)"
  using month_mono [of 0 m leap] month_mono [of "Suc m" 12 leap] assms
  by (simp_all only: days_before_month_ends)

lemma clock_fields:
  fixes x :: int
  assumes "x = day * 86400 + (h * 3600 + mi * 60 + s)" and "0 \<le> h" "h \<le> 23" "0 \<le> mi" "mi \<le> 59" "0 \<le> s" "s \<le> 59"
  shows "x mod 86400 div 3600 = h" "x mod 3600 div 60 = mi" "x mod 60 = s"
proof -
  have "x mod 86400 = h * 3600 + mi * 60 + s" "x mod 3600 = mi * 60 + s"
    using assms by (auto intro: int_mod_pos_eq [of _ _ day] int_mod_pos_eq [of _ _ "day * 24 + h"])
  then show "x mod 86400 div 3600 = h" "x mod 3600 div 60 = mi"
    using assms by (auto intro: int_div_pos_eq [of _ _ h "mi * 60 + s"] int_div_pos_eq [of _ _ mi s])
  show "x mod 60 = s"
    using assms by (auto intro: int_mod_pos_eq [of _ _ "day * 1440 + h * 60 + mi"])
qed

lemma clock_sum: "x mod 86400 = (x mod 86400 div 3600) * 3600 + (x mod 3600 div 60) * 60 + x mod 60" for x :: int
proof -
  have "x mod 86400 mod 3600 = x mod 3600" "x mod 3600 mod 60 = x mod 60"
    by (simp_all add: mod_mod_cancel)
  then show ?thesis
    using div_mult_mod_eq [of "x mod 86400" 3600] div_mult_mod_eq [of "x mod 3600" 60] by linarith
qed

lemma clock_ranges:
  "0 \<le> x mod 86400 div 3600" "x mod 86400 div 3600 \<le> 23" "0 \<le> x mod 3600 div 60" "x mod 3600 div 60 \<le> 59"
  "0 \<le> x mod 60" "x mod 60 \<le> 59" for x :: int
proof -
  have m: "0 \<le> x mod 86400" "x mod 86400 < 86400" "0 \<le> x mod 3600" "x mod 3600 < 3600"
      "0 \<le> x mod 60" "x mod 60 < 60"
    by simp_all
  have d: "3600 * (x mod 86400 div 3600) \<le> x mod 86400" "60 * (x mod 3600 div 60) \<le> x mod 3600"
    by (rule div_lower)+
  show "0 \<le> x mod 86400 div 3600" "0 \<le> x mod 3600 div 60"
    using m by (simp_all add: pos_imp_zdiv_nonneg_iff)
  show "x mod 86400 div 3600 \<le> 23" "x mod 3600 div 60 \<le> 59" "0 \<le> x mod 60" "x mod 60 \<le> 59"
    using m d by linarith+
qed

text \<open>The instant of a valid date, split into its day and its second of the day.\<close>

lemma seconds_of_date:
  assumes "valid_date y mo d h mi s"
  defines "day \<equiv> days_before_year y + days_before_month (is_leap y) (nat (mo - 1)) + (d - 1)"
  shows "time_seconds (time_Date y mo d h mi s) = day * 86400 + (h * 3600 + mi * 60 + s)"
    "time_days (time_Date y mo d h mi s) = day"
proof -
  have "(mo - 1) div 12 = 0" "(mo - 1) mod 12 = mo - 1"
    using assms by (simp_all add: valid_date_def div_pos_pos_trivial)
  then show sec: "time_seconds (time_Date y mo d h mi s) = day * 86400 + (h * 3600 + mi * 60 + s)"
    by (simp add: time_seconds_def time_Date_def Let_def day_def algebra_simps)
  have "0 \<le> h * 3600 + mi * 60 + s" "h * 3600 + mi * 60 + s < 86400"
    using assms by (auto simp: valid_date_def)
  then show "time_days (time_Date y mo d h mi s) = day"
    by (simp add: time_days_def sec)
qed

lemma year_of_date:
  assumes "valid_date y mo d h mi s"
  shows "time_Year (time_Date y mo d h mi s) = y"
proof -
  let ?m = "nat (mo - 1)"
  have "?m < 12" "1 \<le> d" "d \<le> days_in_month (is_leap y) ?m" using assms by (auto simp: valid_date_def)
  with days_before_month_bounds [of ?m "is_leap y"] show ?thesis
    unfolding time_Year_def seconds_of_date(2) [OF assms]
    by (intro year_of_days_unique) (auto simp: leap_year_length days_in_month_def)
qed

lemma fields_of_date:
  assumes v: "valid_date y mo d h mi s"
  defines "t \<equiv> time_Date y mo d h mi s"
  shows "time_Year t = y" "time_Month t = mo" "time_Day t = d"
    "time_Hour t = h" "time_Minute t = mi" "time_Second t = s"
proof -
  let ?m = "nat (mo - 1)"
  have m: "?m < 12" "int ?m = mo - 1" and d: "0 \<le> d - 1" "d - 1 < days_in_month (is_leap y) ?m"
    using v by (auto simp: valid_date_def)
  show y: "time_Year t = y"
    unfolding t_def by (rule year_of_date [OF v])
  then have "time_yday t = days_before_month (is_leap y) ?m + (d - 1)"
    by (simp add: time_yday_def t_def seconds_of_date(2) [OF v])
  with y month_table [OF m(1) d] m(2) show "time_Month t = mo" "time_Day t = d"
    by (simp_all add: time_Month_def time_Day_def Let_def)
  have r: "0 \<le> h" "h \<le> 23" "0 \<le> mi" "mi \<le> 59" "0 \<le> s" "s \<le> 59"
    using v by (auto simp: valid_date_def)
  show "time_Hour t = h" "time_Minute t = mi" "time_Second t = s"
    using clock_fields [OF seconds_of_date(1) [OF v] r]
    by (simp_all add: time_Hour_def time_Minute_def time_Second_def t_def)
qed

text \<open>Every instant is the date its fields name, to the second.\<close>

lemma date_of_fields:
  "time_Date (time_Year t) (time_Month t) (time_Day t) (time_Hour t) (time_Minute t) (time_Second t)
   = t div nanos_per_second * nanos_per_second"
  and fields_valid:
  "valid_date (time_Year t) (time_Month t) (time_Day t) (time_Hour t) (time_Minute t) (time_Second t)"
proof -
  define y where "y = time_Year t"
  define yd where "yd = time_yday t"
  define m where "m = month_of_yday (is_leap y) yd"
  have yd: "0 \<le> yd" "yd < (if is_leap y then 366 else 365)" "time_days t = days_before_year y + yd"
    using year_of_days_bounds [of "time_days t"] leap_year_length [of y]
    by (auto simp: yd_def time_yday_def y_def time_Year_def)
  note m = month_range [OF yd(1,2), folded m_def]
  have mo: "time_Month t = int m + 1" and d: "time_Day t = yd - days_before_month (is_leap y) m + 1"
    by (simp_all add: time_Month_def time_Day_def Let_def m_def y_def yd_def)
  show v: "valid_date (time_Year t) (time_Month t) (time_Day t) (time_Hour t) (time_Minute t) (time_Second t)"
    using m clock_ranges [of "time_seconds t"]
    unfolding mo d valid_date_def time_Hour_def time_Minute_def time_Second_def
    by (simp add: days_in_month_def y_def [symmetric])
  have "time_seconds t = time_days t * 86400
      + (time_Hour t * 3600 + time_Minute t * 60 + time_Second t)"
    using clock_sum [of "time_seconds t"] div_mult_mod_eq [of "time_seconds t" 86400]
    unfolding time_Hour_def time_Minute_def time_Second_def time_days_def by linarith
  moreover have "time_seconds (time_Date (time_Year t) (time_Month t) (time_Day t)
      (time_Hour t) (time_Minute t) (time_Second t)) = time_days t * 86400
      + (time_Hour t * 3600 + time_Minute t * 60 + time_Second t)"
    unfolding seconds_of_date(1) [OF v] by (simp add: mo d yd(3) y_def [symmetric])
  ultimately have "time_Date (time_Year t) (time_Month t) (time_Day t) (time_Hour t) (time_Minute t)
      (time_Second t) div nanos_per_second = t div nanos_per_second"
    by (simp add: time_seconds_def)
  then show "time_Date (time_Year t) (time_Month t) (time_Day t) (time_Hour t) (time_Minute t)
      (time_Second t) = t div nanos_per_second * nanos_per_second"
    by (simp add: time_Date_def Let_def)
qed

lemma time_Date_not_zero: "1 \<le> y \<Longrightarrow> valid_date y mo d h mi s \<Longrightarrow>
   time_IsZero (time_Date y mo d h mi s) \<longleftrightarrow> y = 1 \<and> mo = 1 \<and> d = 1 \<and> h = 0 \<and> mi = 0 \<and> s = 0"
proof -
  assume y: "1 \<le> y" and v: "valid_date y mo d h mi s"
  show ?thesis (is "?l \<longleftrightarrow> ?r")
  proof
    assume ?l
    then have t: "time_Date y mo d h mi s = time_Date 1 1 1 0 0 0"
      by (simp add: time_IsZero_def time_Date_def days_before_year_def days_before_month_def is_leap_def)
    have "valid_date 1 1 1 0 0 0"
      by (simp add: valid_date_def days_in_month_def days_before_month_def)
    from fields_of_date [OF v] fields_of_date [OF this] t show ?r by simp
  next
    assume ?r
    then show ?l
      by (simp add: time_IsZero_def time_Date_def days_before_year_def days_before_month_def is_leap_def)
  qed
qed

end
