(* ===== verification/WifiLbs.thy ===== *)
theory WifiLbs
  imports GoFmt GoTime
begin

text \<open>
  The Wi-Fi/LBS packets of \<open>internal/protocol/wifilbs.go\<close> (protocols 0x1A, 0x1B, 0x17
  and 0x69).
\<close>

section \<open>Finding the LBS header\<close>

text \<open>
  The Wi-Fi section has no count byte: it ends where a plausible LBS header (count, MCC,
  MNC) begins. \<open>findLBSHeader_from\<close> is the loop of \<open>findLBSHeader\<close> from index \<open>i\<close>.
\<close>

function findLBSHeader_from :: "byte list \<Rightarrow> nat \<Rightarrow> int go" where
  "findLBSHeader_from rest i =
     (if i + 4 \<le> length rest then do {
        c \<leftarrow> index rest i;
        let count = unat c;
        if count < 1 \<or> count > 6 then findLBSHeader_from rest (Suc i)
        else do {
          w \<leftarrow> slice rest (i + 1) (i + 3);
          mcc \<leftarrow> be_uint16 w;
          if mcc = 0 \<or> mcc > 999 then findLBSHeader_from rest (Suc i)
          else let remain = length rest - (i + 4) in
            if remain \<ge> count * 6 then Some (int i) else findLBSHeader_from rest (Suc i)
        }
      } else Some (-1))"
  by pat_completeness auto
termination
  by (relation "measure (\<lambda>(rest, i). length rest - i)") auto

declare findLBSHeader_from.simps [simp del]

definition findLBSHeader :: "byte list \<Rightarrow> int go" where
  "findLBSHeader rest = findLBSHeader_from rest 0"

text \<open>The test the loop makes at one index.\<close>

definition lbs_header_at :: "byte list \<Rightarrow> nat \<Rightarrow> bool" where
  "lbs_header_at rest i \<longleftrightarrow>
     (let count = unat (rest ! i); mcc = unat (rest ! (i + 1)) * 256 + unat (rest ! (i + 2)) in
      i + 4 \<le> length rest \<and> 1 \<le> count \<and> count \<le> 6 \<and> 1 \<le> mcc \<and> mcc \<le> 999
      \<and> i + 4 + count * 6 \<le> length rest)"

interpretation lbs_scan: linear_scan "findLBSHeader_from rest" "length rest - 3"
    "lbs_header_at rest" int for rest
proof
  fix i
  show "findLBSHeader_from rest i =
      (if i < length rest - 3
       then if lbs_header_at rest i then Some (int i) else findLBSHeader_from rest (Suc i)
       else Some (-1))"
  proof (cases "i + 4 \<le> length rest")
    case True
    then have w: "be_uint16 (take 2 (drop (Suc i) rest)) =
        Some (ucast (rest ! (i + 2)) OR push_bit 8 (ucast (rest ! (i + 1))))" (is "_ = Some ?mcc")
      by (subst be_uint16_ok) (auto simp: nth_append)
    let ?n = "unat (rest ! (i + 1)) * 256 + unat (rest ! (i + 2))"
    have mcc: "(?mcc = 0 \<or> 999 < ?mcc) \<longleftrightarrow> (?n = 0 \<or> 999 < ?n)"
      unfolding word_less_nat_alt unat_eq_0 [symmetric] unat_be16 by simp
    have i: "index rest i = Some (rest ! i)"
      and s: "slice rest (i + 1) (i + 3) = Some (take 2 (drop (Suc i) rest))"
      using True by (simp_all add: index_ok slice_ok)
    show ?thesis
      unfolding findLBSHeader_from.simps [of rest i] i s lbs_header_at_def Let_def
        Option.bind.bind_lunit w mcc
      using True by (simp split: if_splits) linarith
  next
    case False
    then show ?thesis by (subst findLBSHeader_from.simps) auto
  qed
qed

text \<open>
  The header the scan finds, and the end of the cells that follow it: cells of 7 bytes if
  that many bytes are there, of 6 bytes otherwise.
\<close>

definition lbs_start :: "byte list \<Rightarrow> nat option" where
  "lbs_start rest = find (lbs_header_at rest) [0..<length rest - 3]"

definition lbs_end :: "byte list \<Rightarrow> nat \<Rightarrow> nat" where
  "lbs_end rest j =
     (let count = unat (rest ! j) in
      j + 4 + count * (if j + 4 + count * 7 \<le> length rest then 7 else 6))"

lemma findLBSHeader_find [no_panic]:
  "findLBSHeader rest = Some (case lbs_start rest of None \<Rightarrow> -1 | Some j \<Rightarrow> int j)"
  unfolding findLBSHeader_def lbs_start_def by (rule lbs_scan.loop_find)

lemma lbs_startD:
  assumes "lbs_start rest = Some j"
  shows "lbs_header_at rest j" "j + 4 \<le> length rest" "1 \<le> unat (rest ! j)" "unat (rest ! j) \<le> 6"
    "j + 4 + unat (rest ! j) * 6 \<le> length rest"
  using assms by (auto simp: lbs_start_def find_upt_Some lbs_header_at_def Let_def)

lemma lbs_end_le: "lbs_start rest = Some j \<Longrightarrow> lbs_end rest j \<le> length rest"
  using lbs_startD [of rest j] by (simp add: lbs_end_def Let_def)

section \<open>Parsing\<close>

record wifi_ap =
  MAC :: string
  RSSI :: int

record cell_tower =
  MCC :: int
  MNC :: int
  LAC :: int
  CellID :: int
  Signal :: int

record wifi_lbs =
  LbsTime :: instant
  Wifi :: "wifi_ap list"
  Cells :: "cell_tower list"
  LbsRaw :: "byte list"

datatype lbs_error = LbsTooShort nat

definition bcdByte :: "byte \<Rightarrow> int" where
  "bcdByte b =
     (let hi = uint (drop_bit 4 b); lo = uint (b AND 0x0F) in
      if hi > 9 \<or> lo > 9 then -1 else hi * 10 + lo)"

fun strings_Join :: "string list \<Rightarrow> string \<Rightarrow> string" where
  "strings_Join [] sep = []"
| "strings_Join [x] sep = x"
| "strings_Join (x # y # xs) sep = x @ sep @ strings_Join (y # xs) sep"

definition formatMAC :: "byte list \<Rightarrow> string" where
  "formatMAC mac = strings_Join (map fmt_02x mac) '':''"

text \<open>The date: BCD fields, or binary ones when the BCD reading is rejected.\<close>

definition lbs_time :: "byte \<Rightarrow> byte \<Rightarrow> byte \<Rightarrow> byte \<Rightarrow> byte \<Rightarrow> byte \<Rightarrow> instant" where
  "lbs_time b0 b1 b2 b3 b4 b5 =
     (let yy = bcdByte b0; mm = bcdByte b1; dd = bcdByte b2;
          hh = bcdByte b3; mi = bcdByte b4; ss = bcdByte b5 in
      if yy < 0 \<or> mm < 1 \<or> mm > 12 \<or> dd < 1 \<or> dd > 31 \<or> hh > 23 \<or> mi > 59 \<or> ss > 59
      then time_Date (2000 + uint b0) (uint b1) (uint b2) (uint b3) (uint b4) (uint b5)
      else time_Date (2000 + yy) mm dd hh mi ss)"

text \<open>The loop over the Wi-Fi section, in steps of 7 bytes.\<close>

function wifi_loop :: "byte list \<Rightarrow> nat \<Rightarrow> wifi_ap list \<Rightarrow> wifi_ap list go" where
  "wifi_loop wifiBytes i aps =
     (if i + 7 \<le> length wifiBytes then do {
        mac \<leftarrow> slice wifiBytes i (i + 6);
        r \<leftarrow> index wifiBytes (i + 6);
        wifi_loop wifiBytes (i + 7) (aps @ [\<lparr>MAC = formatMAC mac, RSSI = uint r\<rparr>])
      } else Some aps)"
  by pat_completeness auto
termination
  by (relation "measure (\<lambda>(w, i, aps). length w - i)") auto

text \<open>One cell at position \<open>pos\<close>, in the 7-byte or the 6-byte layout.\<close>

definition cell_at :: "byte list \<Rightarrow> nat \<Rightarrow> int \<Rightarrow> int \<Rightarrow> nat \<Rightarrow> cell_tower go" where
  "cell_at lbs cellSize mcc mnc pos = do {
     l \<leftarrow> slice lbs pos (pos + 2);
     lac \<leftarrow> be_uint16 l;
     (ci, sig) \<leftarrow>
       (if cellSize = 7 then do {
          c \<leftarrow> slice lbs (pos + 2) (pos + 6);
          ci \<leftarrow> be_uint32 c;
          s \<leftarrow> index lbs (pos + 6);
          Some (uint ci, uint s) }
        else do {
          c2 \<leftarrow> index lbs (pos + 2);
          c3 \<leftarrow> index lbs (pos + 3);
          c4 \<leftarrow> index lbs (pos + 4);
          s \<leftarrow> index lbs (pos + 5);
          Some (uint (push_bit 16 (ucast c2) OR push_bit 8 (ucast c3) OR ucast c4 :: u32), uint s) });
     Some \<lparr>MCC = mcc, MNC = mnc, LAC = uint lac, CellID = ci, Signal = sig\<rparr>
   }"

text \<open>The loop over the cells: \<open>i < count\<close> and the cell fits.\<close>

function cell_loop :: "byte list \<Rightarrow> nat \<Rightarrow> nat \<Rightarrow> int \<Rightarrow> int \<Rightarrow> nat \<Rightarrow> nat \<Rightarrow> cell_tower list
    \<Rightarrow> cell_tower list go" where
  "cell_loop lbs count cellSize mcc mnc i pos cells =
     (if i < count \<and> pos + cellSize \<le> length lbs then do {
        c \<leftarrow> cell_at lbs cellSize mcc mnc pos;
        cell_loop lbs count cellSize mcc mnc (i + 1) (pos + cellSize) (cells @ [c])
      } else Some cells)"
  by pat_completeness auto
termination
  by (relation "measure (\<lambda>(lbs, count, cs, mcc, mnc, i, pos, cells). count - i)") auto

declare wifi_loop.simps [simp del] cell_loop.simps [simp del]

definition parse_cells :: "byte list \<Rightarrow> cell_tower list go" where
  "parse_cells lbsBytes =
     (if length lbsBytes \<ge> 4 then do {
        b0 \<leftarrow> index lbsBytes 0;
        m \<leftarrow> slice lbsBytes 1 3;
        mcc \<leftarrow> be_uint16 m;
        mnc \<leftarrow> index lbsBytes 3;
        let count = unat b0;
        let pos = 4;
        let cellSize = (if count > 0 \<and> pos + count * 7 > length lbsBytes
                          \<and> pos + count * 6 \<le> length lbsBytes then 6 else 7);
        cell_loop lbsBytes count cellSize (uint mcc) (uint mnc) 0 pos []
      } else Some [])"

definition ParseWifiLBS :: "byte list \<Rightarrow> (lbs_error + wifi_lbs) go" where
  "ParseWifiLBS body =
     (if length body < 6 then Some (Inl (LbsTooShort (length body)))
      else do {
        b0 \<leftarrow> index body 0;
        b1 \<leftarrow> index body 1;
        b2 \<leftarrow> index body 2;
        b3 \<leftarrow> index body 3;
        b4 \<leftarrow> index body 4;
        b5 \<leftarrow> index body 5;
        rest \<leftarrow> slice body 6 (length body);
        lbsStart \<leftarrow> findLBSHeader rest;
        (wifiBytes, lbsBytes) \<leftarrow>
          (if lbsStart \<ge> 0 then do {
             w \<leftarrow> slice rest 0 (nat lbsStart);
             l \<leftarrow> slice rest (nat lbsStart) (length rest);
             Some (w, l) }
           else Some (rest, []));
        aps \<leftarrow> wifi_loop wifiBytes 0 [];
        cells \<leftarrow> parse_cells lbsBytes;
        Some (Inr \<lparr>LbsTime = lbs_time b0 b1 b2 b3 b4 b5, Wifi = aps, Cells = cells, LbsRaw = body\<rparr>)
      })"

section \<open>The parser returns on every body\<close>

lemma cell_at_total:
  assumes "pos + cellSize \<le> length lbs" "cellSize \<in> {6, 7}"
  shows "\<exists>c. cell_at lbs cellSize mcc mnc pos = Some c"
  using assms by (auto simp: cell_at_def index_def slice_def be_uint16_ok be_uint32_ok)

lemma wifi_loop_total: "\<exists>aps'. wifi_loop w i aps = Some aps'"
  by (induction w i aps rule: wifi_loop.induct, subst wifi_loop.simps) (auto simp: index_ok slice_ok)

text \<open>When there is room for all the cells the header announces, the loop reads them all.\<close>

lemma cell_loop_reads:
  assumes "cellSize \<in> {6, 7}" "i \<le> count" "pos + (count - i) * cellSize \<le> length lbs"
  shows "\<exists>cs. cell_loop lbs count cellSize mcc mnc i pos cells = Some (cells @ cs) \<and> length cs = count - i"
  using assms
proof (induction "count - i" arbitrary: i pos cells)
  case 0
  then show ?case by (subst cell_loop.simps) simp
next
  case (Suc d)
  then have n: "count - i = Suc d" "i < count" "count - Suc i = d" by simp_all
  with Suc.prems have fits: "pos + cellSize \<le> length lbs" "(pos + cellSize) + (count - Suc i) * cellSize \<le> length lbs"
    by simp_all
  obtain c where c: "cell_at lbs cellSize mcc mnc pos = Some c"
    using cell_at_total [OF fits(1) Suc.prems(1)] by blast
  obtain cs where "cell_loop lbs count cellSize mcc mnc (Suc i) (pos + cellSize) (cells @ [c]) =
      Some ((cells @ [c]) @ cs) \<and> length cs = count - Suc i"
    using Suc.hyps(1) [of "Suc i" "pos + cellSize" "cells @ [c]"] n fits(2) Suc.prems(1) by auto
  then have "cell_loop lbs count cellSize mcc mnc i pos cells = Some (cells @ (c # cs)) \<and>
      length (c # cs) = count - i"
    using n fits(1) c by (subst cell_loop.simps) simp
  then show ?case by blast
qed

lemma parse_cells_found:
  assumes "lbs_start rest = Some j"
  shows "\<exists>cs. parse_cells (drop j rest) = Some cs \<and> length cs = unat (rest ! j)"
proof -
  note j = lbs_startD [OF assms]
  let ?lbs = "drop j rest" and ?count = "unat (rest ! j)"
  define sz :: nat where "sz = (if 4 + ?count * 7 > length ?lbs \<and> 4 + ?count * 6 \<le> length ?lbs then 6 else 7)"
  have "4 + ?count * 6 \<le> length ?lbs" using j by simp
  then have fits: "4 + (?count - 0) * sz \<le> length ?lbs" "sz \<in> {6, 7}"
    by (auto simp: sz_def)
  have four: "4 \<le> length ?lbs" using j(2) by simp
  have "index ?lbs 0 = Some (rest ! j)" using j(2) by (simp add: index_def)
  moreover have "?count > 0" using j(3) by simp
  ultimately have "parse_cells ?lbs = cell_loop ?lbs ?count sz
      (uint (ucast (?lbs ! 2) OR push_bit 8 (ucast (?lbs ! 1)) :: u16)) (uint (?lbs ! 3)) 0 4 []"
    using four by (simp add: parse_cells_def index_ok slice_ok be_uint16_ok sz_def Let_def)
  moreover have "\<exists>cs. cell_loop ?lbs ?count sz mcc mnc 0 4 [] = Some cs \<and> length cs = ?count" for mcc mnc
    using cell_loop_reads [OF fits(2) _ fits(1), of mcc mnc "[]"] by simp
  ultimately show ?thesis by simp
qed

lemma parse_cells_none: "parse_cells [] = Some []"
  by (simp add: parse_cells_def)

text \<open>The result in terms of the header scan.\<close>

lemma ParseWifiLBS_eq:
  assumes "6 \<le> length body"
  shows "ParseWifiLBS body = do {
    aps \<leftarrow> wifi_loop (case lbs_start (drop 6 body) of None \<Rightarrow> drop 6 body | Some j \<Rightarrow> take j (drop 6 body)) 0 [];
    cells \<leftarrow> parse_cells (case lbs_start (drop 6 body) of None \<Rightarrow> [] | Some j \<Rightarrow> drop j (drop 6 body));
    Some (Inr \<lparr>LbsTime = lbs_time (body ! 0) (body ! 1) (body ! 2) (body ! 3) (body ! 4) (body ! 5),
      Wifi = aps, Cells = cells, LbsRaw = body\<rparr>) }"
proof -
  have i: "index body k = Some (body ! k)" if "k < 6" for k
    using that assms by (simp add: index_def)
  show ?thesis
  proof (cases "lbs_start (drop 6 body)")
    case None
    then show ?thesis
      using assms by (simp add: ParseWifiLBS_def i slice_to_end findLBSHeader_find)
  next
    case (Some j)
    note j = lbs_startD(2) [OF Some]
    have "slice (drop 6 body) 0 j = Some (take j (drop 6 body))"
      "slice (drop 6 body) j (length (drop 6 body)) = Some (drop j (drop 6 body))"
      using j by (simp_all add: slice_def)
    with Some assms show ?thesis
      by (simp add: ParseWifiLBS_def i slice_to_end findLBSHeader_find)
  qed
qed

lemma ParseWifiLBS_total [no_panic]: "\<exists>r. ParseWifiLBS body = Some r"
proof (cases "length body < 6")
  case True
  then show ?thesis by (simp add: ParseWifiLBS_def)
next
  case False
  let ?rest = "drop 6 body"
  let ?w = "case lbs_start ?rest of None \<Rightarrow> ?rest | Some j \<Rightarrow> take j ?rest"
    and ?l = "case lbs_start ?rest of None \<Rightarrow> [] | Some j \<Rightarrow> drop j ?rest"
  obtain aps where "wifi_loop ?w 0 [] = Some aps" using wifi_loop_total by blast
  moreover obtain cs where "parse_cells ?l = Some cs"
    using parse_cells_found [of ?rest] parse_cells_none by (cases "lbs_start ?rest") auto
  ultimately show ?thesis using False by (simp add: ParseWifiLBS_eq)
qed

section \<open>The wire layout\<close>

text \<open>
  A packet as the firmware writes it: access points as (MAC, signal), cells as
  (LAC, cell id, signal) in the 7-byte layout.
\<close>

type_synonym ap_raw = "byte list \<times> byte"
type_synonym cell_raw = "u16 \<times> u32 \<times> byte"

fun enc_ap :: "ap_raw \<Rightarrow> byte list" where
  "enc_ap (mac, rssi) = mac @ [rssi]"

fun enc_cell :: "cell_raw \<Rightarrow> byte list" where
  "enc_cell (lac, ci, sig) = be_put16 lac @ be_put32 ci @ [sig]"

fun ap_of :: "ap_raw \<Rightarrow> wifi_ap" where
  "ap_of (mac, rssi) = \<lparr>MAC = formatMAC mac, RSSI = uint rssi\<rparr>"

fun cell_of :: "int \<Rightarrow> int \<Rightarrow> cell_raw \<Rightarrow> cell_tower" where
  "cell_of mcc mnc (lac, ci, sig) =
     \<lparr>MCC = mcc, MNC = mnc, LAC = uint lac, CellID = uint ci, Signal = uint sig\<rparr>"

definition enc_lbs :: "u16 \<Rightarrow> byte \<Rightarrow> cell_raw list \<Rightarrow> byte list" where
  "enc_lbs mcc mnc cells = [of_nat (length cells)] @ be_put16 mcc @ [mnc] @ concat (map enc_cell cells)"

definition enc_rest :: "ap_raw list \<Rightarrow> u16 \<Rightarrow> byte \<Rightarrow> cell_raw list \<Rightarrow> byte list" where
  "enc_rest aps mcc mnc cells = concat (map enc_ap aps) @ enc_lbs mcc mnc cells"

lemma length_enc_cell [simp]: "length (enc_cell c) = 7"
  by (cases c) simp

lemma length_enc_cells [simp]: "length (concat (map enc_cell cs)) = 7 * length cs"
  by (induction cs) simp_all

lemma length_enc_aps [simp]:
  "\<forall>a\<in>set aps. length (fst a) = 6 \<Longrightarrow> length (concat (map enc_ap aps)) = 7 * length aps"
  by (induction aps) auto

lemma wifi_loop_enc:
  assumes "\<forall>a\<in>set aps. length (fst a) = 6" "i \<le> length w" "drop i w = concat (map enc_ap aps) @ t" "length t < 7"
  shows "wifi_loop w i acc = Some (acc @ map ap_of aps)"
  using assms
proof (induction aps arbitrary: i acc)
  case Nil
  then have "length (drop i w) < 7" by simp
  then have "\<not> i + 7 \<le> length w" by simp
  then show ?case by (subst wifi_loop.simps) simp
next
  case (Cons a aps)
  obtain mac rssi where a: "a = (mac, rssi)" by (cases a)
  with Cons.prems have d: "drop i w = mac @ rssi # concat (map enc_ap aps) @ t" and m: "length mac = 6" by auto
  have len: "i + 7 \<le> length w"
    using arg_cong [OF d, of length] m Cons.prems(2) by simp
  have "slice w i (i + 6) = Some mac" "index w (i + 6) = Some rssi"
    using slice_at [of i w 0 6] index_at [of i w 6] Cons.prems(2) d m
    by (simp_all add: slice_def index_def nth_append)
  moreover have "drop (i + 7) w = concat (map enc_ap aps) @ t"
    using d m by (simp add: add.commute [of i] flip: drop_drop)
  then have "wifi_loop w (i + 7) (acc @ [ap_of a]) = Some ((acc @ [ap_of a]) @ map ap_of aps)"
    using Cons.prems len by (intro Cons.IH) auto
  ultimately show ?case
    using len a by (subst wifi_loop.simps) simp
qed

lemma cell_at_enc:
  assumes "pos \<le> length lbs" "drop pos lbs = enc_cell c @ t"
  shows "cell_at lbs 7 mcc mnc pos = Some (cell_of mcc mnc c)"
proof -
  obtain lac ci sig where c: "c = (lac, ci, sig)" by (cases c)
  have "slice lbs pos (pos + 2) = Some (be_put16 lac)" "slice lbs (pos + 2) (pos + 6) = Some (be_put32 ci)"
    "index lbs (pos + 6) = Some sig"
    using slice_at [OF assms(1), of 0 2] slice_at [OF assms(1), of 2 6] index_at [OF assms(1), of 6] assms(2) c
    by (simp_all add: slice_def index_def nth_append)
  then show ?thesis
    by (simp add: cell_at_def byte_order c)
qed

lemma cell_loop_enc:
  assumes "pos \<le> length lbs" "drop pos lbs = concat (map enc_cell cs) @ t"
  shows "cell_loop lbs (i + length cs) 7 mcc mnc i pos acc = Some (acc @ map (cell_of mcc mnc) cs)"
  using assms
proof (induction cs arbitrary: i pos acc)
  case Nil
  then show ?case by (subst cell_loop.simps) simp
next
  case (Cons c cs)
  from Cons.prems have d: "drop pos lbs = enc_cell c @ (concat (map enc_cell cs) @ t)" by simp
  have len: "pos + 7 \<le> length lbs"
    using arg_cong [OF d, of length] Cons.prems(1) by simp
  have "drop (pos + 7) lbs = concat (map enc_cell cs) @ t"
    using d by (simp add: add.commute [of pos] flip: drop_drop)
  with Cons.IH [of "pos + 7" "i + 1" "acc @ [cell_of mcc mnc c]"] len cell_at_enc [OF Cons.prems(1) d]
  show ?case by (subst cell_loop.simps) simp
qed

lemma parse_cells_enc:
  assumes "1 \<le> length cells" "length cells \<le> 6"
  shows "parse_cells (enc_lbs mcc mnc cells @ t) = Some (map (cell_of (uint mcc) (uint mnc)) cells)"
proof -
  define lbs where "lbs = enc_lbs mcc mnc cells @ t"
  have n: "unat (of_nat (length cells) :: byte) = length cells"
    using assms by (simp add: unat_of_nat)
  have hd: "index lbs 0 = Some (of_nat (length cells))" "slice lbs 1 3 = Some (be_put16 mcc)" "index lbs 3 = Some mnc"
    and d: "drop 4 lbs = concat (map enc_cell cells) @ t" and len: "4 + length cells * 7 \<le> length lbs"
    by (simp_all add: lbs_def enc_lbs_def index_def slice_def be_put16_def)
  then have "parse_cells lbs = cell_loop lbs (0 + length cells) 7 (uint mcc) (uint mnc) 0 4 []"
    by (simp add: parse_cells_def byte_order n)
  with cell_loop_enc [of 4 lbs cells t 0] d len show ?thesis
    by (simp add: lbs_def)
qed

text \<open>
  Round trip. The scan must find the header where it is: a Wi-Fi section whose bytes look
  like a header earlier is misread, which \<open>lbs_start\<close> in the hypothesis excludes.
\<close>

lemma ParseWifiLBS_enc:
  assumes "length dt = 6" "\<forall>a\<in>set aps. length (fst a) = 6" "1 \<le> length cells" "length cells \<le> 6"
    and "lbs_start (enc_rest aps mcc mnc cells) = Some (7 * length aps)"
  shows "ParseWifiLBS (dt @ enc_rest aps mcc mnc cells) = Some (Inr
    \<lparr>LbsTime = lbs_time (dt ! 0) (dt ! 1) (dt ! 2) (dt ! 3) (dt ! 4) (dt ! 5),
     Wifi = map ap_of aps, Cells = map (cell_of (uint mcc) (uint mnc)) cells,
     LbsRaw = dt @ enc_rest aps mcc mnc cells\<rparr>)"
proof -
  let ?rest = "enc_rest aps mcc mnc cells"
  have t: "take (7 * length aps) ?rest = concat (map enc_ap aps)"
    and d: "drop (7 * length aps) ?rest = enc_lbs mcc mnc cells"
    using assms(2) by (simp_all add: enc_rest_def)
  have "wifi_loop (concat (map enc_ap aps)) 0 [] = Some ([] @ map ap_of aps)"
    using assms(2) by (intro wifi_loop_enc [where t = "[]"]) auto
  moreover have "parse_cells (enc_lbs mcc mnc cells @ []) = Some (map (cell_of (uint mcc) (uint mnc)) cells)"
    using assms(3,4) by (rule parse_cells_enc)
  ultimately show ?thesis
    using assms(1,5) t d by (subst ParseWifiLBS_eq) (simp_all add: nth_append)
qed

text \<open>The scan finds the header of a written packet when nothing before it looks like one.\<close>

lemma lbs_start_enc:
  assumes "\<forall>a\<in>set aps. length (fst a) = 6" "1 \<le> length cells" "length cells \<le> 6"
    and "1 \<le> uint mcc" "uint mcc \<le> 999"
    and "\<And>i. i < 7 * length aps \<Longrightarrow> \<not> lbs_header_at (enc_rest aps mcc mnc cells) i"
  shows "lbs_start (enc_rest aps mcc mnc cells) = Some (7 * length aps)"
proof -
  let ?r = "enc_rest aps mcc mnc cells" and ?n = "7 * length aps"
  obtain a b where ab: "be_put16 mcc = [a, b]" by (simp add: be_put16_def)
  have r: "?r = concat (map enc_ap aps) @ of_nat (length cells) # a # b # mnc # concat (map enc_cell cells)"
    by (simp add: enc_rest_def enc_lbs_def ab)
  have len: "length (concat (map enc_ap aps)) = ?n" using assms(1) by simp
  have nth: "?r ! ?n = of_nat (length cells)" "?r ! (?n + 1) = a" "?r ! (?n + 2) = b"
    by (simp_all only: r nth_append len) simp_all
  have l: "length ?r = ?n + 4 + 7 * length cells" using len by (simp add: r)
  have c: "unat (of_nat (length cells) :: byte) = length cells"
    using assms(2,3) by (simp add: unat_of_nat)
  have "be_uint16 [a, b] = Some mcc" using be16_roundtrip [of mcc] ab by simp
  then have "mcc = ucast b OR push_bit 8 (ucast a)" by (simp add: be_uint16_ok)
  then have "unat a * 256 + unat b = unat mcc" by (simp add: unat_be16)
  moreover have "1 \<le> nat (uint mcc)" "nat (uint mcc) \<le> 999" using assms(4,5) by linarith+
  then have "1 \<le> unat mcc" "unat mcc \<le> 999" by (simp_all only: unat_eq_nat_uint)
  ultimately have "lbs_header_at ?r ?n"
    using assms(2,3) unfolding lbs_header_at_def Let_def nth c l by simp
  moreover have "?n < length ?r - 3" using l by simp
  ultimately show ?thesis
    using assms(6) by (simp only: lbs_start_def find_upt_Some) blast
qed

section \<open>BCD dates\<close>

text \<open>The BCD byte of a number below 100.\<close>

definition to_bcd :: "nat \<Rightarrow> byte" where
  "to_bcd n = of_nat (n div 10 * 16 + n mod 10)"

lemma bcdByte_table: "\<forall>n\<in>set [0..<100]. bcdByte (to_bcd n) = int n"
  by code_simp

lemma bcdByte_to_bcd: "n < 100 \<Longrightarrow> bcdByte (to_bcd n) = int n"
  using bcdByte_table by auto

lemma lbs_time_bcd:
  assumes "y < 100" "1 \<le> mo" "mo \<le> 12" "1 \<le> d" "d \<le> 31" "h \<le> 23" "mi \<le> 59" "s \<le> 59"
  shows "lbs_time (to_bcd y) (to_bcd mo) (to_bcd d) (to_bcd h) (to_bcd mi) (to_bcd s) =
    time_Date (2000 + int y) (int mo) (int d) (int h) (int mi) (int s)"
  using assms by (simp add: lbs_time_def bcdByte_to_bcd)

section \<open>Properties\<close>

text \<open>C24. Round trip. A packet of access points and one to six 7-byte cells is read back in
  full, provided that no bytes of the Wi-Fi section look like an LBS header, which the
  layout cannot exclude.\<close>

theorem parse_wifi_lbs_roundtrip:
  assumes "length dt = 6" "\<forall>a\<in>set aps. length (fst a) = 6" "1 \<le> length cells" "length cells \<le> 6"
    and "1 \<le> uint mcc" "uint mcc \<le> 999"
    and "\<And>i. i < 7 * length aps \<Longrightarrow> \<not> lbs_header_at (enc_rest aps mcc mnc cells) i"
  shows "\<exists>w. ParseWifiLBS (dt @ enc_rest aps mcc mnc cells) = Some (Inr w) \<and>
    Wifi w = map ap_of aps \<and> Cells w = map (cell_of (uint mcc) (uint mnc)) cells \<and>
    LbsTime w = lbs_time (dt ! 0) (dt ! 1) (dt ! 2) (dt ! 3) (dt ! 4) (dt ! 5)"
  using ParseWifiLBS_enc [OF assms(1-4) lbs_start_enc [OF assms(2-7)]] by simp

theorem parse_wifi_lbs_roundtrip_witness:
  "\<exists>w. ParseWifiLBS ([0x26, 0x08, 0x15, 0x01, 0x25, 0x29] @
      enc_rest [([0xA0, 0xB1, 0xC2, 0xD3, 0xE4, 0xF5], 0x40)] 432 11 [(0x1234, 0x5678, 0x55)]) = Some (Inr w) \<and>
    map MAC (Wifi w) = [''a0:b1:c2:d3:e4:f5''] \<and>
    Cells w = [\<lparr>MCC = 432, MNC = 11, LAC = 0x1234, CellID = 0x5678, Signal = 0x55\<rparr>]"
proof -
  have n: "\<forall>i\<in>set [0..<7]. \<not> lbs_header_at (enc_rest [([0xA0, 0xB1, 0xC2, 0xD3, 0xE4, 0xF5], 0x40)] 432 11
      [(0x1234, 0x5678, 0x55)]) i"
    by code_simp
  have m: "ap_of ([0xA0, 0xB1, 0xC2, 0xD3, 0xE4, 0xF5], 0x40) = \<lparr>MAC = ''a0:b1:c2:d3:e4:f5'', RSSI = 0x40\<rparr>"
    by code_simp
  have "\<exists>w. ParseWifiLBS ([0x26, 0x08, 0x15, 0x01, 0x25, 0x29] @
      enc_rest [([0xA0, 0xB1, 0xC2, 0xD3, 0xE4, 0xF5], 0x40)] 432 11 [(0x1234, 0x5678, 0x55)]) = Some (Inr w) \<and>
    Wifi w = map ap_of [([0xA0, 0xB1, 0xC2, 0xD3, 0xE4, 0xF5], 0x40)] \<and>
    Cells w = map (cell_of (uint (432 :: u16)) (uint (11 :: byte))) [(0x1234, 0x5678, 0x55)] \<and>
    LbsTime w = lbs_time ([0x26, 0x08, 0x15, 0x01, 0x25, 0x29] ! 0) ([0x26, 0x08, 0x15, 0x01, 0x25, 0x29] ! 1)
      ([0x26, 0x08, 0x15, 0x01, 0x25, 0x29] ! 2) ([0x26, 0x08, 0x15, 0x01, 0x25, 0x29] ! 3)
      ([0x26, 0x08, 0x15, 0x01, 0x25, 0x29] ! 4) ([0x26, 0x08, 0x15, 0x01, 0x25, 0x29] ! 5)"
    using n by (intro parse_wifi_lbs_roundtrip) (simp_all del: upt_rec_numeral)
  then show ?thesis using m by auto
qed

text \<open>C25. \<open>ParseWifiLBS\<close> never panics; it fails exactly on bodies shorter than six bytes. When
  the scan finds a header it returns exactly as many cells as the header announces, between
  one and six, and otherwise none.\<close>

theorem parse_wifi_lbs_total:
  "if length body < 6 then ParseWifiLBS body = Some (Inl (LbsTooShort (length body)))
   else \<exists>w. ParseWifiLBS body = Some (Inr w) \<and> LbsRaw w = body \<and>
     (case lbs_start (drop 6 body) of
        None \<Rightarrow> Cells w = []
      | Some j \<Rightarrow> length (Cells w) = unat (body ! (6 + j)) \<and> 1 \<le> length (Cells w) \<and> length (Cells w) \<le> 6)"
proof (cases "length body < 6")
  case True
  then show ?thesis by (simp add: ParseWifiLBS_def)
next
  case False
  let ?rest = "drop 6 body"
  obtain aps where a: "wifi_loop (case lbs_start ?rest of None \<Rightarrow> ?rest | Some j \<Rightarrow> take j ?rest) 0 [] = Some aps"
    using wifi_loop_total by blast
  show ?thesis
  proof (cases "lbs_start ?rest")
    case None
    with False a show ?thesis by (simp add: ParseWifiLBS_eq parse_cells_none)
  next
    case (Some j)
    from parse_cells_found [OF Some] obtain cs where
      "parse_cells (drop j ?rest) = Some cs" "length cs = unat (?rest ! j)" by blast
    with False a Some lbs_startD [OF Some] show ?thesis
      by (auto simp: ParseWifiLBS_eq)
  qed
qed

text \<open>The packet date: the BCD bytes of a valid date are read as that date.\<close>

theorem lbs_time_reads_bcd:
  assumes "y < 100" "1 \<le> mo" "mo \<le> 12" "1 \<le> d" "d \<le> 31" "h \<le> 23" "mi \<le> 59" "s \<le> 59"
  shows "lbs_time (to_bcd y) (to_bcd mo) (to_bcd d) (to_bcd h) (to_bcd mi) (to_bcd s) =
    time_Date (2000 + int y) (int mo) (int d) (int h) (int mi) (int s)"
  using assms by (rule lbs_time_bcd)

theorem lbs_time_reads_bcd_witness:
  "lbs_time 0x26 0x08 0x15 0x01 0x25 0x29 = time_Date 2026 8 15 1 25 29"
proof -
  have "to_bcd 26 = 0x26" "to_bcd 8 = 0x08" "to_bcd 15 = 0x15" "to_bcd 1 = 0x01" "to_bcd 25 = 0x25"
    "to_bcd 29 = 0x29"
    by code_simp+
  with lbs_time_reads_bcd [of 26 8 15 1 25 29] show ?thesis by simp
qed

text \<open>The guard on the date lets an invalid BCD hour through: the reading is \<open>-1\<close>, which
  is not above 23, so the binary fallback is not taken and the time is an hour before
  midnight of the day before.\<close>

theorem invalid_bcd_hour_not_rejected:
  "bcdByte 0x1A = -1 \<and>
   lbs_time 0x26 0x08 0x15 0x1A 0x25 0x29 = time_Date 2026 8 14 23 25 29 \<and>
   lbs_time 0x26 0x08 0x15 0x1A 0x25 0x29 \<noteq> time_Date (2000 + 0x26) 0x08 0x15 0x1A 0x25 0x29"
  by code_simp

text \<open>A MAC address can be taken for an LBS header: this packet holds one access point and
  one cell, and the parser returns no access point and a cell made of the bytes of the MAC.\<close>

theorem mac_taken_for_lbs_header:
  "case ParseWifiLBS ([0x26, 0x08, 0x15, 0x01, 0x25, 0x29] @
      enc_rest [([0x01, 0x00, 0x50, 0xD3, 0xE4, 0xF5], 0x40)] 432 11 [(0x1234, 0x5678, 0x55)]) of
     Some (Inr w) \<Rightarrow> Wifi w = [] \<and> map LAC (Cells w) = [0xE4F5]
   | _ \<Rightarrow> False"
  by code_simp

end
