(* ===== verification/Frame.thy ===== *)
theory Frame
  imports WifiLbs
begin

text \<open>
  Framing: \<open>internal/protocol/frame.go\<close>. \<open>ExtractFrame\<close> pulls one packet out of the
  receive buffer of a connection. The length bytes of the protocol are dummies, so the end
  of a packet is found by its trailer, from a position that depends on the protocol number.
\<close>

section \<open>Constants, errors and the frame record\<close>

datatype ferr = ErrIncomplete | ErrBadHeader | ErrBadTrailer | ErrBadCRC | ErrBadLength

definition HeaderShort :: u16 where "HeaderShort = 0x7878"
definition HeaderExt :: u16 where "HeaderExt = 0x7979"
definition Trailer :: u16 where "Trailer = 0x0D0A"

definition MsgLogin :: byte where "MsgLogin = 0x01"
definition MsgGPS :: byte where "MsgGPS = 0x10"
definition MsgGPSOffline :: byte where "MsgGPSOffline = 0x11"
definition MsgGPSLBS :: byte where "MsgGPSLBS = 0x12"
definition MsgStatus :: byte where "MsgStatus = 0x13"
definition MsgGPS2 :: byte where "MsgGPS2 = 0x22"
definition MsgWifiLBS :: byte where "MsgWifiLBS = 0x1A"
definition MsgWifiLBS2 :: byte where "MsgWifiLBS2 = 0x1B"
definition MsgTimeSync :: byte where "MsgTimeSync = 0x30"
definition MsgParam :: byte where "MsgParam = 0x57"
definition MsgICCID :: byte where "MsgICCID = 0xB3"
definition MsgOfflineWifi :: byte where "MsgOfflineWifi = 0x17"
definition MsgOnlineWifi :: byte where "MsgOnlineWifi = 0x69"
definition MsgRestart :: byte where "MsgRestart = 0x48"
definition MsgUploadInt :: byte where "MsgUploadInt = 0x97"

lemmas msg_defs = MsgLogin_def MsgGPS_def MsgGPSOffline_def MsgGPSLBS_def MsgStatus_def
  MsgGPS2_def MsgWifiLBS_def MsgWifiLBS2_def MsgTimeSync_def MsgParam_def MsgICCID_def
  MsgOfflineWifi_def MsgOnlineWifi_def MsgRestart_def MsgUploadInt_def

lemmas header_defs = HeaderShort_def HeaderExt_def Trailer_def

record frame =
  Proto :: byte
  Body :: "byte list"
  Serial :: u16
  Raw :: "byte list"

text \<open>
  The Go functions return \<open>(*Frame, int, error)\<close>: an error with the number of bytes to
  drop, or a frame with the number of bytes it took.
\<close>

type_synonym extracted = "(ferr \<times> nat) + (frame \<times> nat)"

section \<open>The loops\<close>

text \<open>The search for a header: the loop at the start of \<open>ExtractFrame\<close>.\<close>

function findStart_from :: "byte list \<Rightarrow> nat \<Rightarrow> int go" where
  "findStart_from buf i =
     (if i + 1 < length buf then do {
        a \<leftarrow> index buf i;
        b \<leftarrow> index buf (i + 1);
        if a = 0x78 \<and> b = 0x78 then Some (int i)
        else if a = 0x79 \<and> b = 0x79 then Some (int i)
        else findStart_from buf (Suc i)
      } else Some (-1))"
  by pat_completeness auto
termination
  by (relation "measure (\<lambda>(buf, i). length buf - i)") auto

text \<open>The search for the trailer.\<close>

function findTrailer_from :: "byte list \<Rightarrow> nat \<Rightarrow> int go" where
  "findTrailer_from content i =
     (if i + 1 < length content then do {
        a \<leftarrow> index content i;
        b \<leftarrow> index content (i + 1);
        if a = 0x0D \<and> b = 0x0A then Some (int i + 2) else findTrailer_from content (Suc i)
      } else Some (-1))"
  by pat_completeness auto
termination
  by (relation "measure (\<lambda>(content, i). length content - i)") auto

declare findStart_from.simps [simp del] findTrailer_from.simps [simp del]

definition findTrailer :: "byte list \<Rightarrow> int \<Rightarrow> int go" where
  "findTrailer content minContent =
     (let minContent = (if minContent < 0 then 0 else minContent) in
      findTrailer_from content (nat minContent))"

definition header_at :: "byte list \<Rightarrow> nat \<Rightarrow> bool" where
  "header_at buf i \<longleftrightarrow> i + 1 < length buf \<and>
     (buf ! i = 0x78 \<and> buf ! (i + 1) = 0x78 \<or> buf ! i = 0x79 \<and> buf ! (i + 1) = 0x79)"

definition trailer_at :: "byte list \<Rightarrow> nat \<Rightarrow> bool" where
  "trailer_at c i \<longleftrightarrow> i + 1 < length c \<and> c ! i = 0x0D \<and> c ! (i + 1) = 0x0A"

interpretation start_scan: linear_scan "findStart_from buf" "length buf - 1"
    "header_at buf" int for buf
  by standard (subst findStart_from.simps, auto simp: index_ok header_at_def)

interpretation trailer_scan: linear_scan "findTrailer_from c" "length c - 1"
    "trailer_at c" "\<lambda>i. int i + 2" for c
  by standard (subst findTrailer_from.simps, auto simp: index_ok trailer_at_def)

section \<open>Content bounds\<close>

text \<open>The results are \<open>(min, exact, known)\<close>, with \<open>exact = -1\<close> for "no exact length".\<close>

definition wifiLBSContentBounds :: "byte list \<Rightarrow> (int \<times> int \<times> bool) go" where
  "wifiLBSContentBounds content =
     (let known = True; min = 6; exact = -1 in
      if length content < 6 then Some (min, exact, known)
      else do {
        rest \<leftarrow> slice content 6 (length content);
        lbsStart \<leftarrow> findLBSHeader rest;
        if lbsStart < 0 then Some (min, exact, known)
        else do {
          lbs \<leftarrow> slice rest (nat lbsStart) (length rest);
          if length lbs < 4 then Some (min, exact, known)
          else do {
            b0 \<leftarrow> index lbs 0;
            let count = unat b0;
            if count < 1 \<or> count > 6 then Some (min, exact, known)
            else
              let pos = 4;
                  cellSize = (if pos + count * 7 > length lbs \<and> pos + count * 6 \<le> length lbs
                              then 6 else 7);
                  need = pos + count * cellSize in
              if length lbs < need then Some (6 + lbsStart + int need, exact, known)
              else Some (min, 6 + lbsStart + int need, known)
          }
        }
      })"

definition contentBounds :: "byte \<Rightarrow> byte list \<Rightarrow> (int \<times> int \<times> bool) go" where
  "contentBounds proto content =
     (if proto = MsgLogin then Some (9, -1, True)
      else if proto = MsgTimeSync then Some (0, -1, True)
      else if proto = MsgStatus then Some (4, -1, True)
      else if proto = MsgGPS \<or> proto = MsgGPSOffline \<or> proto = MsgGPSLBS \<or> proto = MsgGPS2
        then Some (18, -1, True)
      else if proto = MsgWifiLBS \<or> proto = MsgWifiLBS2 \<or> proto = MsgOfflineWifi
          \<or> proto = MsgOnlineWifi then wifiLBSContentBounds content
      else if proto = MsgICCID then Some (1, -1, True)
      else if proto = MsgParam then Some (0, -1, True)
      else Some (0, -1, False))"

section \<open>Cutting the frame\<close>

definition splitBodyAndSerial :: "byte list \<Rightarrow> byte list \<times> u16" where
  "splitBodyAndSerial content = (content, 0)"

definition frameFromRaw :: "byte list \<Rightarrow> u16 \<Rightarrow> extracted go" where
  "frameFromRaw raw header =
     (let end = length raw in
      if end < 5 then Some (Inl (ErrBadLength, end))
      else if header = HeaderShort then do {
        proto \<leftarrow> index raw 3;
        content \<leftarrow> slice raw 4 (end - 2);
        let (body, serial) = splitBodyAndSerial content;
        Some (Inr (\<lparr>Proto = proto, Body = body, Serial = serial, Raw = raw\<rparr>, end)) }
      else if header = HeaderExt then
        (if end < 6 then Some (Inl (ErrBadLength, end))
         else do {
           proto \<leftarrow> index raw 4;
           content \<leftarrow> slice raw 5 (end - 2);
           let (body, serial) = splitBodyAndSerial content;
           Some (Inr (\<lparr>Proto = proto, Body = body, Serial = serial, Raw = raw\<rparr>, end)) })
      else Some (Inl (ErrBadHeader, end)))"

text \<open>
  \<open>ExtractFrame\<close> in three parts: the header search (\<open>ExtractFrame\<close>), the choice of the
  prefix length and the protocol byte (\<open>framePrefix\<close>, the \<open>switch\<close> on the header), and
  the search for the end (\<open>frameEnd\<close>).
\<close>

definition framePrefix :: "byte list \<Rightarrow> u16 \<Rightarrow> ((ferr \<times> nat) + (nat \<times> byte)) go" where
  "framePrefix buf header =
     (if header = HeaderShort then
        (if length buf < 4 then Some (Inl (ErrIncomplete, 0))
         else do { proto \<leftarrow> index buf 3; Some (Inr (4, proto)) })
      else if header = HeaderExt then
        (if length buf < 6 then Some (Inl (ErrIncomplete, 0))
         else do { proto \<leftarrow> index buf 4; Some (Inr (5, proto)) })
      else Some (Inl (ErrBadHeader, 2)))"

definition frameSearch :: "byte list \<Rightarrow> u16 \<Rightarrow> nat \<Rightarrow> byte list \<Rightarrow> int \<Rightarrow> extracted go" where
  "frameSearch buf header prefix content minContent =
     (if int (length content) < minContent + 2 then Some (Inl (ErrIncomplete, 0))
      else do {
        relEnd \<leftarrow> findTrailer content minContent;
        if relEnd < 0 then Some (Inl (ErrIncomplete, 0))
        else do {
          raw \<leftarrow> slice buf 0 (prefix + nat relEnd);
          frameFromRaw raw header
        }
      })"

definition frameEnd :: "byte list \<Rightarrow> u16 \<Rightarrow> nat \<Rightarrow> byte \<Rightarrow> extracted go" where
  "frameEnd buf header prefix proto = do {
     content \<leftarrow> slice buf prefix (length buf);
     (minContent, exact, known) \<leftarrow> contentBounds proto content;
     if known \<and> exact \<ge> 0 then
       (if int (length content) < exact + 2 then Some (Inl (ErrIncomplete, 0))
        else do {
          a \<leftarrow> index content (nat exact);
          b \<leftarrow> index content (nat exact + 1);
          if a \<noteq> 0x0D \<or> b \<noteq> 0x0A then frameSearch buf header prefix content exact
          else do {
            raw \<leftarrow> slice buf 0 (prefix + nat exact + 2);
            frameFromRaw raw header
          }
        })
     else frameSearch buf header prefix content (if known then minContent else 0)
   }"

definition ExtractFrame :: "byte list \<Rightarrow> extracted go" where
  "ExtractFrame buf =
     (if length buf < 5 then Some (Inl (ErrIncomplete, 0))
      else do {
        start \<leftarrow> findStart_from buf 0;
        if start = -1 then Some (Inl (ErrBadHeader, length buf))
        else if start > 0 then Some (Inl (ErrBadHeader, nat start))
        else do {
          h \<leftarrow> slice buf 0 2;
          header \<leftarrow> be_uint16 h;
          p \<leftarrow> framePrefix buf header;
          case p of
            Inl e \<Rightarrow> Some (Inl e)
          | Inr (prefix, proto) \<Rightarrow> frameEnd buf header prefix proto
        }
      })"

section \<open>What ExtractFrame computes\<close>

text \<open>
  The specification: the frame ends with the first trailer at or after a lower bound on
  the content length. The bound is the fixed minimum of the protocol, and for the Wi-Fi/LBS
  family the end of the LBS block, when the scan for its header finds one in the buffer.
\<close>

definition is_wifi :: "byte \<Rightarrow> bool" where
  "is_wifi p \<longleftrightarrow> p = MsgWifiLBS \<or> p = MsgWifiLBS2 \<or> p = MsgOfflineWifi \<or> p = MsgOnlineWifi"

definition min_content :: "byte \<Rightarrow> nat" where
  "min_content p =
     (if p = MsgLogin then 9 else if p = MsgStatus then 4
      else if p = MsgGPS \<or> p = MsgGPSOffline \<or> p = MsgGPSLBS \<or> p = MsgGPS2 then 18
      else if p = MsgICCID then 1 else 0)"

definition lower :: "byte \<Rightarrow> byte list \<Rightarrow> nat" where
  "lower p c =
     (if is_wifi p then 6 + (case lbs_start (drop 6 c) of None \<Rightarrow> 0 | Some j \<Rightarrow> lbs_end (drop 6 c) j)
      else min_content p)"

definition first_trailer :: "byte list \<Rightarrow> nat \<Rightarrow> nat option" where
  "first_trailer c lo = find (trailer_at c) [lo..<length c - 1]"

definition header_len :: "byte list \<Rightarrow> nat" where
  "header_len buf = (if buf ! 0 = 0x78 then 4 else 5)"

definition frame_of :: "nat \<Rightarrow> byte list \<Rightarrow> frame" where
  "frame_of pre raw = \<lparr>Proto = raw ! (pre - 1), Body = take (length raw - (pre + 2)) (drop pre raw),
     Serial = 0, Raw = raw\<rparr>"

definition extract_spec :: "byte list \<Rightarrow> extracted" where
  "extract_spec buf =
     (if length buf < 5 then Inl (ErrIncomplete, 0)
      else case find (header_at buf) [0..<length buf - 1] of
        None \<Rightarrow> Inl (ErrBadHeader, length buf)
      | Some (Suc i) \<Rightarrow> Inl (ErrBadHeader, Suc i)
      | Some 0 \<Rightarrow>
          (let pre = header_len buf; c = drop pre buf in
           case first_trailer c (lower (buf ! (pre - 1)) c) of
             None \<Rightarrow> Inl (ErrIncomplete, 0)
           | Some i \<Rightarrow> Inr (frame_of pre (take (pre + i + 2) buf), pre + i + 2)))"

text \<open>The loops, through the scan locale.\<close>

lemma findTrailer_find [no_panic]:
  "findTrailer c (int lo) = Some (case first_trailer c lo of None \<Rightarrow> -1 | Some i \<Rightarrow> int i + 2)"
  by (simp add: findTrailer_def first_trailer_def trailer_scan.loop_find)

text \<open>
  The Wi-Fi bounds in closed form. The minimum is always 6: the branch of the code for
  "cells not fully present yet" is never taken, because the header scan already asks for
  \<open>6 * count\<close> bytes of cells, and with exactly those the cell size is taken to be 6.
\<close>

lemma wifiLBSContentBounds_eq [no_panic]:
  "wifiLBSContentBounds c = Some (6,
     (case lbs_start (drop 6 c) of None \<Rightarrow> -1 | Some j \<Rightarrow> int (6 + lbs_end (drop 6 c) j)), True)"
proof (cases "length c < 6")
  case True
  then have "lbs_start (drop 6 c) = None"
    by (simp add: lbs_start_def)
  with True show ?thesis
    by (simp add: wifiLBSContentBounds_def Let_def)
next
  case False
  let ?rest = "drop 6 c"
  from False have sl: "slice c 6 (length c) = Some ?rest"
    by (simp add: slice_to_end)
  show ?thesis
  proof (cases "lbs_start ?rest")
    case None
    with False sl show ?thesis
      by (simp add: wifiLBSContentBounds_def Let_def findLBSHeader_find)
  next
    case (Some j)
    define r n where "r = ?rest" and "n = unat (r ! j)"
    note j = lbs_startD [OF Some, folded r_def, folded n_def]
    have s: "slice r j (length r) = Some (drop j r)"
      using j(2) by (intro slice_to_end) simp
    have i: "index (drop j r) 0 = Some (r ! j)"
      using j(2) by (simp add: index_def add.commute)
    have "j + 4 + n * 7 \<le> length r \<longleftrightarrow> \<not> (4 + n * 7 > length r - j \<and> 4 + n * 6 \<le> length r - j)"
      using j by arith
    with False sl Some s i j show ?thesis
      by (simp add: wifiLBSContentBounds_def Let_def findLBSHeader_find lbs_end_def not_less
          flip: r_def n_def) arith?
  qed
qed

section \<open>ExtractFrame implements its specification\<close>

lemma is_wifi_min:
  "contentBounds p c =
     (if is_wifi p then wifiLBSContentBounds c
      else Some (int (min_content p), -1, p \<in> {MsgLogin, MsgTimeSync, MsgStatus, MsgGPS,
        MsgGPSOffline, MsgGPSLBS, MsgGPS2, MsgICCID, MsgParam}))"
  by (auto simp: contentBounds_def is_wifi_def min_content_def msg_defs)

lemma first_trailerD:
  assumes "first_trailer c lo = Some i"
  shows "lo \<le> i" "i + 1 < length c" "trailer_at c i" "\<And>k. lo \<le> k \<Longrightarrow> k < i \<Longrightarrow> \<not> trailer_at c k"
  using assms by (auto simp: first_trailer_def find_upt_Some)

lemma first_trailer_short: "length c < lo + 2 \<Longrightarrow> first_trailer c lo = None"
  by (auto simp: first_trailer_def find_upt_None)

lemma first_trailer_hit: "trailer_at c lo \<Longrightarrow> first_trailer c lo = Some lo"
  by (auto simp: first_trailer_def find_upt_Some trailer_at_def)

text \<open>The two header forms, with their prefix length.\<close>

definition header_form :: "u16 \<Rightarrow> nat \<Rightarrow> bool" where
  "header_form h pre \<longleftrightarrow> h = HeaderShort \<and> pre = 4 \<or> h = HeaderExt \<and> pre = 5"

lemma frameFromRaw_ok:
  "header_form h pre \<Longrightarrow> pre + 2 \<le> length raw \<Longrightarrow>
   frameFromRaw raw h = Some (Inr (frame_of pre raw, length raw))"
  by (auto simp: frameFromRaw_def header_form_def header_defs index_ok slice_ok frame_of_def
      splitBodyAndSerial_def Let_def)

definition cut :: "byte list \<Rightarrow> nat \<Rightarrow> nat option \<Rightarrow> extracted" where
  "cut buf pre t = (case t of None \<Rightarrow> Inl (ErrIncomplete, 0)
     | Some i \<Rightarrow> Inr (frame_of pre (take (pre + i + 2) buf), pre + i + 2))"

lemma cut_raw:
  assumes "header_form h pre" "i + 1 < length (drop pre buf)"
  shows "slice buf 0 (pre + i + 2) \<bind> (\<lambda>raw. frameFromRaw raw h) = Some (cut buf pre (Some i))"
  using assms by (simp add: slice_def frameFromRaw_ok cut_def)

lemma frameSearch_eq:
  assumes h: "header_form h pre" and c: "c = drop pre buf"
  shows "frameSearch buf h pre c (int lo) = Some (cut buf pre (first_trailer c lo))"
proof (cases "first_trailer c lo")
  case None
  then show ?thesis
    by (simp add: frameSearch_def findTrailer_find cut_def)
next
  case (Some i)
  have n: "nat (int i + 2) = i + 2" by simp
  have "\<not> int (length c) < int lo + 2"
    using first_trailerD(1,2) [OF Some] by linarith
  with cut_raw [OF h, of i buf] c Some first_trailerD(2) [OF Some] show ?thesis
    by (simp add: frameSearch_def findTrailer_find n add.assoc)
qed

lemma frameEnd_eq:
  assumes h: "header_form h pre" and c: "c = drop pre buf" and l: "pre \<le> length buf"
  shows "frameEnd buf h pre p = Some (cut buf pre (first_trailer c (lower p c)))"
proof (cases "is_wifi p")
  case False
  let ?known = "p \<in> {MsgLogin, MsgTimeSync, MsgStatus, MsgGPS, MsgGPSOffline, MsgGPSLBS, MsgGPS2,
      MsgICCID, MsgParam}"
  have "(if ?known then int (min_content p) else 0) = int (min_content p)"
    by (simp add: min_content_def)
  moreover have "contentBounds p c = Some (int (min_content p), -1, ?known)"
    using False by (simp add: is_wifi_min)
  ultimately show ?thesis
    using False l frameSearch_eq [OF h c, of "min_content p"] c
    by (simp only: frameEnd_def slice_to_end lower_def) simp
next
  case True
  show ?thesis
  proof (cases "lbs_start (drop 6 c)")
    case None
    with True c l frameSearch_eq [OF h c, of 6] show ?thesis
      by (simp add: frameEnd_def slice_to_end is_wifi_min lower_def wifiLBSContentBounds_eq)
  next
    case (Some j)
    define e where "e = 6 + lbs_end (drop 6 c) j"
    have e: "lower p c = e" "contentBounds p c = Some (6, int e, True)"
      using True Some by (simp_all add: lower_def is_wifi_min wifiLBSContentBounds_eq e_def)
    show ?thesis
    proof (cases "e + 1 < length c \<and> trailer_at c e")
      case True
      moreover from True have "\<not> int (length c) < int e + 2" by linarith
      ultimately show ?thesis
        using cut_raw [OF h, of e buf] c l e
        by (simp add: frameEnd_def slice_to_end index_ok trailer_at_def first_trailer_hit)
    next
      case False
      with frameSearch_eq [OF h c, of e] c l e show ?thesis
        by (auto simp: frameEnd_def slice_to_end index_ok trailer_at_def first_trailer_short cut_def)
    qed
  qed
qed

lemma header_form_at:
  assumes "5 \<le> length buf" "header_at buf 0"
  defines "h \<equiv> (if buf ! 0 = 0x78 then HeaderShort else HeaderExt)"
  shows "slice buf 0 2 \<bind> be_uint16 = Some h" "header_form h (header_len buf)"
  using assms
  by (auto simp: slice_ok be_uint16_ok header_at_def header_defs header_form_def header_len_def)

lemma framePrefix_eq:
  assumes "5 \<le> length buf" "header_form h pre"
  shows "framePrefix buf h =
     Some (if h = HeaderExt \<and> length buf < 6 then Inl (ErrIncomplete, 0) else Inr (pre, buf ! (pre - 1)))"
  using assms by (auto simp: framePrefix_def header_form_def header_defs index_ok)

lemma find_header_0: "find (header_at buf) [0..<length buf - 1] = Some 0 \<longleftrightarrow> header_at buf 0"
  by (auto simp: find_upt_Some header_at_def)

text \<open>
  The step-by-step extraction computes the specification, on every buffer, without a panic.
\<close>

lemma ExtractFrame_eq [no_panic]: "ExtractFrame buf = Some (extract_spec buf)"
proof (cases "5 \<le> length buf \<and> header_at buf 0")
  case False
  then show ?thesis
    using find_header_0 [of buf]
    by (auto simp: ExtractFrame_def extract_spec_def start_scan.loop_find
        split: option.splits nat.splits)
next
  case True
  define h pre c where "h = (if buf ! 0 = 0x78 then HeaderShort else HeaderExt)"
    and "pre = header_len buf" and "c = drop pre buf"
  from True header_form_at [of buf]
  have hd: "slice buf 0 2 \<bind> be_uint16 = Some h" and form: "header_form h pre"
    by (simp_all add: h_def pre_def)
  from form True have pre: "pre \<le> length buf" by (auto simp: header_form_def)
  have start: "findStart_from buf 0 = Some 0"
    using find_header_0 [of buf] True by (simp add: start_scan.loop_find)
  have "ExtractFrame buf = framePrefix buf h \<bind> (\<lambda>p. case p of Inl e \<Rightarrow> Some (Inl e)
      | Inr (prefix, proto) \<Rightarrow> frameEnd buf h prefix proto)"
    using True hd start by (auto simp: ExtractFrame_def bind_eq_Some_conv)
  also have "\<dots> = Some (cut buf pre (first_trailer c (lower (buf ! (pre - 1)) c)))"
  proof (cases "h = HeaderExt \<and> length buf < 6")
    case True
    with form have "length c < 2" by (auto simp: c_def header_form_def header_defs)
    then have "first_trailer c lo = None" for lo
      by (simp add: first_trailer_short)
    with True form \<open>5 \<le> length buf \<and> header_at buf 0\<close> show ?thesis
      by (simp add: framePrefix_eq cut_def)
  next
    case False
    then have "framePrefix buf h = Some (Inr (pre, buf ! (pre - 1)))"
      using framePrefix_eq [of buf h pre] form \<open>5 \<le> length buf \<and> header_at buf 0\<close> by auto
    then show ?thesis
      by (simp add: frameEnd_eq [OF form c_def pre])
  qed
  also have "\<dots> = Some (extract_spec buf)"
    using True find_header_0 [of buf]
    by (simp add: extract_spec_def cut_def pre_def [symmetric] c_def [symmetric] Let_def
        split: option.splits)
  finally show ?thesis .
qed

text \<open>What a successful extraction found.\<close>

lemma extract_frameD:
  assumes "ExtractFrame buf = Some (Inr (f, n))"
  obtains i where "header_at buf 0"
    "first_trailer (drop (header_len buf) buf)
       (lower (buf ! (header_len buf - 1)) (drop (header_len buf) buf)) = Some i"
    "f = frame_of (header_len buf) (take (header_len buf + i + 2) buf)" "n = header_len buf + i + 2"
proof (cases "find (header_at buf) [0..<length buf - 1]")
  case None
  with assms that show ?thesis by (simp add: ExtractFrame_eq extract_spec_def split: if_splits)
next
  case (Some s)
  show ?thesis
  proof (cases s)
    case 0
    with Some have h: "header_at buf 0" by (simp only: find_header_0)
    have spec: "extract_spec buf = Inr (f, n)" using assms by (simp add: ExtractFrame_eq)
    then have len: "\<not> length buf < 5" by (auto simp: extract_spec_def)
    let ?t = "first_trailer (drop (header_len buf) buf)
       (lower (buf ! (header_len buf - 1)) (drop (header_len buf) buf))"
    have cut: "cut buf (header_len buf) ?t = Inr (f, n)"
      using spec len Some 0 by (simp only: extract_spec_def cut_def Let_def if_False option.case nat.case)
    show ?thesis
    proof (cases ?t)
      case None
      with cut show ?thesis by (simp only: cut_def option.case sum.distinct)
    next
      case (Some i)
      with cut have "f = frame_of (header_len buf) (take (header_len buf + i + 2) buf)"
        "n = header_len buf + i + 2"
        unfolding cut_def by auto
      with that h Some show ?thesis by blast
    qed
  next
    case (Suc k)
    with Some assms that show ?thesis by (simp add: ExtractFrame_eq extract_spec_def split: if_splits)
  qed
qed

section \<open>Properties\<close>

text \<open>C3. \<open>ExtractFrame\<close>, with its header scan, its switch on the protocol, its exact lengths
  with their fallback and its trailer scan, computes the declarative specification on every
  buffer, and never indexes out of range.\<close>

theorem extract_implements_spec:
  "ExtractFrame buf = Some (extract_spec buf)"
  by (simp only: ExtractFrame_eq)

text \<open>C18. A frame is cut from the front of the buffer and loses nothing: its raw bytes are the
  bytes consumed, which are the prefix, the body and the trailer. The body is at least as long
  as the protocol asks for, and no trailer inside it was passed over.\<close>

theorem extracted_frame_shape:
  assumes "ExtractFrame buf = Some (Inr (f, n))"
  shows "6 \<le> n \<and> n \<le> length buf \<and> Raw f = take n buf \<and> header_at (Raw f) 0 \<and>
    Raw f = take (header_len buf) buf @ Body f @ [0x0D, 0x0A] \<and> Proto f = buf ! (header_len buf - 1) \<and>
    min_content (Proto f) \<le> length (Body f) \<and>
    (\<forall>k. lower (Proto f) (drop (header_len buf) buf) \<le> k \<and> k < length (Body f) \<longrightarrow>
      \<not> trailer_at (drop (header_len buf) buf) k)"
proof -
  let ?pre = "header_len buf"
  let ?c = "drop ?pre buf"
  obtain i where h: "header_at buf 0"
    and i: "first_trailer ?c (lower (buf ! (?pre - 1)) ?c) = Some i"
    and f: "f = frame_of ?pre (take (?pre + i + 2) buf)" "n = ?pre + i + 2"
    using assms by (rule extract_frameD)
  note t = first_trailerD [OF i]
  have pre: "4 \<le> ?pre" "?pre \<le> 5" by (simp_all add: header_len_def)
  have n: "n \<le> length buf" using f(2) t(2) by simp
  have body: "Body f = take i ?c" "Raw f = take n buf" "Proto f = buf ! (?pre - 1)"
    using f t(2) pre by (simp_all add: frame_of_def take_drop min_absorb2)
  have "take (i + 2) ?c = take i ?c @ [?c ! i, ?c ! (i + 1)]"
    using t(2) by (simp add: take_Suc_conv_app_nth numeral_2_eq_2)
  moreover have "?c ! i = 0x0D" "?c ! (i + 1) = 0x0A"
    using t(3) by (simp_all add: trailer_at_def)
  moreover have "take n buf = take ?pre buf @ take (i + 2) ?c"
    using f(2) take_add [of ?pre "i + 2" buf] by (simp only: add.assoc)
  ultimately have "Raw f = take ?pre buf @ Body f @ [0x0D, 0x0A]"
    using body by simp
  moreover have "min_content (buf ! (?pre - 1)) \<le> i"
    using t(1) by (auto simp: lower_def is_wifi_def min_content_def msg_defs split: if_splits)
  moreover have "header_at (take n buf) 0"
    using h f(2) pre by (auto simp: header_at_def)
  ultimately show ?thesis
    using n f(2) pre body t by simp
qed

theorem extracted_frame_shape_witness:
  "ExtractFrame [0x78, 0x78, 0x05, 0x13, 0x64, 0x01, 0x00, 0x0A, 0x0D, 0x0A, 0x78] =
     Some (Inr (\<lparr>Proto = 0x13, Body = [0x64, 0x01, 0x00, 0x0A], Serial = 0,
       Raw = [0x78, 0x78, 0x05, 0x13, 0x64, 0x01, 0x00, 0x0A, 0x0D, 0x0A]\<rparr>, 10)) \<and> 6 \<le> (10 :: nat)"
proof -
  have "ExtractFrame [0x78, 0x78, 0x05, 0x13, 0x64, 0x01, 0x00, 0x0A, 0x0D, 0x0A, 0x78] =
     Some (Inr (\<lparr>Proto = 0x13, Body = [0x64, 0x01, 0x00, 0x0A], Serial = 0,
       Raw = [0x78, 0x78, 0x05, 0x13, 0x64, 0x01, 0x00, 0x0A, 0x0D, 0x0A]\<rparr>, 10))"
    by code_simp
  with extracted_frame_shape [OF this] show ?thesis by simp
qed

text \<open>C19. The only errors are "wait for more", which consumes nothing, and a bad header, which
  drops at least one byte and exactly the bytes before the first header in the buffer (all of
  them when there is none).\<close>

theorem extract_errors_resync_at_header:
  assumes "ExtractFrame buf = Some (Inl (e, n))"
  shows "e = ErrIncomplete \<and> n = 0 \<or>
    e = ErrBadHeader \<and> 0 < n \<and> n \<le> length buf \<and> (\<forall>i<n. \<not> header_at buf i) \<and>
      (n = length buf \<or> header_at buf n)"
  using assms
  by (auto simp: ExtractFrame_eq extract_spec_def Let_def find_upt_Some find_upt_None header_at_def
      split: if_splits option.splits nat.splits)

theorem extract_errors_resync_at_header_witness:
  "ExtractFrame [0xAA, 0xBB, 0x78, 0x78, 0x01] = Some (Inl (ErrBadHeader, 2)) \<and>
   header_at [0xAA, 0xBB, 0x78, 0x78, 0x01] 2"
proof -
  have "ExtractFrame [0xAA, 0xBB, 0x78, 0x78, 0x01] = Some (Inl (ErrBadHeader, 2))" by code_simp
  with extract_errors_resync_at_header [OF this] show ?thesis by simp
qed

text \<open>The bounds of the Wi-Fi/LBS family never ask the caller to wait for cells: the minimum
  is 6 whatever the content, and an exact length, when there is one, lies inside the content.
  The branch of the code that waits for incomplete cells is dead.\<close>

theorem wifi_bounds_never_wait_for_cells:
  "\<exists>exact. wifiLBSContentBounds c = Some (6, exact, True) \<and>
     (exact = -1 \<or> 10 \<le> exact \<and> exact \<le> int (length c))"
proof (cases "lbs_start (drop 6 c)")
  case (Some j)
  have "4 \<le> lbs_end (drop 6 c) j" by (simp add: lbs_end_def Let_def)
  moreover have "lbs_end (drop 6 c) j \<le> length c - 6" using lbs_end_le [OF Some] by simp
  ultimately have "10 \<le> 6 + lbs_end (drop 6 c) j" "6 + lbs_end (drop 6 c) j \<le> length c" by linarith+
  with Some show ?thesis by (simp add: wifiLBSContentBounds_eq)
qed (simp add: wifiLBSContentBounds_eq)

text \<open>Two Wi-Fi/LBS packets that arrive in one buffer can be taken for one. The first is a
  complete packet on its own; with the second behind it the LBS header search runs on into the
  second packet, and both are returned as a single frame.\<close>

theorem pipelined_wifi_frames_merge:
  "let first = [0x78, 0x78, 0x00, 0x1A, 0x26, 0x08, 0x15, 0x01, 0x25, 0x29, 0x0D, 0x0A];
       second = [0x78, 0x78, 0x00, 0x1A, 0x26, 0x08, 0x15, 0x01, 0x25, 0x29, 0x01, 0x01, 0xB0, 0x0B,
         0x12, 0x34, 0x00, 0x00, 0x56, 0x78, 0x40, 0x0D, 0x0A]
   in ExtractFrame first = Some (Inr (frame_of 4 first, length first)) \<and>
      ExtractFrame second = Some (Inr (frame_of 4 second, length second)) \<and>
      ExtractFrame (first @ second) =
        Some (Inr (frame_of 4 (first @ second), length first + length second))"
  by code_simp

end
