(* ===== verification/Messages.thy ===== *)
theory Messages
  imports Frame
begin

text \<open>
  What \<open>ExtractFrame\<close> does with well-formed traffic: an abstract message, its encoding on
  the wire, and the lemmas that extraction returns exactly the first message of a stream,
  waits on every proper prefix of one, and does not change its mind when more bytes arrive.
\<close>

section \<open>Messages on the wire\<close>

text \<open>
  A message has the short form \<open>78 78 LL PP content 0D 0A\<close> or the extended form
  \<open>79 79 LL LL PP content 0D 0A\<close>. The length bytes are arbitrary.
\<close>

datatype message = Short byte byte "byte list" | Ext byte byte byte "byte list"

fun msg_prefix :: "message \<Rightarrow> byte list" where
  "msg_prefix (Short l p c) = [0x78, 0x78, l, p]"
| "msg_prefix (Ext l1 l2 p c) = [0x79, 0x79, l1, l2, p]"

fun msg_proto :: "message \<Rightarrow> byte" where
  "msg_proto (Short l p c) = p"
| "msg_proto (Ext l1 l2 p c) = p"

fun msg_content :: "message \<Rightarrow> byte list" where
  "msg_content (Short l p c) = c"
| "msg_content (Ext l1 l2 p c) = c"

definition encode :: "message \<Rightarrow> byte list" where
  "encode m = msg_prefix m @ msg_content m @ [0x0D, 0x0A]"

definition msg_frame :: "message \<Rightarrow> frame" where
  "msg_frame m = \<lparr>Proto = msg_proto m, Body = msg_content m, Serial = 0, Raw = encode m\<rparr>"

text \<open>
  The content is long enough for its protocol and holds no \<open>0D 0A\<close> at or after the
  protocol's minimum length. Wi-Fi/LBS messages are left out: where they end depends on what
  follows them in the buffer (see the last section).
\<close>

definition wf_message :: "message \<Rightarrow> bool" where
  "wf_message m \<longleftrightarrow> \<not> is_wifi (msg_proto m) \<and> min_content (msg_proto m) \<le> length (msg_content m) \<and>
     first_trailer (msg_content m @ [0x0D, 0x0A]) (min_content (msg_proto m)) = Some (length (msg_content m))"

section \<open>Trailers under appending\<close>

lemma trailer_at_append [simp]: "i + 1 < length c \<Longrightarrow> trailer_at (c @ d) i = trailer_at c i"
  by (simp add: trailer_at_def nth_append)

lemma first_trailer_append:
  assumes "first_trailer c lo = Some i"
  shows "first_trailer (c @ d) lo = Some i"
proof -
  note i = first_trailerD [OF assms]
  have "\<not> trailer_at (c @ d) k" if "lo \<le> k" "k < i" for k
    using i(2) i(4) [of k] that by simp
  with i show ?thesis
    by (simp add: first_trailer_def find_upt_Some)
qed

lemma first_trailer_prefix:
  assumes "first_trailer (c @ d) lo = Some i" "length c < i + 2"
  shows "first_trailer c lo = None"
  unfolding first_trailer_def find_upt_None
proof (intro allI impI)
  fix k
  assume k: "lo \<le> k \<and> k < length c - 1"
  then have "lo \<le> k" "k < i" using assms(2) by linarith+
  then have "\<not> trailer_at (c @ d) k"
    by (rule first_trailerD(4) [OF assms(1)])
  moreover from k have "k + 1 < length c" by linarith
  ultimately show "\<not> trailer_at c k" by simp
qed

lemma lower_plain: "\<not> is_wifi p \<Longrightarrow> lower p c = min_content p"
  by (simp add: lower_def)

section \<open>Extraction from a buffer with a header at its start\<close>

lemma extract_at_header:
  assumes "5 \<le> length buf" "header_at buf 0"
  shows "ExtractFrame buf = Some (cut buf (header_len buf)
    (first_trailer (drop (header_len buf) buf)
      (lower (buf ! (header_len buf - 1)) (drop (header_len buf) buf))))"
  using assms find_header_0 [of buf]
  by (auto simp: ExtractFrame_eq extract_spec_def cut_def Let_def split: option.splits)

lemma extract_short: "length buf < 5 \<Longrightarrow> ExtractFrame buf = Some (Inl (ErrIncomplete, 0))"
  by (simp add: ExtractFrame_eq extract_spec_def)

lemma msg_prefix_facts:
  "header_len (msg_prefix m @ xs) = length (msg_prefix m)"
  "(msg_prefix m @ xs) ! (length (msg_prefix m) - Suc 0) = msg_proto m"
  "header_at (msg_prefix m @ xs) 0"
  "4 \<le> length (msg_prefix m)" "length (msg_prefix m) \<le> 5"
  by (cases m; simp add: header_len_def header_at_def)+

lemma extract_after_prefix:
  assumes "\<not> is_wifi (msg_proto m)" "5 \<le> length (msg_prefix m @ xs)"
  shows "ExtractFrame (msg_prefix m @ xs) =
    Some (cut (msg_prefix m @ xs) (length (msg_prefix m)) (first_trailer xs (min_content (msg_proto m))))"
  using assms extract_at_header [of "msg_prefix m @ xs"]
  by (simp add: msg_prefix_facts lower_plain)

lemma frame_of_encode: "frame_of (length (msg_prefix m)) (encode m) = msg_frame m"
  by (cases m) (auto simp: frame_of_def encode_def msg_frame_def)

lemma extract_encode:
  assumes wf: "wf_message m"
  shows "ExtractFrame (encode m @ rest) = Some (Inr (msg_frame m, length (encode m)))"
proof -
  let ?pre = "msg_prefix m" and ?c = "msg_content m"
  let ?xs = "(?c @ [0x0D, 0x0A]) @ rest"
  from wf have "first_trailer ?xs (min_content (msg_proto m)) = Some (length ?c)"
    by (subst first_trailer_append [of "?c @ [0x0D, 0x0A]"]) (simp_all add: wf_message_def)
  moreover have e: "encode m @ rest = ?pre @ ?xs"
    by (simp add: encode_def)
  moreover have t: "take (length ?pre + length ?c + 2) (?pre @ ?xs) = encode m"
    by (simp add: encode_def)
  moreover have "ExtractFrame (?pre @ ?xs) =
      Some (cut (?pre @ ?xs) (length ?pre) (first_trailer ?xs (min_content (msg_proto m))))"
    using wf msg_prefix_facts(4) [of m] by (intro extract_after_prefix) (auto simp: wf_message_def)
  ultimately show ?thesis
    by (simp only: e cut_def option.case frame_of_encode) (simp add: encode_def)
qed

lemma extract_proper_prefix:
  assumes wf: "wf_message m" and e: "encode m = b @ r" and r: "r \<noteq> []"
  shows "ExtractFrame b = Some (Inl (ErrIncomplete, 0))"
proof (cases "length b < 5")
  case True
  then show ?thesis by (rule extract_short)
next
  case False
  let ?pre = "msg_prefix m" and ?c = "msg_content m"
  define d where "d = drop (length ?pre) b"
  have l: "length ?pre \<le> length b"
    using False msg_prefix_facts(5) [of m] by simp
  have "?pre @ (?c @ [0x0D, 0x0A]) = b @ r"
    using e by (simp add: encode_def)
  then have b: "b = ?pre @ d" and d: "?c @ [0x0D, 0x0A] = d @ r"
    using l by (auto simp: d_def append_eq_append_conv_if) (metis append_take_drop_id)+
  from d r have "length d < length ?c + 2"
    by (metis add.commute length_append length_greater_0_conv less_add_same_cancel1 list.size(3,4)
        numeral_2_eq_2 plus_1_eq_Suc add_2_eq_Suc' add_Suc_right One_nat_def)
  with wf d have "first_trailer d (min_content (msg_proto m)) = None"
    by (intro first_trailer_prefix [of d r _ "length ?c"]) (auto simp: wf_message_def)
  moreover have "ExtractFrame (?pre @ d) =
      Some (cut (?pre @ d) (length ?pre) (first_trailer d (min_content (msg_proto m))))"
    using wf False b by (intro extract_after_prefix) (auto simp: wf_message_def)
  ultimately show ?thesis
    using b by (simp add: cut_def)
qed

section \<open>Properties\<close>

text \<open>C16. Round trip. A well-formed message comes out of the buffer as it was sent, with the
  number of bytes it takes, whatever follows it.\<close>

theorem message_roundtrip:
  assumes "wf_message m"
  shows "ExtractFrame (encode m @ rest) = Some (Inr (msg_frame m, length (encode m)))"
  using assms by (rule extract_encode)

theorem message_roundtrip_witness:
  "ExtractFrame (encode (Short 0x0A 0x01 [0x08, 0x61, 0x97, 0x10, 0x80, 0x06, 0x0D, 0x0A, 0x09]) @ [0x78]) =
   Some (Inr (msg_frame (Short 0x0A 0x01 [0x08, 0x61, 0x97, 0x10, 0x80, 0x06, 0x0D, 0x0A, 0x09]), 15))"
proof -
  have "wf_message (Short 0x0A 0x01 [0x08, 0x61, 0x97, 0x10, 0x80, 0x06, 0x0D, 0x0A, 0x09])"
    by code_simp
  from message_roundtrip [OF this, of "[0x78]"] show ?thesis by (simp add: encode_def)
qed

text \<open>C20. A message that has only partly arrived is waited for: every proper prefix of a
  well-formed message is incomplete, and nothing of it is consumed.\<close>

theorem message_prefix_is_awaited:
  assumes "wf_message m" "n < length (encode m)"
  shows "ExtractFrame (take n (encode m)) = Some (Inl (ErrIncomplete, 0))"
  using extract_proper_prefix [OF assms(1), of "take n (encode m)" "drop n (encode m)"] assms(2) by simp

theorem message_prefix_is_awaited_witness:
  "ExtractFrame (take 13 (encode (Short 0x0A 0x01 [0x08, 0x61, 0x97, 0x10, 0x80, 0x06, 0x0D, 0x0A, 0x09]))) =
   Some (Inl (ErrIncomplete, 0))"
proof -
  have "wf_message (Short 0x0A 0x01 [0x08, 0x61, 0x97, 0x10, 0x80, 0x06, 0x0D, 0x0A, 0x09])"
    by code_simp
  from message_prefix_is_awaited [OF this, of 13] show ?thesis by (simp add: encode_def)
qed

end
