(* ===== verification/Drain.thy ===== *)
theory Drain
  imports Messages
begin

text \<open>
  The receive loop of a connection, from \<open>internal/server/server.go\<close>: \<open>drainFrames\<close>
  takes frames from the buffer until the rest is incomplete, resynchronising after a framing
  error, and \<open>readLoop\<close> is the loop of \<open>handleConn\<close> that appends what each read
  returned and drains. Both are parameterised by the frame handler: the server instantiates
  it with \<open>handleFrame\<close>.
\<close>

section \<open>Progress of the extraction\<close>

lemma extract_progress:
  "ExtractFrame buf = Some (Inr (f, n)) \<Longrightarrow> 6 \<le> n \<and> n \<le> length buf"
  "ExtractFrame buf = Some (Inl (e, n)) \<Longrightarrow> e \<noteq> ErrIncomplete \<Longrightarrow> 0 < n \<and> n \<le> length buf"
  by (auto simp: ExtractFrame_eq extract_spec_def Let_def find_upt_Some header_len_def
      dest!: first_trailerD(2) split: if_splits option.splits nat.splits)

section \<open>The loops\<close>

text \<open>How many bytes a framing error drops: the \<open>if\<close> in the error branch.\<close>

definition resync :: "nat \<Rightarrow> byte list \<Rightarrow> byte list" where
  "resync consumed buf =
     (if consumed > 0 \<and> consumed \<le> length buf then drop consumed buf
      else if length buf > 0 then drop 1 buf else buf)"

function drainFrames :: "(frame \<Rightarrow> 's \<Rightarrow> 's go) \<Rightarrow> byte list \<Rightarrow> 's \<Rightarrow> (byte list \<times> 's) go" where
  "drainFrames h buf s = (case ExtractFrame buf of
     None \<Rightarrow> None
   | Some (Inl (e, consumed)) \<Rightarrow>
       (if e = ErrIncomplete then Some (buf, s)
        else drainFrames h (resync consumed buf) s)
   | Some (Inr (frame, consumed)) \<Rightarrow>
       (case slice buf consumed (length buf) of
          None \<Rightarrow> None
        | Some buf' \<Rightarrow> (case h frame s of None \<Rightarrow> None | Some s' \<Rightarrow> drainFrames h buf' s')))"
  by pat_completeness auto
termination
  by (relation "measure (\<lambda>(h, buf, s). length buf)")
    (auto simp: resync_def slice_def dest: extract_progress split: if_splits)

declare drainFrames.simps [simp del]

text \<open>
  The read loop: one list element per successful \<open>Read\<close>, holding the bytes it returned;
  the end of the list is the read error that ends the connection.
\<close>

fun readLoop :: "(frame \<Rightarrow> 's \<Rightarrow> 's go) \<Rightarrow> byte list list \<Rightarrow> byte list \<Rightarrow> 's \<Rightarrow> (byte list \<times> 's) go" where
  "readLoop h [] buf s = Some (buf, s)"
| "readLoop h (chunk # chunks) buf s = do {
     (buf', s') \<leftarrow> drainFrames h (buf @ chunk) s;
     readLoop h chunks buf' s'
   }"

text \<open>Handling a list of frames in order.\<close>

fun run_frames :: "(frame \<Rightarrow> 's \<Rightarrow> 's go) \<Rightarrow> frame list \<Rightarrow> 's \<Rightarrow> 's go" where
  "run_frames h [] s = Some s"
| "run_frames h (f # fs) s = do { s' \<leftarrow> h f s; run_frames h fs s' }"

lemma run_frames_append:
  "run_frames h (fs @ gs) s = do { s' \<leftarrow> run_frames h fs s; run_frames h gs s' }"
  by (induction fs arbitrary: s) (auto split: bind_splits)

section \<open>One step of the drain\<close>

lemma drain_incomplete:
  "ExtractFrame buf = Some (Inl (ErrIncomplete, n)) \<Longrightarrow> drainFrames h buf s = Some (buf, s)"
  by (subst drainFrames.simps) simp

lemma drain_resync:
  "ExtractFrame buf = Some (Inl (e, n)) \<Longrightarrow> e \<noteq> ErrIncomplete \<Longrightarrow>
   drainFrames h buf s = drainFrames h (drop n buf) s"
  using extract_progress(2) [of buf e n] by (subst drainFrames.simps) (simp add: resync_def)

lemma drain_frame:
  "ExtractFrame buf = Some (Inr (f, n)) \<Longrightarrow>
   drainFrames h buf s = h f s \<bind> drainFrames h (drop n buf)"
  using extract_progress(1) [of buf f n]
  by (subst drainFrames.simps) (auto simp: slice_to_end split: option.splits)

text \<open>An induction rule that follows these three cases.\<close>

lemma drain_induct [case_names incomplete resync frame]:
  assumes "\<And>buf s. ExtractFrame buf = Some (Inl (ErrIncomplete, 0)) \<Longrightarrow> P buf s"
    and "\<And>buf s e n. ExtractFrame buf = Some (Inl (e, n)) \<Longrightarrow> e \<noteq> ErrIncomplete \<Longrightarrow> 0 < n \<Longrightarrow>
      n \<le> length buf \<Longrightarrow> P (drop n buf) s \<Longrightarrow> P buf s"
    and "\<And>buf s f n. ExtractFrame buf = Some (Inr (f, n)) \<Longrightarrow> 6 \<le> n \<Longrightarrow> n \<le> length buf \<Longrightarrow>
      (\<And>s'. P (drop n buf) s') \<Longrightarrow> P buf s"
  shows "P buf s"
proof (induction buf arbitrary: s rule: length_induct)
  case (1 buf)
  obtain r where r: "ExtractFrame buf = Some r"
    by (simp add: ExtractFrame_eq)
  show ?case
  proof (cases r)
    case (Inl a)
    obtain e n where a: "a = (e, n)" by (cases a)
    show ?thesis
    proof (cases "e = ErrIncomplete")
      case True
      moreover from True r Inl a have "n = 0"
        by (auto simp: ExtractFrame_eq extract_spec_def Let_def split: if_splits option.splits nat.splits)
      ultimately show ?thesis using assms(1) r Inl a by simp
    next
      case False
      with extract_progress(2) [of buf e n] r Inl a have n: "0 < n" "n \<le> length buf" by auto
      then have "length (drop n buf) < length buf" by simp
      with 1 have "P (drop n buf) s" by blast
      with assms(2) [of buf e n s] False n r Inl a show ?thesis by simp
    qed
  next
    case (Inr a)
    obtain f n where a: "a = (f, n)" by (cases a)
    with extract_progress(1) [of buf f n] r Inr have n: "6 \<le> n" "n \<le> length buf" by auto
    then have "length (drop n buf) < length buf" by simp
    with 1 have "P (drop n buf) s'" for s' by blast
    with assms(3) [of buf f n s] n r Inr a show ?thesis by simp
  qed
qed

lemma drain_total: "(\<And>f s. h f s \<noteq> None) \<Longrightarrow> drainFrames h buf s \<noteq> None"
  by (induction buf s rule: drain_induct)
    (auto simp: drain_incomplete drain_resync drain_frame bind_eq_None_conv)

section \<open>A stream of messages, cut anywhere\<close>

abbreviation stream_of :: "message list \<Rightarrow> byte list" where
  "stream_of ms \<equiv> concat (map encode ms)"

lemma encode_nonempty [simp]: "encode m \<noteq> []"
  by (simp add: encode_def)

lemma drain_prefix_of_stream:
  assumes "\<forall>m\<in>set ms. wf_message m" "b @ r = stream_of ms"
  obtains ms1 ms2 t where "ms = ms1 @ ms2" "t @ r = stream_of ms2"
    "ExtractFrame t = Some (Inl (ErrIncomplete, 0))"
    "\<And>h s. drainFrames h b s = map_option (Pair t) (run_frames h (map msg_frame ms1) (s :: 's))"
  using assms
proof (induction ms arbitrary: b thesis)
  case Nil
  then have "b = []" "r = []" by auto
  with Nil.prems(1) [of "[]" "[]" "[]"] show ?case
    by (simp add: drain_incomplete [OF extract_short] extract_short)
next
  case (Cons m ms)
  from Cons.prems(3) have split: "b @ r = encode m @ stream_of ms" by simp
  show ?case
  proof (cases "length (encode m) \<le> length b")
    case True
    with split obtain b' where b: "b = encode m @ b'"
      by (metis append_eq_append_conv_if append_take_drop_id)
    with split have "b' @ r = stream_of ms" by simp
    with Cons.IH [of b'] Cons.prems(2) obtain ms1 ms2 t where
      d: "ms = ms1 @ ms2" "t @ r = stream_of ms2" "ExtractFrame t = Some (Inl (ErrIncomplete, 0))"
        "\<And>h s. drainFrames h b' s = map_option (Pair t) (run_frames h (map msg_frame ms1) (s :: 's))"
      by auto
    have "drainFrames h b s = map_option (Pair t) (run_frames h (map msg_frame (m # ms1)) s)"
      for h and s :: 's
      using Cons.prems(2) b d(4)
      by (simp add: drain_frame [OF extract_encode] split: bind_splits)
    with d Cons.prems(1) [of "m # ms1" ms2 t] show ?thesis by simp
  next
    case False
    with split obtain r' where m: "encode m = b @ r'"
      by (metis append_eq_append_conv_if append_take_drop_id nat_le_linear)
    with False have "r' \<noteq> []" by auto
    with m Cons.prems(2) have "ExtractFrame b = Some (Inl (ErrIncomplete, 0))"
      by (intro extract_proper_prefix) auto
    with Cons.prems(1) [of "[]" "m # ms" b] Cons.prems(3) show ?thesis
      by (simp add: drain_incomplete)
  qed
qed

lemma readLoop_stream:
  assumes "\<forall>m\<in>set ms. wf_message m" "b @ concat chunks = stream_of ms"
    and "ExtractFrame b = Some (Inl (ErrIncomplete, 0))"
  shows "readLoop h chunks b s = map_option (Pair []) (run_frames h (map msg_frame ms) s)"
  using assms
proof (induction chunks arbitrary: b s ms)
  case Nil
  have "ms = []"
  proof (cases ms)
    case (Cons m ms')
    then have "ExtractFrame b = Some (Inr (msg_frame m, length (encode m)))"
      using Nil extract_encode [of m "stream_of ms'"] by simp
    with Nil.prems(3) show ?thesis by simp
  qed simp
  with Nil show ?case by simp
next
  case (Cons c cs)
  have "(b @ c) @ concat cs = stream_of ms" using Cons.prems(2) by simp
  then obtain ms1 ms2 t where d: "ms = ms1 @ ms2" "t @ concat cs = stream_of ms2"
      "ExtractFrame t = Some (Inl (ErrIncomplete, 0))"
      "\<And>h s. drainFrames h (b @ c) s = map_option (Pair t) (run_frames h (map msg_frame ms1) (s :: 'a))"
    using drain_prefix_of_stream [OF Cons.prems(1)] by blast
  show ?case
    using d Cons.IH [of ms2 t] Cons.prems(1)
    by (auto simp: run_frames_append split: bind_splits)
qed

text \<open>What is left after a drain is an incomplete suffix of the buffer.\<close>

lemma drain_leftover:
  "drainFrames h buf s = Some (buf', s') \<Longrightarrow>
   (\<exists>k. buf' = drop k buf) \<and> ExtractFrame buf' = Some (Inl (ErrIncomplete, 0))"
proof (induction buf s rule: drain_induct)
  case (incomplete buf s)
  then have "buf' = drop 0 buf" by (simp add: drain_incomplete)
  moreover from incomplete have "ExtractFrame buf' = Some (Inl (ErrIncomplete, 0))"
    by (simp add: drain_incomplete)
  ultimately show ?case by blast
next
  case (resync buf s e n)
  then have "drainFrames h (drop n buf) s = Some (buf', s')" by (simp add: drain_resync)
  with resync.IH obtain k where "buf' = drop k (drop n buf)" "ExtractFrame buf' = Some (Inl (ErrIncomplete, 0))"
    by blast
  then show ?case by (metis drop_drop)
next
  case (frame buf s f n)
  then obtain s1 where "drainFrames h (drop n buf) s1 = Some (buf', s')"
    by (auto simp: drain_frame bind_eq_Some_conv)
  with frame.IH obtain k where "buf' = drop k (drop n buf)" "ExtractFrame buf' = Some (Inl (ErrIncomplete, 0))"
    by blast
  then show ?case by (metis drop_drop)
qed

text \<open>The case of an empty buffer.\<close>

lemma segmented:
  assumes "\<forall>m\<in>set ms. wf_message m" "concat chunks = concat (map encode ms)"
  shows "readLoop h chunks [] s = map_option (Pair []) (run_frames h (map msg_frame ms) s)"
  using readLoop_stream [OF assms(1), where b = "[]" and chunks = chunks] assms(2) by (simp add: extract_short)

section \<open>Properties\<close>

text \<open>C4. TCP segmentation does not matter: a stream of well-formed messages, cut into reads in
  any way, has the handler see exactly these messages in order, and leaves an empty buffer.\<close>

theorem segmentation_independent:
  assumes "\<forall>m\<in>set ms. wf_message m" "concat chunks = concat (map encode ms)"
  shows "readLoop h chunks [] s = map_option (Pair []) (run_frames h (map msg_frame ms) s)"
  using assms by (rule segmented)

theorem segmentation_independent_witness:
  "readLoop (\<lambda>f s. Some (s @ [Proto f])) [[0x78], [0x78, 0x01, 0x30, 0x0D], [], [0x0A, 0x78, 0x78, 0x02, 0x13, 1, 2, 3],
     [4, 0x0D, 0x0A]] [] [] = Some ([], [0x30, 0x13])"
proof -
  have "\<forall>m\<in>set [Short 0x01 0x30 [], Short 0x02 0x13 [1, 2, 3, 4]]. wf_message m"
    by code_simp
  from segmentation_independent [OF this, of "[[0x78], [0x78, 0x01, 0x30, 0x0D], [], [0x0A, 0x78, 0x78, 0x02, 0x13, 1, 2, 3],
     [4, 0x0D, 0x0A]]" "\<lambda>f s. Some (s @ [Proto f])" "[]"]
  show ?thesis by (simp add: encode_def msg_frame_def)
qed

text \<open>C17. The drain loop ends on every buffer, panics only if the handler does, and stops only
  when the rest of the buffer, a suffix of it, is an incomplete frame.\<close>

theorem drain_terminates_incomplete:
  assumes "\<And>f s. h f s \<noteq> None"
  shows "\<exists>k s'. drainFrames h buf s = Some (drop k buf, s') \<and>
    ExtractFrame (drop k buf) = Some (Inl (ErrIncomplete, 0))"
proof -
  obtain buf' s' where d: "drainFrames h buf s = Some (buf', s')"
    using drain_total [of h buf s] assms by (cases "drainFrames h buf s") auto
  with drain_leftover [OF d] show ?thesis by auto
qed

theorem drain_terminates_incomplete_witness:
  "\<exists>k s'. drainFrames (\<lambda>f s. Some (s + 1)) [0xAA, 0x78, 0x78, 0x01, 0x30, 0x0D, 0x0A, 0x78] (0 :: nat) =
     Some (drop k [0xAA, 0x78, 0x78, 0x01, 0x30, 0x0D, 0x0A, 0x78], s') \<and>
     ExtractFrame (drop k [0xAA, 0x78, 0x78, 0x01, 0x30, 0x0D, 0x0A, 0x78]) = Some (Inl (ErrIncomplete, 0))"
  by (rule drain_terminates_incomplete) simp

text \<open>Resynchronisation loses a message whose header is split across two reads behind
  garbage: the same bytes give one frame in a single read, and none in two.\<close>

theorem split_header_after_garbage_is_lost:
  "let garbage = [0, 0, 0, 0]; sync = [0x78, 0x78, 0x01, 0x30, 0x0D, 0x0A]; count = (\<lambda>f s. Some (s + 1)) in
   readLoop count [garbage @ sync] [] (0 :: nat) = Some ([], 1) \<and>
   readLoop count [garbage @ take 1 sync, drop 1 sync] [] (0 :: nat) = Some ([], 0)"
  by code_simp

end
