(* ===== verification/Crc.thy ===== *)
theory Crc
  imports Prelude
begin

text \<open>
  The checksum of \<open>internal/protocol/crc.go\<close>: CRC-16/X-25, computed bit by bit on a
  right-shifting register. The reference it is compared with is the textbook shift register
  of the polynomial \<open>x^16 + x^12 + x^5 + 1\<close> (0x1021), which shifts left and is fed the
  bits of each byte from the least significant one.
\<close>

section \<open>The code\<close>

definition crc_bit :: "u16 \<Rightarrow> u16" where
  "crc_bit crc = (if crc AND 1 \<noteq> 0 then drop_bit 1 crc XOR 0x8408 else drop_bit 1 crc)"

primrec crc_bits :: "nat \<Rightarrow> u16 \<Rightarrow> u16" where
  "crc_bits 0 crc = crc"
| "crc_bits (Suc n) crc = crc_bits n (crc_bit crc)"

definition crc_byte :: "u16 \<Rightarrow> byte \<Rightarrow> u16" where
  "crc_byte crc b = crc_bits 8 (crc XOR ucast b)"

definition CRC16X25 :: "byte list \<Rightarrow> u16" where
  "CRC16X25 data = NOT (foldl crc_byte 0xFFFF data)"

section \<open>The register steps are linear and invertible\<close>

lemma and_one_bit: "(crc :: u16) AND 1 \<noteq> 0 \<longleftrightarrow> bit crc 0"
  by (simp add: and_one_eq bit_0 odd_iff_mod_2_eq_one)

lemma crc_bit_alt: "crc_bit crc = drop_bit 1 crc XOR (if bit crc 0 then 0x8408 else 0)"
  by (simp add: crc_bit_def and_one_bit del: bit_0)

lemma crc_bit_xor: "crc_bit (a XOR b) = crc_bit a XOR crc_bit b"
  by (simp add: crc_bit_alt bit_xor_iff ac_simps del: bit_0)

lemma crc_bits_xor: "crc_bits n (a XOR b) = crc_bits n a XOR crc_bits n b"
  by (induction n arbitrary: a b) (simp_all add: crc_bit_xor)

lemma crc_bits_add: "crc_bits (m + n) c = crc_bits n (crc_bits m c)"
  by (induction m arbitrary: c) simp_all

lemma bit_15_crc_bit: "bit (crc_bit c) 15 = bit c 0"
  by (auto simp: crc_bit_alt bit_simps dest: bit_imp_le_length simp del: bit_0)

lemma crc_bit_zero: "crc_bit c = 0 \<Longrightarrow> c = 0"
proof -
  assume z: "crc_bit c = 0"
  then have "\<not> bit c 0" using bit_15_crc_bit [of c] by simp
  with z have d: "drop_bit 1 c = 0" by (simp add: crc_bit_alt)
  show "c = 0"
  proof (rule bit_eqI)
    fix n
    show "bit c n = bit 0 n"
      using d \<open>\<not> bit c 0\<close> by (cases n) (auto simp: bit_drop_bit_eq dest: arg_cong [of _ _ "\<lambda>w. bit w (n - 1)"] simp del: bit_0)
  qed
qed

lemma crc_bits_zero: "crc_bits n c = 0 \<Longrightarrow> c = 0"
  by (induction n arbitrary: c) (auto dest: crc_bit_zero)

lemma xor_eq_0: "(a :: u16) XOR b = 0 \<longleftrightarrow> a = b"
  by (metis xor.right_neutral xor_self_eq xor.assoc)

lemma crc_bits_inj: "crc_bits n a = crc_bits n b \<longleftrightarrow> a = b"
  using crc_bits_zero [of n "a XOR b"] by (auto simp: crc_bits_xor xor_eq_0)

section \<open>Byte errors\<close>

lemma xor_left_cancel: "(c :: u16) XOR a = c XOR b \<longleftrightarrow> a = b"
  by (metis xor.assoc xor_self_eq xor.left_neutral)

lemma xor_right_cancel: "(a :: u16) XOR c = b XOR c \<longleftrightarrow> a = b"
  by (metis xor_left_cancel xor.commute)

lemma crc_byte_inj_reg: "crc_byte c b = crc_byte d b \<longleftrightarrow> c = d"
  by (simp add: crc_byte_def crc_bits_inj xor_right_cancel)

lemma foldl_crc_inj: "foldl crc_byte c xs = foldl crc_byte d xs \<longleftrightarrow> c = d"
  by (induction xs arbitrary: c d) (simp_all add: crc_byte_inj_reg)

lemma not_inj: "NOT (a :: u16) = NOT b \<longleftrightarrow> a = b"
  by (metis bit.double_compl)

text \<open>
  Eight steps move a byte from the high half of the register to the low half, so two bytes
  in a row act on the register as one 16-bit word.
\<close>

lemma crc_bit_push:
  "n < 8 \<Longrightarrow> crc_bit (push_bit (Suc n) (ucast (b :: byte))) = push_bit n (ucast b)"
proof -
  assume n: "n < 8"
  have "\<not> bit (push_bit (Suc n) (ucast b) :: u16) 0" by (simp add: bit_simps del: bit_0 push_bit_Suc)
  moreover have "drop_bit 1 (push_bit (Suc n) (ucast b) :: u16) = push_bit n (ucast b)"
    using n by (intro bit_eqI) (auto simp: bit_simps dest: bit_imp_le_length simp del: push_bit_Suc)
  ultimately show ?thesis by (simp add: crc_bit_alt del: bit_0 push_bit_Suc)
qed

lemma crc_bits_push: "n \<le> 8 \<Longrightarrow> crc_bits n (push_bit n (ucast (b :: byte))) = ucast b"
  by (induction n) (simp_all add: crc_bit_push del: push_bit_Suc)

lemma crc_two_bytes:
  "crc_byte (crc_byte c a) b = crc_bits 16 (c XOR (ucast a XOR push_bit 8 (ucast b)))"
proof -
  have "crc_bits 16 x = crc_bits 8 (crc_bits 8 x)" for x
    using crc_bits_add [of 8 8 x] by simp
  then show ?thesis
    by (simp add: crc_byte_def crc_bits_xor crc_bits_push ac_simps)
qed

lemma two_bytes_inj:
  "ucast (a :: byte) XOR push_bit 8 (ucast (b :: byte)) = (ucast a' XOR push_bit 8 (ucast b') :: u16)
   \<longleftrightarrow> a = a' \<and> b = b'"
proof
  assume e: "ucast a XOR push_bit 8 (ucast b) = (ucast a' XOR push_bit 8 (ucast b') :: u16)"
  have "bit a n = bit a' n" "bit b n = bit b' n" if "n < 8" for n
    using that arg_cong [OF e, of "\<lambda>w. bit w n"] arg_cong [OF e, of "\<lambda>w. bit w (n + 8)"]
    by (auto simp: bit_simps dest: bit_imp_le_length)
  then show "a = a' \<and> b = b'" by (auto intro!: bit_word_eqI)
qed simp

lemma crc_two_bytes_inj:
  "crc_byte (crc_byte c a) b = crc_byte (crc_byte c a') b' \<longleftrightarrow> a = a' \<and> b = b'"
  by (simp add: crc_two_bytes crc_bits_inj xor_left_cancel two_bytes_inj)

section \<open>The textbook register\<close>

definition msb_step :: "u16 \<Rightarrow> bool \<Rightarrow> u16" where
  "msb_step reg i = push_bit 1 reg XOR (if bit reg 15 \<noteq> i then 0x1021 else 0)"

definition reference_byte :: "u16 \<Rightarrow> byte \<Rightarrow> u16" where
  "reference_byte reg b = foldl msb_step reg (map (bit b) [0..<8])"

definition reference_crc :: "byte list \<Rightarrow> u16" where
  "reference_crc data = NOT (word_reverse (foldl reference_byte 0xFFFF data))"

lemma word_reverse_xor: "word_reverse (a XOR b :: u16) = word_reverse a XOR word_reverse b"
  by (rule bit_word_eqI) (auto simp: bit_simps)

lemma word_reverse_poly: "word_reverse (0x8408 :: u16) = 0x1021"
  by code_simp

lemma word_reverse_ones: "word_reverse (0xFFFF :: u16) = 0xFFFF"
  by code_simp

lemma word_reverse_drop: "word_reverse (drop_bit 1 c :: u16) = push_bit 1 (word_reverse c)"
proof (rule bit_word_eqI)
  fix n
  have shift: "m < 15 \<Longrightarrow> Suc (14 - m) = 15 - m" for m :: nat by arith
  assume "n < LENGTH(16)"
  then show "bit (word_reverse (drop_bit 1 c)) n = bit (push_bit 1 (word_reverse c)) n"
    by (cases n) (auto simp: bit_simps shift dest: bit_imp_le_length simp del: push_bit_Suc)
qed

lemma word_reverse_zero: "word_reverse (0 :: u16) = 0"
  by code_simp

lemma msb_step_reverse:
  "word_reverse (crc_bit (c XOR of_bool i)) = msb_step (word_reverse c) i"
proof -
  have "drop_bit 1 (of_bool i :: u16) = 0" by (cases i) simp_all
  moreover have "bit (c XOR of_bool i) 0 \<longleftrightarrow> bit c 0 \<noteq> i" by (cases i) (auto simp: bit_simps)
  moreover have "bit (word_reverse c) 15 = bit c 0" by (simp add: bit_simps del: bit_0)
  ultimately show ?thesis
    by (simp add: crc_bit_alt msb_step_def word_reverse_xor word_reverse_poly
        word_reverse_drop [unfolded One_nat_def] word_reverse_zero del: bit_0 push_bit_Suc)
qed

lemma crc_bit_split: "crc_bit (c XOR w) = crc_bit (c XOR of_bool (bit w 0)) XOR drop_bit 1 w"
proof -
  have "bit (c XOR of_bool (bit w 0)) 0 \<longleftrightarrow> bit (c XOR w) 0"
    by (cases "bit w 0") (auto simp: bit_simps simp del: bit_0)
  moreover have "drop_bit 1 (c XOR of_bool (bit w 0)) = drop_bit 1 c"
    by (cases "bit w 0") simp_all
  ultimately show ?thesis
    by (simp add: crc_bit_alt ac_simps del: bit_0)
qed

lemma crc_bits_serial:
  "(\<And>k. n \<le> k \<Longrightarrow> \<not> bit w k) \<Longrightarrow>
   crc_bits n (c XOR w) = foldl (\<lambda>c i. crc_bit (c XOR of_bool i)) c (map (bit w) [0..<n])"
proof (induction n arbitrary: c w)
  case 0
  then have "w = 0" by (intro bit_word_eqI) auto
  then show ?case by simp
next
  case (Suc n)
  have "map (bit w) [0..<Suc n] = bit w 0 # map (bit (drop_bit 1 w)) [0..<n]"
    by (simp add: upt_conv_Cons map_Suc_upt [symmetric] bit_drop_bit_eq comp_def del: upt_Suc bit_0)
  moreover have "\<not> bit (drop_bit 1 w) k" if "n \<le> k" for k
    using Suc.prems [of "Suc k"] that by (simp add: bit_drop_bit_eq)
  ultimately show ?case
    using Suc.IH [of "drop_bit 1 w"] by (simp add: crc_bit_split [of c w] del: bit_0 upt_Suc)
qed

lemma reference_byte_eq: "word_reverse (crc_byte c b) = reference_byte (word_reverse c) b"
proof -
  have fold: "word_reverse (foldl (\<lambda>c i. crc_bit (c XOR of_bool i)) c is) = foldl msb_step (word_reverse c) is"
    for c "is"
    by (induction "is" arbitrary: c) (simp_all add: msb_step_reverse)
  have "crc_byte c b = foldl (\<lambda>c i. crc_bit (c XOR of_bool i)) c (map (bit (ucast b :: u16)) [0..<8])"
    unfolding crc_byte_def by (rule crc_bits_serial) (auto simp: bit_simps dest: bit_imp_le_length)
  moreover have "map (bit (ucast b :: u16)) [0..<8] = map (bit b) [0..<8]"
    by (auto simp: bit_simps)
  ultimately show ?thesis
    by (simp add: fold reference_byte_def)
qed

lemma reference_crc_eq: "CRC16X25 data = reference_crc data"
proof -
  have fold: "word_reverse (foldl crc_byte c data) = foldl reference_byte (word_reverse c) data" for c
    by (induction data arbitrary: c) (simp_all add: reference_byte_eq)
  have "word_reverse (foldl crc_byte 0xFFFF data) = foldl reference_byte 0xFFFF data"
    by (simp only: fold word_reverse_ones)
  then have "foldl crc_byte 0xFFFF data = word_reverse (foldl reference_byte 0xFFFF data)"
    by (metis word_rev_rev)
  then show ?thesis
    by (simp only: CRC16X25_def reference_crc_def)
qed

section \<open>Properties\<close>

text \<open>C33. The bit-reflected loop of \<open>CRC16X25\<close> computes, on every input, the textbook
  CRC-16/X-25: the left-shifting register of polynomial 0x1021, fed least significant bit
  first, started at 0xFFFF, reflected and inverted.\<close>

theorem crc_is_textbook_crc: "CRC16X25 data = reference_crc data"
  by (rule reference_crc_eq)

text \<open>The checksum detects every error that is confined to two adjacent bytes: two
  messages that differ in such a pair only have different checksums.\<close>

theorem crc_detects_two_byte_burst:
  "CRC16X25 (xs @ [a, b] @ ys) = CRC16X25 (xs @ [a', b'] @ ys) \<longleftrightarrow> a = a' \<and> b = b'"
  by (simp add: CRC16X25_def not_inj foldl_crc_inj crc_two_bytes_inj)

end
