(* ===== verification/Commands.thy ===== *)
theory Commands
  imports Frame Crc GoTime
begin

text \<open>
  The packets the gateway sends: the acknowledgements of \<open>internal/protocol/frame.go\<close> and
  the replies and commands of \<open>internal/protocol/commands.go\<close>.
\<close>

section \<open>Acknowledgements\<close>

definition BuildACK :: "byte \<Rightarrow> u16 \<Rightarrow> byte list" where
  "BuildACK proto serial =
     (let scope = [0x05, proto] @ be_put16 serial in
      be_put16 HeaderShort @ scope @ be_put16 (CRC16X25 scope) @ be_put16 Trailer)"

definition BuildLoginACK :: "byte list" where
  "BuildLoginACK = [0x78, 0x78, 0x01, 0x01, 0x0D, 0x0A]"

definition BuildSimpleACK :: "byte \<Rightarrow> byte list" where
  "BuildSimpleACK proto = [0x78, 0x78, 0x01, proto, 0x0D, 0x0A]"

definition BuildDatetimeACK :: "byte \<Rightarrow> byte list \<Rightarrow> byte list go" where
  "BuildDatetimeACK proto datetime =
     (let datetime = (if length datetime < 6 then [0, 0, 0, 0, 0, 0] else datetime) in
      do {
        dt \<leftarrow> slice datetime 0 6;
        Some ([0x78, 0x78, 0x00, proto] @ dt @ [0x0D, 0x0A])
      })"

definition BuildStatusEcho :: "byte list \<Rightarrow> byte list" where
  "BuildStatusEcho raw = (if length raw \<ge> 5 then raw else BuildSimpleACK MsgStatus)"

definition DatetimeFromBody :: "byte list \<Rightarrow> byte list go" where
  "DatetimeFromBody body =
     (if length body \<ge> 6 then slice body 0 6 else Some [0, 0, 0, 0, 0, 0])"

section \<open>Replies and commands\<close>

text \<open>\<open>uint16(x)\<close> and \<open>byte(x)\<close> of a Go \<open>int\<close> keep the low bits: \<open>of_int\<close> on words.\<close>

definition BuildTimeSyncReply :: "instant \<Rightarrow> byte list" where
  "BuildTimeSyncReply t =
     [0x78, 0x78, 0x07, MsgTimeSync] @ be_put16 (of_int (time_Year t)) @
     [of_int (time_Month t), of_int (time_Day t), of_int (time_Hour t),
      of_int (time_Minute t), of_int (time_Second t), 0x0D, 0x0A]"

definition BuildDefaultSettings :: "byte list" where
  "BuildDefaultSettings =
     [0x78, 0x78, 0x1F, 0x57, 0x00, 0x10, 0x01,
      0x7F, 0x18, 0x26, 0x00, 0x00, 0x00, 0x00, 0x00, 0x00,
      0x00, 0x00, 0x00, 0x00, 0x00, 0x00, 0x00, 0x00, 0x00, 0x00,
      0x00, 0x00, 0x00, 0x00, 0x00,
      0x3B, 0x3B, 0x3B, 0x0D, 0x0A]"

definition BuildRestart :: "byte list" where
  "BuildRestart = [0x78, 0x78, 0x02, MsgRestart, 0x01, 0x0D, 0x0A]"

definition BuildShutdown :: "byte list" where
  "BuildShutdown = [0x78, 0x78, 0x02, MsgRestart, 0x02, 0x0D, 0x0A]"

definition BuildUploadInterval :: "u16 \<Rightarrow> byte list" where
  "BuildUploadInterval seconds =
     (let seconds = (if seconds < 10 then 10 else seconds);
          seconds = (if seconds > 7200 then 7200 else seconds) in
      [0x78, 0x78, 0x03, MsgUploadInt] @ be_put16 seconds @ [0x0D, 0x0A])"

definition BuildStatusInterval :: "int \<Rightarrow> byte list" where
  "BuildStatusInterval minutes =
     (let minutes = (if minutes = 0 then 1 else minutes) in
      [0x78, 0x78, 0x02, MsgStatus, of_int minutes, 0x0D, 0x0A])"

definition BuildLocate :: "byte list" where
  "BuildLocate = [0x78, 0x78, 0x01, 0x80, 0x0D, 0x0A]"

section \<open>Facts about the packets\<close>

lemma DatetimeFromBody_eq [no_panic]:
  "DatetimeFromBody body = Some (if length body \<ge> 6 then take 6 body else replicate 6 0)"
  by (simp add: DatetimeFromBody_def slice_def numeral_eq_Suc)

lemma BuildDatetimeACK_eq [no_panic]:
  "BuildDatetimeACK p dt = Some ([0x78, 0x78, 0x00, p] @
     (if length dt < 6 then replicate 6 0 else take 6 dt) @ [0x0D, 0x0A])"
  by (simp add: BuildDatetimeACK_def slice_def Let_def numeral_eq_Suc)

definition framed :: "byte list \<Rightarrow> bool" where
  "framed p \<longleftrightarrow> 6 \<le> length p \<and> take 2 p = [0x78, 0x78] \<and> drop (length p - 2) p = [0x0D, 0x0A]"

lemma of_int_byte: "0 \<le> i \<Longrightarrow> i < 256 \<Longrightarrow> uint (of_int i :: byte) = i"
  by (simp add: uint_word_of_int_eq take_bit_int_eq_self)

lemma of_int_u16: "0 \<le> i \<Longrightarrow> i < 65536 \<Longrightarrow> uint (of_int i :: u16) = i"
  by (simp add: uint_word_of_int_eq take_bit_int_eq_self)

text \<open>A device's reading of a time-sync reply: the date and time in the bytes after the prefix.\<close>

definition read_time_sync :: "byte list \<Rightarrow> instant go" where
  "read_time_sync reply = do {
     yb \<leftarrow> slice reply 4 6;
     y \<leftarrow> be_uint16 yb;
     mo \<leftarrow> index reply 6;
     d \<leftarrow> index reply 7;
     h \<leftarrow> index reply 8;
     mi \<leftarrow> index reply 9;
     s \<leftarrow> index reply 10;
     Some (time_Date (uint y) (uint mo) (uint d) (uint h) (uint mi) (uint s)) }"

lemma days_in_month_le: "m < 12 \<Longrightarrow> days_in_month leap m \<le> 31"
  using less_12_cases [of m] by (auto simp: days_in_month_def days_before_month_def)

section \<open>Properties\<close>

text \<open>C34. Whatever the instant (in a year that fits 16 bits), the time-sync reply is a framed
  packet from which the device reads back that instant, to the second.\<close>

theorem time_sync_reply_roundtrip:
  assumes "0 \<le> time_Year t" "time_Year t < 65536"
  shows "framed (BuildTimeSyncReply t) \<and>
    read_time_sync (BuildTimeSyncReply t) = Some (t div nanos_per_second * nanos_per_second)"
proof -
  note v = fields_valid [of t, unfolded valid_date_def]
  have "time_Day t \<le> 31"
  proof -
    have "nat (time_Month t - 1) < 12" using v by linarith
    then have "days_in_month (is_leap (time_Year t)) (nat (time_Month t - 1)) \<le> 31"
      by (rule days_in_month_le)
    with v show ?thesis by linarith
  qed
  with v assms have b: "uint (of_int (time_Year t) :: u16) = time_Year t"
    "uint (of_int (time_Month t) :: byte) = time_Month t" "uint (of_int (time_Day t) :: byte) = time_Day t"
    "uint (of_int (time_Hour t) :: byte) = time_Hour t" "uint (of_int (time_Minute t) :: byte) = time_Minute t"
    "uint (of_int (time_Second t) :: byte) = time_Second t"
    by (auto intro!: of_int_byte of_int_u16)
  have "framed (BuildTimeSyncReply t)"
    by (simp add: framed_def BuildTimeSyncReply_def be_put16_def)
  moreover have "slice (BuildTimeSyncReply t) 4 6 = Some (be_put16 (of_int (time_Year t)))"
    "index (BuildTimeSyncReply t) 6 = Some (of_int (time_Month t))"
    "index (BuildTimeSyncReply t) 7 = Some (of_int (time_Day t))"
    "index (BuildTimeSyncReply t) 8 = Some (of_int (time_Hour t))"
    "index (BuildTimeSyncReply t) 9 = Some (of_int (time_Minute t))"
    "index (BuildTimeSyncReply t) 10 = Some (of_int (time_Second t))"
    by (simp_all add: BuildTimeSyncReply_def slice_def index_def be_put16_def)
  then have "read_time_sync (BuildTimeSyncReply t) = Some (time_Date (time_Year t) (time_Month t)
      (time_Day t) (time_Hour t) (time_Minute t) (time_Second t))"
    by (simp only: read_time_sync_def Option.bind.bind_lunit byte_order b)
  ultimately show ?thesis
    by (simp only: date_of_fields)
qed

text \<open>The hypotheses hold at 2026-08-15T21:18:29Z, the instant of the unit test.\<close>

theorem time_sync_reply_roundtrip_witness:
  "read_time_sync (BuildTimeSyncReply (time_Date 2026 8 15 21 18 29)) = Some (time_Date 2026 8 15 21 18 29)"
proof -
  let ?t = "time_Date 2026 8 15 21 18 29"
  have y: "time_Year ?t = 2026" by code_simp
  have "?t div nanos_per_second * nanos_per_second = ?t" by (simp add: time_Date_def Let_def)
  with time_sync_reply_roundtrip [of ?t] y show ?thesis by simp
qed

text \<open>\<open>BuildUploadInterval\<close> clamps its argument to 10..7200 seconds and sends the clamped
  value big-endian in a framed 0x97 packet.\<close>

theorem upload_interval_clamped:
  "framed (BuildUploadInterval s) \<and> BuildUploadInterval s ! 3 = MsgUploadInt \<and>
   be_uint16 (take 2 (drop 4 (BuildUploadInterval s))) = Some (of_nat (max 10 (min 7200 (unat s))))"
proof -
  let ?c = "if (if s < 10 then 10 else s) > 7200 then 7200 else if s < 10 then 10 else s"
  have "?c = of_nat (max 10 (min 7200 (unat s)))"
    by (auto simp: word_less_nat_alt max_def min_def)
  then show ?thesis
    using be16_roundtrip [of ?c]
    by (simp add: BuildUploadInterval_def Let_def framed_def be_put16_def)
qed

text \<open>The datetime acknowledgement never panics and echoes the first six bytes of the
  body it answers (zeros for a shorter body), under the protocol number of the packet.\<close>

theorem datetime_ack_echoes:
  "DatetimeFromBody body \<bind> BuildDatetimeACK p =
     Some ([0x78, 0x78, 0x00, p] @ (if 6 \<le> length body then take 6 body else replicate 6 0) @ [0x0D, 0x0A])"
  by (simp add: DatetimeFromBody_eq BuildDatetimeACK_eq)

text \<open>The classic acknowledgement carries the checksum of its own length-to-serial part,
  and is the packet of the protocol document for protocol 1, serial 1.\<close>

theorem build_ack_checksum:
  "be_uint16 (take 2 (drop 6 (BuildACK p serial))) = Some (reference_crc (take 4 (drop 2 (BuildACK p serial)))) \<and>
   BuildACK 0x01 0x0001 = [0x78, 0x78, 0x05, 0x01, 0x00, 0x01, 0xD9, 0xDC, 0x0D, 0x0A]"
proof -
  let ?scope = "[0x05, p] @ be_put16 serial"
  have "take 4 (drop 2 (BuildACK p serial)) = ?scope"
    "take 2 (drop 6 (BuildACK p serial)) = be_put16 (CRC16X25 ?scope)"
    by (simp_all add: BuildACK_def Let_def be_put16_def)
  then have "be_uint16 (take 2 (drop 6 (BuildACK p serial))) = Some (reference_crc (take 4 (drop 2 (BuildACK p serial))))"
    by (simp add: byte_order reference_crc_eq)
  moreover have "BuildACK 0x01 0x0001 = [0x78, 0x78, 0x05, 0x01, 0x00, 0x01, 0xD9, 0xDC, 0x0D, 0x0A]"
    by code_simp
  ultimately show ?thesis by blast
qed

end
