(* ===== verification/Login.thy ===== *)
theory Login
  imports GoFmt
begin

text \<open>
  Login packets: \<open>ParseLogin\<close> of \<open>internal/protocol/login.go\<close>, which reads the IMEI of
  the tracker from eight BCD bytes.
\<close>

datatype login_error = LoginTooShort nat "byte list" | UnexpectedIMEI string "byte list"

definition bcd_digits :: "byte \<Rightarrow> byte list" where
  "bcd_digits b =
     (let high = drop_bit 4 b AND 0x0F;
          low = b AND 0x0F;
          high = (if high > 9 then 0 else high);
          low = (if low > 9 then 0 else low) in
      [0x30 + high, 0x30 + low])"

text \<open>The string once the digits are collected: the three checks at the end of \<open>ParseLogin\<close>.\<close>

definition trim_imei :: "string \<Rightarrow> byte list \<Rightarrow> (login_error + string) go" where
  "trim_imei s bcd = do {
     s \<leftarrow> (if length s = 16 then do {
             c \<leftarrow> index s 0;
             if c = CHR ''0'' then slice s 1 (length s) else Some s }
           else Some s);
     s \<leftarrow> (if length s = 16 then do {
             c \<leftarrow> index s 15;
             if c = CHR ''0'' \<or> c = CHR ''F'' \<or> c = CHR ''f'' then slice s 0 15 else Some s }
           else Some s);
     if length s < 15 then Some (Inl (UnexpectedIMEI s bcd))
     else do { r \<leftarrow> slice s 0 15; Some (Inr r) }
   }"

definition ParseLogin :: "byte list \<Rightarrow> (login_error + string) go" where
  "ParseLogin body =
     (if length body < 8 then Some (Inl (LoginTooShort (length body) body))
      else do {
        bcd \<leftarrow> slice body 0 8;
        let raw = concat (map bcd_digits bcd);
        trim_imei (string_of_bytes raw) bcd
      })"

section \<open>Digits\<close>

definition is_digit :: "char \<Rightarrow> bool" where
  "is_digit c \<longleftrightarrow> 48 \<le> (of_char c :: nat) \<and> (of_char c :: nat) \<le> 57"

definition nibble_digit :: "nat \<Rightarrow> char" where
  "nibble_digit n = digit_char (if n > 9 then 0 else n)"

definition bcd_string :: "byte list \<Rightarrow> string" where
  "bcd_string bs = concat (map (\<lambda>b. [nibble_digit (unat b div 16), nibble_digit (unat b mod 16)]) bs)"

lemma unat_low: "unat (b AND 0x0F :: byte) = unat b mod 16"
proof -
  have "unat (b AND mask 4 :: byte) = take_bit 4 (unat b)"
    by (simp add: take_bit_eq_mask [symmetric] unsigned_take_bit_eq)
  then show ?thesis
    by (simp add: mask_eq_exp_minus_1 take_bit_eq_mod)
qed

lemma unat_high: "unat (drop_bit 4 b AND 0x0F :: byte) = unat b div 16"
proof -
  have "unat (drop_bit 4 b :: byte) = drop_bit 4 (unat b)"
    using unat_byte_less [of b] by (simp add: unsigned_drop_bit_eq take_bit_nat_eq_self)
  also have "\<dots> = unat b div 16"
    by (simp only: drop_bit_eq_div) simp
  finally have "unat (drop_bit 4 b AND 0x0F :: byte) = unat b div 16 mod 16"
    by (simp only: unat_low)
  also have "\<dots> = unat b div 16"
    using unat_byte_less [of b] by simp
  finally show ?thesis .
qed

lemma digit_byte:
  "unat x < 16 \<Longrightarrow> char_of_byte (0x30 + (if x > 9 then 0 else x)) = nibble_digit (unat x)"
  by (auto simp: char_of_byte_def nibble_digit_def digit_char_def word_less_nat_alt unat_word_ariths)

lemma bcd_digits_string: "string_of_bytes (concat (map bcd_digits bs)) = bcd_string bs"
proof -
  have "map char_of_byte (bcd_digits b) = [nibble_digit (unat b div 16), nibble_digit (unat b mod 16)]" for b
  proof -
    have "unat (drop_bit 4 b AND 0x0F) < 16" "unat (b AND 0x0F) < 16"
      by (simp_all add: unat_low)
    from digit_byte [OF this(1), unfolded unat_high] digit_byte [OF this(2), unfolded unat_low]
    show ?thesis by (simp only: bcd_digits_def Let_def list.map)
  qed
  then show ?thesis
    by (induction bs) (simp_all add: string_of_bytes_def bcd_string_def)
qed

lemma length_bcd_string [simp]: "length (bcd_string bs) = 2 * length bs"
  by (induction bs) (simp_all add: bcd_string_def)

lemma nibble_digit_is_digit: "is_digit (nibble_digit n)"
  by (simp add: is_digit_def nibble_digit_def digit_char_def)

lemma bcd_string_digits: "list_all is_digit (bcd_string bs)"
  by (induction bs) (simp_all add: bcd_string_def nibble_digit_is_digit)

lemma trim_imei_16:
  assumes "length s = 16"
  shows "trim_imei s bcd = Some (Inr (if s ! 0 = CHR ''0'' then drop 1 s else take 15 s))"
  using assms by (auto simp: trim_imei_def index_def slice_def)

text \<open>What \<open>ParseLogin\<close> computes.\<close>

lemma ParseLogin_eq [no_panic]:
  "ParseLogin body = Some
     (if length body < 8 then Inl (LoginTooShort (length body) body)
      else let s = bcd_string (take 8 body) in
        Inr (if s ! 0 = CHR ''0'' then drop 1 s else take 15 s))"
  by (simp add: ParseLogin_def slice_def bcd_digits_string trim_imei_16 Let_def)

section \<open>Properties\<close>

text \<open>C39. \<open>ParseLogin\<close> never panics; it fails exactly on bodies shorter than eight bytes,
  and otherwise returns fifteen decimal digits, whatever the bytes are.\<close>

theorem parse_login_fifteen_digits:
  "if length body < 8 then ParseLogin body = Some (Inl (LoginTooShort (length body) body))
   else \<exists>imei. ParseLogin body = Some (Inr imei) \<and> length imei = 15 \<and> list_all is_digit imei"
proof -
  have "list_all is_digit (drop 1 s) \<and> list_all is_digit (take 15 s)" if "list_all is_digit s" for s
    using that by (metis append_take_drop_id list_all_append)
  then show ?thesis
    using bcd_string_digits [of "take 8 body"] by (simp add: ParseLogin_eq Let_def)
qed

end
