(* ===== verification/Status.thy ===== *)
theory Status
  imports GoFmt
begin

text \<open>Status packets (protocol 0x13): \<open>internal/protocol/status.go\<close>.\<close>

record status =
  BatteryPercent :: int
  SoftwareVer :: int
  Timezone :: int
  UploadInterval :: int
  StatusRaw :: "byte list"

datatype status_error = StatusBodyEmpty

definition ParseStatus :: "byte list \<Rightarrow> (status_error + status) go" where
  "ParseStatus body =
     (if length body < 1 then Some (Inl StatusBodyEmpty)
      else do {
        let s = \<lparr>BatteryPercent = -1, SoftwareVer = 0, Timezone = 0, UploadInterval = 0,
                 StatusRaw = body\<rparr>;
        b0 \<leftarrow> index body 0;
        let s = (if uint b0 \<le> 100 then s\<lparr>BatteryPercent := uint b0\<rparr> else s);
        s \<leftarrow> (if length body \<ge> 2 then do { b1 \<leftarrow> index body 1; Some (s\<lparr>SoftwareVer := uint b1\<rparr>) }
              else Some s);
        s \<leftarrow> (if length body \<ge> 3 then do {
                b2 \<leftarrow> index body 2;
                let tz = uint b2;
                let tz = (if tz > 127 then tz - 256 else tz);
                Some (s\<lparr>Timezone := tz\<rparr>) }
              else Some s);
        s \<leftarrow> (if length body \<ge> 4 then do { b3 \<leftarrow> index body 3; Some (s\<lparr>UploadInterval := uint b3\<rparr>) }
              else Some s);
        Some (Inr s)
      })"

definition Status_String :: "status \<Rightarrow> string" where
  "Status_String s =
     ''battery='' @ fmt_d (BatteryPercent s) @ ''% sw=0x'' @ fmt_02X (of_int (SoftwareVer s)) @
     '' tz='' @ fmt_plus_d (Timezone s) @
     (if UploadInterval s > 0 then '' interval='' @ fmt_d (UploadInterval s) else []) @
     (if length (StatusRaw s) > 0 then '' raw='' @ hex_EncodeToString (StatusRaw s) else [])"

lemma signed_byte: "(if uint (b :: byte) > 127 then uint b - 256 else uint b) = sint b"
proof -
  have u: "0 \<le> uint b" "uint b < 256"
    using unsigned_less [of b, where ?'a = int] by simp_all
  then have "bit (uint b) 7 \<longleftrightarrow> uint b > 127"
  proof (cases "uint b < 128")
    case False
    with u have "uint b div 128 = 1" by (intro int_div_pos_eq [of _ _ _ "uint b - 128"]) auto
    with False show ?thesis by (simp add: bit_iff_odd)
  qed (use u in \<open>simp add: bit_iff_odd div_pos_pos_trivial\<close>)
  with u show ?thesis
    by (simp add: sint_uint signed_take_bit_eq_take_bit_minus take_bit_int_eq_self)
qed

lemma ParseStatus_eq [no_panic]:
  "ParseStatus body = Some (case body of [] \<Rightarrow> Inl StatusBodyEmpty
     | b # _ \<Rightarrow> Inr \<lparr>BatteryPercent = (if uint b \<le> 100 then uint b else -1),
         SoftwareVer = (if length body \<ge> 2 then uint (body ! 1) else 0),
         Timezone = (if length body \<ge> 3 then sint (body ! 2) else 0),
         UploadInterval = (if length body \<ge> 4 then uint (body ! 3) else 0),
         StatusRaw = body\<rparr>)"
  by (cases body) (auto simp: ParseStatus_def index_def signed_byte Let_def)

section \<open>Properties\<close>

text \<open>\<open>ParseStatus\<close> never panics and fails on the empty body only. The battery is the
  first byte when that is a percentage and -1 otherwise, the timezone is the third byte read
  as a signed number, and fields past the end of a short body are 0.\<close>

theorem parse_status_fields:
  "ParseStatus body = Some (if body = [] then Inl StatusBodyEmpty
     else Inr \<lparr>BatteryPercent = (if uint (body ! 0) \<le> 100 then uint (body ! 0) else -1),
         SoftwareVer = (if length body \<ge> 2 then uint (body ! 1) else 0),
         Timezone = (if length body \<ge> 3 then sint (body ! 2) else 0),
         UploadInterval = (if length body \<ge> 4 then uint (body ! 3) else 0),
         StatusRaw = body\<rparr>)"
  by (simp add: ParseStatus_eq split: list.split)

end
