(* ===== verification/Iccid.thy ===== *)
theory Iccid
  imports GoFmt
begin

text \<open>
  ICCID packets (protocol 0xB3): \<open>internal/protocol/iccid.go\<close>. \<open>unicode_IsPrint\<close> is
  \<open>unicode.IsPrint\<close> on the code points below 256, which are all the code applies it to.
\<close>

datatype iccid_error = EmptyICCIDBody | NoPrintableICCID

definition unicode_IsPrint :: "byte \<Rightarrow> bool" where
  "unicode_IsPrint b \<longleftrightarrow> 0x20 \<le> b \<and> b \<le> 0x7E \<or> 0xA1 \<le> b \<and> b \<noteq> 0xAD"

text \<open>The loop over the body, with the bytes kept so far.\<close>

fun iccid_loop :: "byte list \<Rightarrow> byte list \<Rightarrow> byte list" where
  "iccid_loop [] out = out"
| "iccid_loop (b # bs) out =
     (if b = 0 then out
      else if unicode_IsPrint b then iccid_loop bs (out @ [b]) else iccid_loop bs out)"

definition ParseICCID :: "byte list \<Rightarrow> iccid_error + string" where
  "ParseICCID body =
     (if length body = 0 then Inl EmptyICCIDBody
      else let out = iccid_loop body [] in
        if length out = 0 then Inl NoPrintableICCID else Inr (string_of_bytes out))"

lemma iccid_loop_eq:
  "iccid_loop bs out = out @ filter unicode_IsPrint (takeWhile (\<lambda>b. b \<noteq> 0) bs)"
  by (induction bs arbitrary: out) simp_all

section \<open>Properties\<close>

text \<open>\<open>ParseICCID\<close> returns the printable bytes before the first zero byte, and fails
  exactly when there are none.\<close>

theorem parse_iccid_printable_prefix:
  "ParseICCID body =
     (let kept = filter unicode_IsPrint (takeWhile (\<lambda>b. b \<noteq> 0) body) in
      if body = [] then Inl EmptyICCIDBody
      else if kept = [] then Inl NoPrintableICCID else Inr (string_of_bytes kept))"
  by (simp add: ParseICCID_def iccid_loop_eq Let_def)

text \<open>The result is not restricted to the ASCII digits its comment promises: letters,
  spaces and bytes above 0x7F that are printable Latin-1 code points stay in the ICCID, which
  then is not valid UTF-8.\<close>

theorem parse_iccid_keeps_non_ascii:
  "ParseICCID [0x38, 0x20, 0x41, 0xE9] = Inr (string_of_bytes [0x38, 0x20, 0x41, 0xE9])"
  by code_simp

end
