(* ===== verification/Float64.thy ===== *)
theory Float64
  imports Complex_Main Prelude "HOL-Library.Log_Nat"
begin

text \<open>
  The part of IEEE 754 binary64 the gateway computes with. A finite float is the rational
  number it denotes; an operation computes the exact rational result and rounds it to 53
  significant bits, to nearest, ties to even (\<open>round64\<close>).

  The values of the program are 0 or have a magnitude between \<open>2 ^ -22\<close> and \<open>2 ^ 33\<close>
  (quotients of 32-bit integers by 1800000, products of such quotients with 1800000, and
  small integers), so the exponent never leaves the normal range and overflow, subnormal
  numbers, infinities and NaN are left out.
\<close>

type_synonym f64 = rat

definition two_pow :: "int \<Rightarrow> rat" where
  "two_pow e = (if e \<ge> 0 then 2 ^ nat e else 1 / 2 ^ nat (- e))"

text \<open>The binary logarithm of a positive rational, rounded down.\<close>

definition ilog2 :: "rat \<Rightarrow> int" where
  "ilog2 x = (let (n, d) = quotient_of x; k = bitlen n - bitlen d in
     if two_pow k \<le> x then k else k - 1)"

definition round_even :: "rat \<Rightarrow> int" where
  "round_even x = (let f = \<lfloor>x\<rfloor>; r = x - of_int f in
     if r < 1 / 2 then f else if r > 1 / 2 then f + 1 else if even f then f else f + 1)"

definition round64 :: "rat \<Rightarrow> f64" where
  "round64 x = (if x = 0 then 0
     else let e = ilog2 \<bar>x\<bar> - 52 in of_int (round_even (x / two_pow e)) * two_pow e)"

definition f64_of_int :: "int \<Rightarrow> f64" where "f64_of_int i = round64 (of_int i)"
definition f64_div :: "f64 \<Rightarrow> f64 \<Rightarrow> f64" where "f64_div x y = round64 (x / y)"
definition f64_mul :: "f64 \<Rightarrow> f64 \<Rightarrow> f64" where "f64_mul x y = round64 (x * y)"
definition f64_add :: "f64 \<Rightarrow> f64 \<Rightarrow> f64" where "f64_add x y = round64 (x + y)"
definition f64_sub :: "f64 \<Rightarrow> f64 \<Rightarrow> f64" where "f64_sub x y = round64 (x - y)"

text \<open>Conversion to an integer type truncates towards zero.\<close>

definition f64_trunc :: "f64 \<Rightarrow> int" where
  "f64_trunc x = (if x < 0 then - \<lfloor>- x\<rfloor> else \<lfloor>x\<rfloor>)"

section \<open>Powers of two and the logarithm\<close>

lemma two_pow_pos [simp]: "0 < two_pow e"
  by (simp add: two_pow_def)

lemma two_pow_nonzero [simp]: "two_pow e \<noteq> 0"
  by (simp add: two_pow_def)

lemma abs_two_pow [simp]: "\<bar>two_pow e\<bar> = two_pow e"
  by (simp add: two_pow_def)

lemma two_pow_powi: "two_pow e = 2 powi e"
  by (auto simp: two_pow_def power_int_def field_simps)

lemma two_pow_add: "two_pow (a + b) = two_pow a * two_pow b"
  by (simp add: two_pow_powi power_int_add)

lemma two_pow_Suc: "two_pow (e + 1) = 2 * two_pow e"
  by (simp add: two_pow_add) (simp add: two_pow_def)

lemma two_pow_mono: "a \<le> b \<Longrightarrow> two_pow a \<le> two_pow b"
  by (simp add: two_pow_powi power_int_increasing)

lemma bitlen_bounds_rat:
  assumes "0 < n"
  shows "two_pow (bitlen n - 1) \<le> of_int n" "of_int n < two_pow (bitlen n)"
proof -
  have b: "0 < bitlen n" using assms by (simp add: bitlen_def floorlog_eq_zero_iff flip: neq0_conv)
  have "2 ^ nat (bitlen n - 1) \<le> n \<and> n < 2 ^ nat (bitlen n)"
    using assms by (rule bitlen_bounds)
  then have "(2::rat) ^ nat (bitlen n - 1) \<le> of_int n" "of_int n < (2::rat) ^ nat (bitlen n)"
    by (metis of_int_le_iff of_int_less_iff of_int_numeral of_int_power)+
  with b show "two_pow (bitlen n - 1) \<le> of_int n" "of_int n < two_pow (bitlen n)"
    by (simp_all add: two_pow_def)
qed

lemma ilog2_bounds:
  assumes "0 < x"
  shows "two_pow (ilog2 x) \<le> x" "x < two_pow (ilog2 x + 1)"
proof -
  obtain n d where q: "quotient_of x = (n, d)" by (cases "quotient_of x")
  then have x: "x = of_int n / of_int d" and d: "0 < d"
    by (auto dest: quotient_of_div quotient_of_denom_pos)
  with assms have n: "0 < n" by (simp add: zero_less_divide_iff)
  define k where "k = bitlen n - bitlen d"
  note bn = bitlen_bounds_rat [OF n] and bd = bitlen_bounds_rat [OF d]
  have "two_pow (k - 1) * of_int d \<le> two_pow (k - 1) * two_pow (bitlen d)"
    using bd(2) by simp
  also have "\<dots> = two_pow (bitlen n - 1)"
    by (simp add: k_def flip: two_pow_add)
  finally have lo: "two_pow (k - 1) \<le> x"
    using bn(1) d x by (simp add: pos_le_divide_eq)
  have "of_int n < two_pow (bitlen n)" by (rule bn)
  also have "\<dots> = two_pow (k + 1) * two_pow (bitlen d - 1)"
    by (simp add: k_def flip: two_pow_add)
  also have "\<dots> \<le> two_pow (k + 1) * of_int d"
    using bd(1) by simp
  finally have hi: "x < two_pow (k + 1)"
    using d x by (simp add: pos_divide_less_eq)
  from lo hi show "two_pow (ilog2 x) \<le> x" "x < two_pow (ilog2 x + 1)"
    by (auto simp: ilog2_def q k_def [symmetric] Let_def)
qed

lemma ilog2_mono: "0 < x \<Longrightarrow> x < two_pow k \<Longrightarrow> ilog2 x < k"
proof (rule ccontr)
  assume "0 < x" "x < two_pow k" "\<not> ilog2 x < k"
  then have "two_pow k \<le> two_pow (ilog2 x)" by (simp add: two_pow_mono)
  with ilog2_bounds(1) [OF \<open>0 < x\<close>] \<open>x < two_pow k\<close> show False by simp
qed

section \<open>Rounding\<close>

lemma round_even_error: "\<bar>of_int (round_even x) - x\<bar> \<le> 1 / 2"
proof -
  have "of_int \<lfloor>x\<rfloor> \<le> x" "x < of_int \<lfloor>x\<rfloor> + 1" by linarith+
  then show ?thesis by (auto simp: round_even_def Let_def abs_le_iff)
qed

lemma round_even_int [simp]: "round_even (of_int i) = i"
  by (simp add: round_even_def)

lemma round_even_ge: "of_int i \<le> x \<Longrightarrow> i \<le> round_even x"
proof -
  assume "of_int i \<le> x"
  then have "i \<le> \<lfloor>x\<rfloor>" by (simp add: le_floor_iff)
  then show ?thesis by (simp add: round_even_def Let_def)
qed

lemma round64_0 [simp]: "round64 0 = 0"
  by (simp add: round64_def)

lemma round64_error:
  assumes "x \<noteq> 0"
  shows "\<bar>round64 x - x\<bar> \<le> two_pow (ilog2 \<bar>x\<bar> - 53)"
proof -
  define e where "e = ilog2 \<bar>x\<bar> - 52"
  have "round64 x - x = (of_int (round_even (x / two_pow e)) - x / two_pow e) * two_pow e"
    using assms by (simp add: round64_def e_def [symmetric] Let_def left_diff_distrib two_pow_nonzero)
  then have "\<bar>round64 x - x\<bar> = \<bar>of_int (round_even (x / two_pow e)) - x / two_pow e\<bar> * two_pow e"
    using two_pow_pos [of e] by (simp add: abs_mult)
  also have "\<dots> \<le> 1 / 2 * two_pow e"
    using round_even_error by (intro mult_right_mono) (simp_all add: less_imp_le)
  also have "\<dots> = two_pow (e - 1)"
    using two_pow_Suc [of "e - 1"] by simp
  finally show ?thesis by (simp add: e_def)
qed

lemma round64_bound:
  assumes "0 < x" "x < two_pow k"
  shows "\<bar>round64 x - x\<bar> \<le> two_pow (k - 54)"
proof -
  have "ilog2 x < k" using assms by (rule ilog2_mono)
  then have "two_pow (ilog2 x - 53) \<le> two_pow (k - 54)" by (intro two_pow_mono) simp
  with round64_error [of x] assms show ?thesis by simp
qed

lemma round64_pos: "0 < x \<Longrightarrow> 0 < round64 x"
proof -
  assume x: "0 < x"
  define e where "e = ilog2 x - 52"
  have "two_pow e * 2 ^ 52 \<le> x"
    using ilog2_bounds(1) [OF x] two_pow_add [of e 52] by (simp add: e_def two_pow_def)
  then have "of_int (2 ^ 52) \<le> x / two_pow e"
    by (simp add: pos_le_divide_eq mult.commute)
  then have "2 ^ 52 \<le> round_even (x / two_pow e)" by (rule round_even_ge)
  then have "0 < round_even (x / two_pow e)" by simp
  with x show ?thesis by (simp add: round64_def e_def Let_def)
qed

lemma round64_zero_iff [simp]: "0 \<le> x \<Longrightarrow> round64 x = 0 \<longleftrightarrow> x = 0"
  using round64_pos [of x] by (cases "x = 0") auto

text \<open>Integers below \<open>2 ^ 53\<close> are floats.\<close>

lemma round64_int:
  assumes "\<bar>i\<bar> < 2 ^ 53"
  shows "round64 (of_int i) = of_int i"
proof (cases "i = 0")
  case False
  define e where "e = ilog2 \<bar>of_int i :: rat\<bar> - 52"
  have "\<bar>of_int i :: rat\<bar> < two_pow 53"
    using assms by (simp add: two_pow_def flip: of_int_abs)
  with False have "e \<le> 0" using ilog2_mono [of "\<bar>of_int i\<bar>" 53] by (simp add: e_def)
  then have "of_int i / two_pow e = of_int (i * 2 ^ nat (- e))"
    by (auto simp: two_pow_def)
  then have "round_even (of_int i / two_pow e) = i * 2 ^ nat (- e)"
    by (simp only: round_even_int)
  with False \<open>of_int i / two_pow e = of_int (i * 2 ^ nat (- e))\<close> [symmetric] show ?thesis
    by (simp add: round64_def e_def [symmetric] Let_def)
qed simp

lemma f64_of_int_exact: "\<bar>i\<bar> < 2 ^ 53 \<Longrightarrow> f64_of_int i = of_int i"
  by (simp add: f64_of_int_def round64_int)

end
