(* ===== verification/Gps.thy ===== *)
theory Gps
  imports Float64 GoTime
begin

text \<open>
  GPS packets (protocols 0x10, 0x11, 0x12 and 0x22): \<open>internal/protocol/gps.go\<close>.
\<close>

record position =
  PosTime :: instant
  Latitude :: f64
  Longitude :: f64
  SpeedKmh :: f64
  Course :: f64
  Satellites :: int
  Valid :: bool
  CourseStatus :: u16

datatype gps_error = GPSBodyTooShort nat

definition ParseGPS :: "byte list \<Rightarrow> (gps_error + position) go" where
  "ParseGPS body =
     (if length body < 18 then Some (Inl (GPSBodyTooShort (length body)))
      else do {
        b0 \<leftarrow> index body 0;
        b1 \<leftarrow> index body 1;
        b2 \<leftarrow> index body 2;
        b3 \<leftarrow> index body 3;
        b4 \<leftarrow> index body 4;
        b5 \<leftarrow> index body 5;
        let ts = time_Date (2000 + uint b0) (uint b1) (uint b2) (uint b3) (uint b4) (uint b5);
        gpsInfo \<leftarrow> index body 6;
        let sats = uint (gpsInfo AND 0x0F);
        latB \<leftarrow> slice body 7 11;
        latRaw \<leftarrow> be_uint32 latB;
        lonB \<leftarrow> slice body 11 15;
        lonRaw \<leftarrow> be_uint32 lonB;
        b15 \<leftarrow> index body 15;
        let speed = f64_of_int (uint b15);
        csB \<leftarrow> slice body 16 18;
        courseStatus \<leftarrow> be_uint16 csB;
        let lat = f64_div (f64_of_int (uint latRaw)) 1800000;
        let lon = f64_div (f64_of_int (uint lonRaw)) 1800000;
        let course = f64_of_int (uint (courseStatus AND 0x03FF));
        let valid = (courseStatus AND 0x0010 \<noteq> 0 \<or> courseStatus AND 0x0800 \<noteq> 0
                     \<or> (lat \<noteq> 0 \<and> lon \<noteq> 0));
        Some (Inr \<lparr>PosTime = ts, Latitude = lat, Longitude = lon, SpeedKmh = speed, Course = course,
                   Satellites = sats, Valid = valid, CourseStatus = courseStatus\<rparr>)
      })"

section \<open>The wire layout\<close>

text \<open>A GPS body as the firmware writes it; \<open>extra\<close> holds the optional altitude bytes.\<close>

definition gps_body :: "byte list \<Rightarrow> byte \<Rightarrow> u32 \<Rightarrow> u32 \<Rightarrow> byte \<Rightarrow> u16 \<Rightarrow> byte list \<Rightarrow> byte list" where
  "gps_body dt info latRaw lonRaw speed cs extra =
     dt @ [info] @ be_put32 latRaw @ be_put32 lonRaw @ [speed] @ be_put16 cs @ extra"

definition degrees :: "u32 \<Rightarrow> f64" where
  "degrees raw = f64_div (f64_of_int (uint raw)) 1800000"

lemma ParseGPS_body [no_panic]:
  assumes "length dt = 6"
  shows "ParseGPS (gps_body dt info latRaw lonRaw speed cs extra) = Some (Inr
    \<lparr>PosTime = time_Date (2000 + uint (dt ! 0)) (uint (dt ! 1)) (uint (dt ! 2))
       (uint (dt ! 3)) (uint (dt ! 4)) (uint (dt ! 5)),
     Latitude = degrees latRaw, Longitude = degrees lonRaw, SpeedKmh = f64_of_int (uint speed),
     Course = f64_of_int (uint (cs AND 0x03FF)), Satellites = uint (info AND 0x0F),
     Valid = (cs AND 0x0010 \<noteq> 0 \<or> cs AND 0x0800 \<noteq> 0 \<or> (degrees latRaw \<noteq> 0 \<and> degrees lonRaw \<noteq> 0)),
     CourseStatus = cs\<rparr>)"
proof -
  obtain d0 d1 d2 d3 d4 d5 where "dt = [d0, d1, d2, d3, d4, d5]"
    using assms by (auto simp: length_Suc_conv numeral_eq_Suc)
  then show ?thesis
    using be32_roundtrip [of latRaw] be32_roundtrip [of lonRaw] be16_roundtrip [of cs]
    by (simp add: ParseGPS_def gps_body_def index_def slice_def be_put32_def be_put16_def
        degrees_def Let_def nth_Cons')
qed

section \<open>Degrees\<close>

lemma uint_u32: "0 \<le> uint (raw :: u32)" "uint raw < 2 ^ 32"
  using unsigned_less [of raw, where ?'a = int] by simp_all

lemma uint_u32_zero: "uint (raw :: u32) = 0 \<longleftrightarrow> raw = 0"
  by (simp add: word_uint_eq_iff)

lemma degrees_eq: "degrees raw = round64 (of_int (uint raw) / 1800000)"
  using uint_u32 [of raw] by (simp add: degrees_def f64_div_def f64_of_int_exact)

lemma degrees_pos: "raw \<noteq> 0 \<Longrightarrow> 0 < degrees raw"
  unfolding degrees_eq using uint_u32(1) [of raw] uint_u32_zero [of raw]
  by (intro round64_pos divide_pos_pos) (simp_all del: of_int_uint add: order_le_less)

lemma degrees_zero: "degrees 0 = 0"
  by (simp add: degrees_eq)

lemma degrees_nonneg: "0 \<le> degrees raw"
  using degrees_pos [of raw] degrees_zero by (cases "raw = 0") auto

lemma degrees_error: "\<bar>degrees raw - of_int (uint raw) / 1800000\<bar> \<le> 1 / 2 ^ 42"
proof (cases "raw = 0")
  case False
  define i where "i = uint raw"
  have i: "0 < i" "i < 2 ^ 32"
    using False uint_u32 [of raw] uint_u32_zero [of raw] by (simp_all add: i_def order_le_less)
  have "(of_int i :: rat) < of_int (2 ^ 32)"
    using i(2) by (simp only: of_int_less_iff)
  then have "\<bar>round64 (of_int i / 1800000) - of_int i / 1800000\<bar> \<le> two_pow (12 - 54)"
    using i(1) by (intro round64_bound) (simp_all add: two_pow_def)
  then show ?thesis
    by (simp only: degrees_eq i_def) (simp add: two_pow_def)
qed (simp add: degrees_zero)

text \<open>The rounding is fine enough for the raw field to be recovered from the degrees.\<close>

lemma degrees_recover: "round (degrees raw * 1800000) = uint raw"
proof (rule round_unique')
  have "\<bar>degrees raw * 1800000 - of_int (uint raw)\<bar> =
      \<bar>degrees raw - of_int (uint raw) / 1800000\<bar> * 1800000"
    by (simp add: abs_if field_simps)
  also have "\<dots> \<le> 1 / 2 ^ 42 * 1800000"
    using degrees_error [of raw] by (intro mult_right_mono) simp_all
  also have "\<dots> < 1 / 2" by simp
  finally show "\<bar>degrees raw * 1800000 - of_int (uint raw)\<bar> < 1 / 2" .
qed

lemma body_is_gps_body:
  assumes "18 \<le> length body"
  shows "\<exists>dt info lat lon speed cs extra. length dt = 6 \<and>
    body = gps_body dt info lat lon speed cs extra"
proof -
  have put32: "be_put32 (ucast b3 OR push_bit 8 (ucast b2) OR push_bit 16 (ucast b1) OR push_bit 24 (ucast b0))
      = [b0, b1, b2, b3]" for b0 b1 b2 b3 :: byte
  proof -
    have far: "\<not> bit b (8 + n)" "\<not> bit b (16 + n)" "\<not> bit b (24 + n)" for b :: byte and n
      using bit_imp_le_length [of b "8 + n"] bit_imp_le_length [of b "16 + n"]
        bit_imp_le_length [of b "24 + n"] by auto
    show ?thesis unfolding be_put32_def
      by (auto intro!: bit_word_eqI simp: bit_simps far dest: bit_imp_le_length)
  qed
  have put16: "be_put16 (ucast b1 OR push_bit 8 (ucast b0)) = [b0, b1]" for b0 b1 :: byte
  proof -
    have far: "\<not> bit b (8 + n)" for b :: byte and n
      using bit_imp_le_length [of b "8 + n"] by auto
    show ?thesis unfolding be_put16_def
      by (auto intro!: bit_word_eqI simp: bit_simps far dest: bit_imp_le_length)
  qed
  obtain a0 a1 a2 a3 a4 a5 i b0 b1 b2 b3 c0 c1 c2 c3 s d0 d1 extra where
    "body = a0 # a1 # a2 # a3 # a4 # a5 # i # b0 # b1 # b2 # b3 # c0 # c1 # c2 # c3 # s # d0 # d1 # extra"
    using assms by (auto simp: Suc_le_length_iff numeral_eq_Suc)
  then have "body = gps_body [a0, a1, a2, a3, a4, a5] i
      (ucast b3 OR push_bit 8 (ucast b2) OR push_bit 16 (ucast b1) OR push_bit 24 (ucast b0))
      (ucast c3 OR push_bit 8 (ucast c2) OR push_bit 16 (ucast c1) OR push_bit 24 (ucast c0))
      s (ucast d1 OR push_bit 8 (ucast d0)) extra"
    by (simp only: gps_body_def put32 put16) simp
  then show ?thesis by (intro exI conjI) auto
qed

lemma ParseGPS_total [no_panic]: "\<exists>r. ParseGPS body = Some r"
proof (cases "18 \<le> length body")
  case True
  with body_is_gps_body [OF True] show ?thesis by (auto simp: ParseGPS_body)
next
  case False
  then show ?thesis by (simp add: ParseGPS_def)
qed

section \<open>Properties\<close>

text \<open>C23. Decoding inverts the wire layout: from a body with the date, satellite, coordinate,
  speed and course fields in their places, followed by anything, \<open>ParseGPS\<close> reads those
  fields, the coordinates as degrees.\<close>

theorem parse_gps_roundtrip:
  assumes "length dt = 6"
  shows "\<exists>p. ParseGPS (gps_body dt info latRaw lonRaw speed cs extra) = Some (Inr p) \<and>
    PosTime p = time_Date (2000 + uint (dt ! 0)) (uint (dt ! 1)) (uint (dt ! 2))
      (uint (dt ! 3)) (uint (dt ! 4)) (uint (dt ! 5)) \<and>
    Latitude p = degrees latRaw \<and> Longitude p = degrees lonRaw \<and>
    SpeedKmh p = of_int (uint speed) \<and> Course p = of_int (uint (cs AND 0x03FF)) \<and>
    Satellites p = uint (info AND 0x0F) \<and> CourseStatus p = cs"
proof -
  have "uint speed < 2 ^ 53" "uint (cs AND 0x03FF) < 2 ^ 53"
    using unsigned_less [of speed, where ?'a = int] unsigned_less [of "cs AND 0x03FF", where ?'a = int] by simp_all
  with ParseGPS_body [OF assms] show ?thesis by (simp add: f64_of_int_exact)
qed

theorem parse_gps_roundtrip_witness:
  "\<exists>p. ParseGPS (gps_body [0x1a, 0x08, 0x0e, 0x17, 0x30, 0x08] 0x97 0x03d443e7 0x05813d66 0x1f 0x1532 [0xff, 0xf5])
     = Some (Inr p) \<and> Course p = 306 \<and> Satellites p = 7"
  using parse_gps_roundtrip [where dt = "[0x1a, 0x08, 0x0e, 0x17, 0x30, 0x08]" and info = "0x97"
    and latRaw = "0x03d443e7" and lonRaw = "0x05813d66" and speed = "0x1f" and cs = "0x1532"
    and extra = "[0xff, 0xf5]"]
  by auto

text \<open>C36. \<open>ParseGPS\<close> never panics and fails exactly on bodies shorter than 18 bytes. A
  position it returns is valid when both coordinates are non-zero, and its coordinates are
  never negative: south and west cannot be told from north and east.\<close>

theorem parse_gps_total:
  "if length body < 18 then ParseGPS body = Some (Inl (GPSBodyTooShort (length body)))
   else \<exists>p. ParseGPS body = Some (Inr p) \<and> 0 \<le> Latitude p \<and> 0 \<le> Longitude p \<and>
     (Latitude p = 0 \<or> Longitude p = 0 \<or> Valid p)"
proof (cases "18 \<le> length body")
  case True
  with body_is_gps_body [OF True] show ?thesis
    by (auto simp: ParseGPS_body degrees_nonneg)
next
  case False
  then show ?thesis by (simp add: ParseGPS_def)
qed

text \<open>The float the gateway publishes is within \<open>2 ^ -42\<close> degrees of the exact quotient of
  the raw field by 1800000, and the raw field can be recovered from it: the conversion loses
  nothing.\<close>

theorem degrees_accurate:
  "\<bar>degrees raw - of_int (uint raw) / 1800000\<bar> \<le> 1 / 2 ^ 42 \<and> round (degrees raw * 1800000) = uint raw"
  by (simp only: degrees_error degrees_recover)

end
