(* ===== verification/Json.thy ===== *)
theory Json
  imports GoFmt Float64
begin

text \<open>
  What the gateway uses of \<open>encoding/json\<close> on input: the grammar (\<open>parse_value\<close>, which
  both \<open>json.Unmarshal\<close> and \<open>Decoder.Decode\<close> run), and the decoding of an object into the
  fields of a struct. A number keeps its literal, as in the library, because an \<open>int\<close> field
  and a \<open>float64\<close> field read it differently. Not modelled: the replacement of invalid UTF-8
  in strings, and the nesting limit of 10000.
\<close>

datatype json =
    JNull
  | JBool bool
  | JNum string
  | JStr string
  | JArr "json list"
  | JObj "(string \<times> json) list"

section \<open>Lexical level\<close>

definition is_space :: "char \<Rightarrow> bool" where
  "is_space c \<longleftrightarrow> of_char c \<in> {0x20, 0x09, 0x0A, 0x0D :: nat}"

definition skip_ws :: "string \<Rightarrow> string" where
  "skip_ws s = dropWhile is_space s"

definition is_num_digit :: "char \<Rightarrow> bool" where
  "is_num_digit c \<longleftrightarrow> 48 \<le> (of_char c :: nat) \<and> (of_char c :: nat) \<le> 57"

definition hex_digit :: "char \<Rightarrow> nat option" where
  "hex_digit c = (let n = of_char c :: nat in
     if 48 \<le> n \<and> n \<le> 57 then Some (n - 48)
     else if 97 \<le> n \<and> n \<le> 102 then Some (n - 87)
     else if 65 \<le> n \<and> n \<le> 70 then Some (n - 55)
     else None)"

text \<open>The number grammar: an optional minus sign, an integer part without leading zeros, an
  optional fraction and an optional exponent. Each part returns what it read and the rest.\<close>

definition digits1 :: "string \<Rightarrow> (string \<times> string) option" where
  "digits1 s = (let d = takeWhile is_num_digit s in
     if d = [] then None else Some (d, drop (length d) s))"

definition int_part :: "string \<Rightarrow> (string \<times> string) option" where
  "int_part s = (case s of [] \<Rightarrow> None
     | c # cs \<Rightarrow> if c = CHR ''0'' then Some ([c], cs) else digits1 s)"

definition frac_part :: "string \<Rightarrow> (string \<times> string) option" where
  "frac_part s = (case s of [] \<Rightarrow> Some ([], s)
     | c # cs \<Rightarrow> if c = CHR ''.'' then map_option (\<lambda>(d, r). (c # d, r)) (digits1 cs) else Some ([], s))"

definition exp_part :: "string \<Rightarrow> (string \<times> string) option" where
  "exp_part s = (case s of [] \<Rightarrow> Some ([], s)
     | c # cs \<Rightarrow>
         if c = CHR ''e'' \<or> c = CHR ''E'' then
           (case cs of [] \<Rightarrow> None
            | sg # ds \<Rightarrow>
                if sg = CHR ''+'' \<or> sg = CHR ''-'' then map_option (\<lambda>(d, r). (c # sg # d, r)) (digits1 ds)
                else map_option (\<lambda>(d, r). (c # d, r)) (digits1 cs))
         else Some ([], s))"

definition parse_number :: "string \<Rightarrow> (string \<times> string) option" where
  "parse_number s = do {
     let (sign, s1) = (case s of c # cs \<Rightarrow> if c = CHR ''-'' then ([c], cs) else ([], s) | [] \<Rightarrow> ([], s));
     (i, s2) \<leftarrow> int_part s1;
     (f, s3) \<leftarrow> frac_part s2;
     (e, s4) \<leftarrow> exp_part s3;
     Some (sign @ i @ f @ e, s4) }"

text \<open>UTF-8 of a code point.\<close>

definition utf8 :: "nat \<Rightarrow> string" where
  "utf8 n =
     (if n < 0x80 then [char_of n]
      else if n < 0x800 then [char_of (0xC0 + n div 64), char_of (0x80 + n mod 64)]
      else if n < 0x10000 then
        [char_of (0xE0 + n div 4096), char_of (0x80 + n div 64 mod 64), char_of (0x80 + n mod 64)]
      else [char_of (0xF0 + n div 262144), char_of (0x80 + n div 4096 mod 64),
        char_of (0x80 + n div 64 mod 64), char_of (0x80 + n mod 64)])"

fun hex4 :: "string \<Rightarrow> nat option" where
  "hex4 (a # b # c # d # _) = do {
     w \<leftarrow> hex_digit a; x \<leftarrow> hex_digit b; y \<leftarrow> hex_digit c; z \<leftarrow> hex_digit d;
     Some (((w * 16 + x) * 16 + y) * 16 + z) }"
| "hex4 _ = None"

text \<open>An escape after its backslash: what it stands for and how many characters it takes. A
  surrogate that is not followed by its partner is replaced by U+FFFD.\<close>

definition unescape :: "string \<Rightarrow> (string \<times> nat) option" where
  "unescape s = (case s of [] \<Rightarrow> None
     | c # cs \<Rightarrow>
         if c = CHR 0x22 \<or> c = CHR 0x5C \<or> c = CHR ''/'' then Some ([c], 1)
         else if c = CHR ''b'' then Some ([CHR 0x08], 1)
         else if c = CHR ''f'' then Some ([CHR 0x0C], 1)
         else if c = CHR ''n'' then Some ([CHR 0x0A], 1)
         else if c = CHR ''r'' then Some ([CHR 0x0D], 1)
         else if c = CHR ''t'' then Some ([CHR 0x09], 1)
         else if c = CHR ''u'' then do {
           u \<leftarrow> hex4 cs;
           if u < 0xD800 \<or> 0xDFFF < u then Some (utf8 u, 5)
           else
             (let low = (if u < 0xDC00 \<and> take 2 (drop 4 cs) = [CHR 0x5C, CHR ''u''] then hex4 (drop 6 cs) else None) in
              case low of
                None \<Rightarrow> Some (utf8 0xFFFD, 5)
              | Some l \<Rightarrow>
                  if 0xDC00 \<le> l \<and> l \<le> 0xDFFF then Some (utf8 (0x10000 + (u - 0xD800) * 1024 + (l - 0xDC00)), 11)
                  else Some (utf8 0xFFFD, 5)) }
         else None)"

text \<open>A string after its opening quote.\<close>

function parse_string :: "string \<Rightarrow> (string \<times> string) option" where
  "parse_string s = (case s of [] \<Rightarrow> None
     | c # cs \<Rightarrow>
         if c = CHR 0x22 then Some ([], cs)
         else if c = CHR 0x5C then
           (case unescape cs of None \<Rightarrow> None
            | Some (out, k) \<Rightarrow> map_option (\<lambda>(t, r). (out @ t, r)) (parse_string (drop k cs)))
         else if (of_char c :: nat) < 0x20 then None
         else map_option (\<lambda>(t, r). (c # t, r)) (parse_string cs))"
  by pat_completeness auto
termination
  by (relation "measure length") auto

declare parse_string.simps [simp del]

section \<open>Values\<close>

definition keyword :: "string \<Rightarrow> json \<Rightarrow> string \<Rightarrow> (json \<times> string) option" where
  "keyword w v s = (if take (length w) s = w then Some (v, drop (length w) s) else None)"

text \<open>
  One value, the elements of an array after \<open>[\<close>, and the members of an object after
  \<open>{\<close>. Fuel bounds the depth of the calls; \<open>parse_one\<close> gives one more than twice the
  length of the text, and more never changes the result (\<open>parse_fuel\<close>).
\<close>

fun parse_value :: "nat \<Rightarrow> string \<Rightarrow> (json \<times> string) option"
  and parse_elems :: "nat \<Rightarrow> string \<Rightarrow> (json list \<times> string) option"
  and parse_members :: "nat \<Rightarrow> string \<Rightarrow> ((string \<times> json) list \<times> string) option" where
  "parse_value 0 s = None"
| "parse_value (Suc n) s = (case skip_ws s of [] \<Rightarrow> None
     | c # cs \<Rightarrow>
         if c = CHR ''{'' then
           (case skip_ws cs of [] \<Rightarrow> None
            | d # ds \<Rightarrow> if d = CHR ''}'' then Some (JObj [], ds)
                else map_option (\<lambda>(ms, r). (JObj ms, r)) (parse_members n (d # ds)))
         else if c = CHR ''['' then
           (case skip_ws cs of [] \<Rightarrow> None
            | d # ds \<Rightarrow> if d = CHR '']'' then Some (JArr [], ds)
                else map_option (\<lambda>(vs, r). (JArr vs, r)) (parse_elems n (d # ds)))
         else if c = CHR 0x22 then map_option (\<lambda>(t, r). (JStr t, r)) (parse_string cs)
         else if c = CHR ''n'' then keyword ''null'' JNull (c # cs)
         else if c = CHR ''t'' then keyword ''true'' (JBool True) (c # cs)
         else if c = CHR ''f'' then keyword ''false'' (JBool False) (c # cs)
         else map_option (\<lambda>(l, r). (JNum l, r)) (parse_number (c # cs)))"
| "parse_elems 0 s = None"
| "parse_elems (Suc n) s = do {
     (v, r) \<leftarrow> parse_value n s;
     (case skip_ws r of [] \<Rightarrow> None
      | c # cs \<Rightarrow>
          if c = CHR '','' then map_option (\<lambda>(vs, r'). (v # vs, r')) (parse_elems n cs)
          else if c = CHR '']'' then Some ([v], cs)
          else None) }"
| "parse_members 0 s = None"
| "parse_members (Suc n) s = (case skip_ws s of [] \<Rightarrow> None
     | q # qs \<Rightarrow>
         if q = CHR 0x22 then do {
           (k, r) \<leftarrow> parse_string qs;
           (case skip_ws r of [] \<Rightarrow> None
            | c # cs \<Rightarrow>
                if c = CHR '':'' then do {
                  (v, r2) \<leftarrow> parse_value n cs;
                  (case skip_ws r2 of [] \<Rightarrow> None
                   | d # ds \<Rightarrow>
                       if d = CHR '','' then map_option (\<lambda>(ms, r'). ((k, v) # ms, r')) (parse_members n ds)
                       else if d = CHR ''}'' then Some ([(k, v)], ds)
                       else None) }
                else None) }
         else None)"

text \<open>\<open>Decoder.Decode\<close> reads one value and ignores what follows; \<open>Unmarshal\<close> allows only
  white space after it.\<close>

definition parse_one :: "string \<Rightarrow> (json \<times> string) option" where
  "parse_one s = parse_value (2 * length s + 1) s"

definition json_Decode :: "string \<Rightarrow> json option" where
  "json_Decode s = map_option fst (parse_one s)"

definition json_Unmarshal :: "string \<Rightarrow> json option" where
  "json_Unmarshal s = (case parse_one s of None \<Rightarrow> None
     | Some (v, r) \<Rightarrow> if skip_ws r = [] then Some v else None)"

section \<open>The fuel is enough\<close>

lemma length_skip_ws: "length (skip_ws s) \<le> length s"
  by (simp add: skip_ws_def length_dropWhile_le)

lemma skip_ws_Cons: "skip_ws s = c # cs \<Longrightarrow> length cs < length s"
  using length_skip_ws [of s] by simp

lemma digits1_shorter: "digits1 s = Some (d, r) \<Longrightarrow> length r < length s"
  by (cases s) (auto simp: digits1_def Let_def split: if_splits)

lemma int_part_shorter: "int_part s = Some (d, r) \<Longrightarrow> length r < length s"
  by (auto simp: int_part_def dest: digits1_shorter split: list.splits if_splits)

lemma frac_part_shorter: "frac_part s = Some (d, r) \<Longrightarrow> length r \<le> length s"
  by (auto simp: frac_part_def dest!: digits1_shorter split: list.splits if_splits)

lemma exp_part_shorter: "exp_part s = Some (d, r) \<Longrightarrow> length r \<le> length s"
  by (auto simp: exp_part_def dest!: digits1_shorter split: list.splits if_splits)

lemma parse_number_shorter: "parse_number s = Some (l, r) \<Longrightarrow> length r < length s"
  by (auto simp: parse_number_def bind_eq_Some_conv split: list.splits if_splits
      dest!: int_part_shorter frac_part_shorter exp_part_shorter)

lemma parse_string_shorter: "parse_string s = Some (t, r) \<Longrightarrow> length r < length s"
proof (induction s arbitrary: t rule: parse_string.induct)
  case (1 s)
  show ?case
  proof (cases s)
    case (Cons c cs)
    consider "c = CHR 0x22" | "c = CHR 0x5C" | "c \<noteq> CHR 0x22" "c \<noteq> CHR 0x5C" by blast
    then show ?thesis
    proof cases
      case 1
      with "1.prems" Cons show ?thesis by (subst (asm) parse_string.simps) simp
    next
      case 2
      with "1.prems" Cons obtain out k t' where u: "unescape cs = Some (out, k)"
        and p: "parse_string (drop k cs) = Some (t', r)"
        by (subst (asm) parse_string.simps) (auto split: option.splits)
      have "length r < length (drop k cs)"
        by (rule "1.IH" (1) [OF Cons]) (use 2 u p in auto)
      with Cons show ?thesis by simp
    next
      case 3
      with "1.prems" Cons obtain t' where p: "parse_string cs = Some (t', r)"
        and n: "\<not> (of_char c :: nat) < 0x20"
        by (subst (asm) parse_string.simps) (auto split: if_splits)
      have "length r < length cs"
        by (rule "1.IH" (2) [OF Cons]) (use 3 p n in auto)
      with Cons show ?thesis by simp
    qed
  qed (use 1 in \<open>subst (asm) parse_string.simps, simp\<close>)
qed

lemma keyword_shorter: "keyword w v s = Some (x, r) \<Longrightarrow> w \<noteq> [] \<Longrightarrow> length r < length s"
  by (cases s) (auto simp: keyword_def split: if_splits)

lemmas shorter = parse_number_shorter parse_string_shorter keyword_shorter

text \<open>What a successful call on members went through.\<close>

lemma membersE:
  assumes "parse_members (Suc n) s = Some (ms, r)"
  obtains qs k r1 cs v r2 d ds where "skip_ws s = CHR 0x22 # qs" "parse_string qs = Some (k, r1)"
    "skip_ws r1 = CHR '':'' # cs" "parse_value n cs = Some (v, r2)" "skip_ws r2 = d # ds"
    "d = CHR '','' \<and> (\<exists>ms'. parse_members n ds = Some (ms', r)) \<or> r = ds"
proof -
  from assms obtain qs where q: "skip_ws s = CHR 0x22 # qs"
    by (cases "skip_ws s") (auto split: if_splits)
  with assms obtain k r1 where k: "parse_string qs = Some (k, r1)"
    by (cases "parse_string qs") auto
  with assms q obtain cs where c: "skip_ws r1 = CHR '':'' # cs"
    by (cases "skip_ws r1") (auto split: if_splits)
  with assms q k obtain v r2 where v: "parse_value n cs = Some (v, r2)"
    by (cases "parse_value n cs") auto
  with assms q k c obtain d ds where d: "skip_ws r2 = d # ds"
    by (cases "skip_ws r2") auto
  have "d = CHR '','' \<and> (\<exists>ms'. parse_members n ds = Some (ms', r)) \<or> r = ds"
    using assms by (simp add: q k c v d split: if_splits) auto
  with that q k c v d show thesis by blast
qed

lemma elemsE:
  assumes "parse_elems (Suc n) s = Some (vs, r)"
  obtains v r1 c cs where "parse_value n s = Some (v, r1)" "skip_ws r1 = c # cs"
    "c = CHR '','' \<and> (\<exists>vs'. parse_elems n cs = Some (vs', r)) \<or> r = cs"
proof -
  from assms obtain v r1 where v: "parse_value n s = Some (v, r1)"
    by (cases "parse_value n s") auto
  with assms obtain c cs where c: "skip_ws r1 = c # cs"
    by (cases "skip_ws r1") auto
  have "c = CHR '','' \<and> (\<exists>vs'. parse_elems n cs = Some (vs', r)) \<or> r = cs"
    using assms by (simp add: v c split: if_splits) auto
  with that v c show thesis by blast
qed

lemma parse_shorter:
  "(\<forall>v r. parse_value n s = Some (v, r) \<longrightarrow> length r < length s) \<and>
   (\<forall>vs r. parse_elems n s = Some (vs, r) \<longrightarrow> length r < length s) \<and>
   (\<forall>ms r. parse_members n s = Some (ms, r) \<longrightarrow> length r < length s)"
proof (induction n arbitrary: s)
  case (Suc n)
  have V: "length r < length s" if p: "parse_value (Suc n) s = Some (v, r)" for v r
  proof -
    from p obtain c cs where c: "skip_ws s = c # cs" by (cases "skip_ws s") auto
    note l = skip_ws_Cons [OF c]
    show ?thesis
    proof (cases "c = CHR ''{'' \<or> c = CHR ''[''")
      case True
      obtain d ds where d: "skip_ws cs = d # ds"
        using p True c by (cases "skip_ws cs") auto
      have ds: "length ds < length cs" using skip_ws_Cons [OF d] .
      have "length r < length (d # ds) \<or> r = ds"
        using p True c d Suc [of "d # ds"] by (auto split: if_splits)
      with ds l show ?thesis by auto
    next
      case False
      with p c have "length r < length (c # cs)"
        by (auto split: if_splits dest!: shorter)
      moreover have "length (c # cs) \<le> length s" using l by simp
      ultimately show ?thesis by linarith
    qed
  qed
  have E: "length r < length s" if "parse_elems (Suc n) s = Some (vs, r)" for vs r
    using that
  proof (rule elemsE)
    fix v r1 c cs
    assume "parse_value n s = Some (v, r1)" and c: "skip_ws r1 = c # cs"
      and r: "c = CHR '','' \<and> (\<exists>vs'. parse_elems n cs = Some (vs', r)) \<or> r = cs"
    with Suc have "length r1 < length s" by blast
    moreover note skip_ws_Cons [OF c]
    moreover have "length r < length cs \<or> r = cs" using r Suc by blast
    ultimately show ?thesis by auto
  qed
  have M: "length r < length s" if "parse_members (Suc n) s = Some (ms, r)" for ms r
    using that
  proof (rule membersE)
    fix qs k r1 cs v r2 d ds
    assume q: "skip_ws s = CHR 0x22 # qs" "skip_ws r1 = CHR '':'' # cs" "skip_ws r2 = d # ds"
      and k: "parse_string qs = Some (k, r1)" and v: "parse_value n cs = Some (v, r2)"
      and r: "d = CHR '','' \<and> (\<exists>ms'. parse_members n ds = Some (ms', r)) \<or> r = ds"
    have "length qs < length s" "length r1 < length qs" "length cs < length r1" "length ds < length r2"
      using q [THEN skip_ws_Cons] parse_string_shorter [OF k] by simp_all
    moreover have "length r2 < length cs" using v Suc by blast
    moreover have "length r < length ds \<or> r = ds" using r Suc by blast
    ultimately show ?thesis by auto
  qed
  show ?case using V E M by blast
qed simp

text \<open>Fuel beyond twice the length makes no difference.\<close>

lemma parse_more_fuel:
  "(2 * length s < n \<longrightarrow> parse_value (Suc n) s = parse_value n s) \<and>
   (2 * length s + 1 < n \<longrightarrow> parse_elems (Suc n) s = parse_elems n s) \<and>
   (2 * length s + 1 < n \<longrightarrow> parse_members (Suc n) s = parse_members n s)"
proof (induction n arbitrary: s)
  case (Suc n)
  have V: "parse_value (Suc (Suc n)) s = parse_value (Suc n) s" if n: "2 * length s < Suc n"
  proof (cases "skip_ws s")
    case (Cons c cs)
    note l = skip_ws_Cons [OF Cons]
    show ?thesis
    proof (cases "skip_ws cs")
      case Nil
      with Cons show ?thesis by simp
    next
      case d: (Cons d ds)
      have "length (d # ds) \<le> length cs" using skip_ws_Cons [OF d] by simp
      with l n have "2 * length (d # ds) + 1 < n" by linarith
      with Suc [of "d # ds"] have "parse_elems (Suc n) (d # ds) = parse_elems n (d # ds)"
        "parse_members (Suc n) (d # ds) = parse_members n (d # ds)" by blast+
      with Cons d show ?thesis by (simp only: parse_value.simps list.case)
    qed
  qed simp
  have E: "parse_elems (Suc (Suc n)) s = parse_elems (Suc n) s" if n: "2 * length s + 1 < Suc n"
  proof (cases "parse_value n s")
    case None
    with Suc n show ?thesis by simp
  next
    case (Some p)
    obtain v r where p: "p = (v, r)" by (cases p)
    with Some parse_shorter [of n s] have r: "length r < length s" by blast
    have v: "parse_value (Suc n) s = Some (v, r)" using Suc n Some p by simp
    show ?thesis
    proof (cases "skip_ws r")
      case Nil
      with v Some p show ?thesis by (simp only: parse_elems.simps) simp
    next
      case (Cons c cs)
      have "2 * length cs + 1 < n" using skip_ws_Cons [OF Cons] r n by linarith
      with Suc have "parse_elems (Suc n) cs = parse_elems n cs" by blast
      with v Some p Cons show ?thesis by (simp only: parse_elems.simps) simp
    qed
  qed
  have M: "parse_members (Suc (Suc n)) s = parse_members (Suc n) s" if n: "2 * length s + 1 < Suc n"
  proof -
    have v: "parse_value (Suc n) cs = parse_value n cs" if "length cs < length s" for cs
      using Suc n that by simp
    have m: "parse_members (Suc n) ds = parse_members n ds" if "length ds < length s" for ds
      using Suc n that by simp
    show ?thesis
    proof (cases "skip_ws s")
      case (Cons q qs)
      note q = this skip_ws_Cons [OF Cons]
      show ?thesis
      proof (cases "parse_string qs")
        case (Some p)
        obtain k r1 where k: "parse_string qs = Some (k, r1)" using Some by (cases p) auto
        show ?thesis
        proof (cases "skip_ws r1")
          case (Cons c cs)
          note c = this
          have cs: "length cs < length s"
            using skip_ws_Cons [OF c] parse_string_shorter [OF k] q(2) by linarith
          show ?thesis
          proof (cases "parse_value n cs")
            case (Some p2)
            obtain v2 r2 where v2: "parse_value n cs = Some (v2, r2)" using Some by (cases p2) auto
            with parse_shorter [of n cs] have r2: "length r2 < length cs" by blast
            show ?thesis
            proof (cases "skip_ws r2")
              case (Cons d ds)
              have "length ds < length s" using skip_ws_Cons [OF Cons] r2 cs by linarith
              with Cons show ?thesis
                using q(1) k c v2 v [OF cs] m by (simp only: parse_members.simps) simp
            qed (use q(1) k c v2 v [OF cs] in \<open>simp only: parse_members.simps, simp\<close>)
          qed (use q(1) k c v [OF cs] in \<open>simp only: parse_members.simps, simp\<close>)
        qed (use q(1) k in \<open>simp only: parse_members.simps, simp\<close>)
      qed (use q(1) in \<open>simp only: parse_members.simps, simp\<close>)
    qed simp
  qed
  show ?case using V E M by blast
qed simp

lemma parse_fuel: "2 * length s < n \<Longrightarrow> parse_value n s = parse_one s"
proof (induction n)
  case (Suc n)
  then show ?case
    using parse_more_fuel [of s n] by (cases "2 * length s < n") (auto simp: parse_one_def less_Suc_eq)
qed simp

section \<open>Decoding into Go values\<close>

text \<open>Digits, \<open>strconv.ParseUint\<close> and \<open>ParseInt\<close> (base 10, 64 bits).\<close>

definition digits_value :: "string \<Rightarrow> int" where
  "digits_value s = foldl (\<lambda>a c. a * 10 + (of_char c - 48)) 0 s"

definition ParseUint :: "nat \<Rightarrow> string \<Rightarrow> int option" where
  "ParseUint bits lit =
     (if lit \<noteq> [] \<and> list_all is_num_digit lit \<and> digits_value lit < 2 ^ bits
      then Some (digits_value lit) else None)"

definition in_int64 :: "int \<Rightarrow> bool" where
  "in_int64 i \<longleftrightarrow> - (2 ^ 63) \<le> i \<and> i < 2 ^ 63"

definition ParseInt :: "string \<Rightarrow> int option" where
  "ParseInt lit =
     (let (neg, ds) = (case lit of c # cs \<Rightarrow> if c = CHR ''-'' then (True, cs)
              else if c = CHR ''+'' then (False, cs) else (False, lit) | [] \<Rightarrow> (False, []));
          i = (if neg then - digits_value ds else digits_value ds) in
      if ds \<noteq> [] \<and> list_all is_num_digit ds \<and> in_int64 i then Some i else None)"

text \<open>\<open>strconv.ParseFloat\<close>: the exact value of the literal, rounded, or an error when that is
  too large.\<close>

definition literal_value :: "string \<Rightarrow> rat" where
  "literal_value lit =
     (let (neg, s) = (case lit of c # cs \<Rightarrow> if c = CHR ''-'' then (True, cs) else (False, lit) | [] \<Rightarrow> (False, []));
          whole = takeWhile is_num_digit s;
          s1 = drop (length whole) s;
          frac = (case s1 of c # cs \<Rightarrow> if c = CHR ''.'' then takeWhile is_num_digit cs else [] | [] \<Rightarrow> []);
          s2 = (if frac = [] then s1 else drop (Suc (length frac)) s1);
          e = (case s2 of [] \<Rightarrow> 0
               | _ # cs \<Rightarrow> (case cs of [] \<Rightarrow> 0
                   | g # ds \<Rightarrow> if g = CHR ''-'' then - digits_value ds
                       else if g = CHR ''+'' then digits_value ds else digits_value cs));
          k = e - int (length frac);
          m = of_int (digits_value (whole @ frac));
          x = (if k \<ge> 0 then m * 10 ^ nat k else m / 10 ^ nat (- k)) in
      if neg then - x else x)"

definition ParseFloat :: "string \<Rightarrow> f64 option" where
  "ParseFloat lit = (let x = round64 (literal_value lit) in
     if \<bar>x\<bar> < 2 ^ 1024 then Some x else None)"

text \<open>
  Storing a value in a field of a Go type, given what the field holds: \<open>null\<close> leaves it,
  a value of the wrong kind is an error. A \<open>json.RawMessage\<close> takes any value; the model
  keeps it parsed, with \<open>None\<close> for the empty message.
\<close>

definition decode_int :: "json \<Rightarrow> int \<Rightarrow> int option" where
  "decode_int v cur = (case v of JNull \<Rightarrow> Some cur | JNum lit \<Rightarrow> ParseInt lit | _ \<Rightarrow> None)"

definition decode_uint_ptr :: "nat \<Rightarrow> json \<Rightarrow> int option option" where
  "decode_uint_ptr bits v =
     (case v of JNull \<Rightarrow> Some None | JNum lit \<Rightarrow> map_option Some (ParseUint bits lit) | _ \<Rightarrow> None)"

definition decode_float :: "json \<Rightarrow> f64 \<Rightarrow> f64 option" where
  "decode_float v cur = (case v of JNull \<Rightarrow> Some cur | JNum lit \<Rightarrow> ParseFloat lit | _ \<Rightarrow> None)"

definition decode_string :: "json \<Rightarrow> string \<Rightarrow> string option" where
  "decode_string v cur = (case v of JNull \<Rightarrow> Some cur | JStr s \<Rightarrow> Some s | _ \<Rightarrow> None)"

definition decode_bool :: "json \<Rightarrow> bool \<Rightarrow> bool option" where
  "decode_bool v cur = (case v of JNull \<Rightarrow> Some cur | JBool b \<Rightarrow> Some b | _ \<Rightarrow> None)"

text \<open>
  Field names match up to case folding: ASCII letters, and the two non-ASCII characters that
  fold to an ASCII letter, U+017F (to \<open>S\<close>) and U+212A (to \<open>K\<close>).
\<close>

definition upper_ascii :: "char \<Rightarrow> char" where
  "upper_ascii c = (let n = of_char c :: nat in if 97 \<le> n \<and> n \<le> 122 then char_of (n - 32) else c)"

function fold_name :: "string \<Rightarrow> string" where
  "fold_name s = (case s of [] \<Rightarrow> []
     | c # cs \<Rightarrow>
         if take 2 s = [CHR 0xC5, CHR 0xBF] then CHR ''S'' # fold_name (drop 1 cs)
         else if take 3 s = [CHR 0xE2, CHR 0x84, CHR 0xAA] then CHR ''K'' # fold_name (drop 2 cs)
         else upper_ascii c # fold_name cs)"
  by pat_completeness auto
termination
  by (relation "measure length") auto

declare fold_name.simps [simp del]

definition field_is :: "string \<Rightarrow> string \<Rightarrow> bool" where
  "field_is name key \<longleftrightarrow> fold_name key = fold_name name"

text \<open>
  Decoding into a struct: \<open>store\<close> stores one member in the record (or leaves it, for a key
  that is no field), in the order of the text, so the last of several members wins. \<open>None\<close>
  is an error: the library goes on after a value of the wrong kind and reports it at the end.
\<close>

fun store_members :: "(string \<Rightarrow> json \<Rightarrow> 'r \<Rightarrow> 'r option) \<Rightarrow> (string \<times> json) list \<Rightarrow> 'r \<Rightarrow> 'r option" where
  "store_members store [] r = Some r"
| "store_members store ((k, v) # ms) r = store k v r \<bind> store_members store ms"

definition decode_struct :: "(string \<Rightarrow> json \<Rightarrow> 'r \<Rightarrow> 'r option) \<Rightarrow> 'r \<Rightarrow> json \<Rightarrow> 'r option" where
  "decode_struct store r v =
     (case v of JNull \<Rightarrow> Some r | JObj ms \<Rightarrow> store_members store ms r | _ \<Rightarrow> None)"

section \<open>Decimal literals\<close>

lemma is_num_digit_char: "d < 10 \<Longrightarrow> is_num_digit (digit_char d)"
  by (simp add: is_num_digit_def digit_char_def)

lemma fmt_nat_digits: "list_all is_num_digit (fmt_nat n)" "fmt_nat n \<noteq> []"
  by (induction n rule: fmt_nat.induct; subst fmt_nat.simps; simp add: is_num_digit_char)+

lemma digits_value_snoc: "digits_value (s @ [c]) = digits_value s * 10 + (of_char c - 48)"
  by (simp add: digits_value_def)

lemma digit_char_value: "d < 10 \<Longrightarrow> (of_char (digit_char d) :: int) - 48 = int d"
proof -
  assume "d < 10"
  then have "(of_char (digit_char d) :: nat) = 48 + d" by (simp add: digit_char_def)
  then have "int (of_char (digit_char d)) = 48 + int d" by simp
  then show ?thesis by (simp add: of_nat_of_char)
qed

lemma digits_value_fmt_nat: "digits_value (fmt_nat n) = int n"
proof (induction n rule: fmt_nat.induct)
  case (1 n)
  show ?case
  proof (cases "n < 10")
    case True
    then show ?thesis by (subst fmt_nat.simps) (simp add: digits_value_def digit_char_value)
  next
    case False
    then have "fmt_nat n = fmt_nat (n div 10) @ [digit_char (n mod 10)]"
      by (subst fmt_nat.simps) simp
    moreover have "n mod 10 < 10" by simp
    ultimately show ?thesis using 1 False
      by (simp add: digits_value_snoc digit_char_value zdiv_int zmod_int)
  qed
qed

text \<open>\<open>ParseUint\<close> stays within its width.\<close>

lemma digits_value_nonneg: "list_all is_num_digit s \<Longrightarrow> 0 \<le> digits_value s"
proof -
  have "0 \<le> foldl (\<lambda>a c. a * 10 + (of_char c - 48)) a s" if "list_all is_num_digit s" "0 \<le> a" for a :: int
    using that
  proof (induction s arbitrary: a)
    case (Cons c s)
    have "(of_char c :: int) = int (of_char c)" by (simp only: of_nat_of_char)
    moreover have "48 \<le> (of_char c :: nat)" using Cons.prems(1) by (simp add: is_num_digit_def)
    ultimately have "0 \<le> (of_char c :: int) - 48" by linarith
    with Cons show ?case by simp
  qed simp
  then show "list_all is_num_digit s \<Longrightarrow> 0 \<le> digits_value s" by (simp add: digits_value_def)
qed

lemma ParseUint_bound: "ParseUint bits lit = Some n \<Longrightarrow> 0 \<le> n \<and> n < 2 ^ bits"
  by (auto simp: ParseUint_def digits_value_nonneg split: if_splits)

text \<open>\<open>ParseInt\<close> inverts the formatting of a 64-bit integer.\<close>

lemma ParseInt_fmt_d:
  assumes "in_int64 i"
  shows "ParseInt (fmt_d i) = Some i"
proof (cases "i < 0")
  case True
  then have "ParseInt (fmt_d i) = ParseInt (CHR ''-'' # fmt_nat (nat (- i)))" by (simp add: fmt_d_def)
  with assms True show ?thesis
    using fmt_nat_digits [of "nat (- i)"] by (simp add: ParseInt_def digits_value_fmt_nat)
next
  case False
  obtain c cs where c: "fmt_nat (nat i) = c # cs"
    using fmt_nat_digits(2) [of "nat i"] by (cases "fmt_nat (nat i)") auto
  moreover have "c \<noteq> CHR ''-''" "c \<noteq> CHR ''+''"
    using fmt_nat_digits(1) [of "nat i"] c by (auto simp: is_num_digit_def)
  ultimately have "ParseInt (fmt_nat (nat i)) = Some i"
    using fmt_nat_digits(1) [of "nat i"] digits_value_fmt_nat [of "nat i"] assms False
    by (simp add: ParseInt_def)
  with False show ?thesis by (simp add: fmt_d_def)
qed

end
