(* ===== verification/Io.thy ===== *)
theory Io
  imports GoTime Json
begin

text \<open>
  The outside world. The gateway reads the clock, makes HTTP requests, publishes to an MQTT
  broker and writes to TCP connections; what these return is not determined by the program.
  The model takes it from an environment, whose functions receive a counter that grows with
  every interaction: quantifying over environments gives every sequence of answers, and a
  concrete environment makes the model executable.

  The trace is a ghost component, a log of the interactions and of the calls to the uplink
  client (\<open>mqtt.Client\<close>), in order. It appears in the theorems; the code does not read it.
\<close>

text \<open>A Go value of type \<open>any\<close>, as far as the gateway builds them for JSON output.\<close>

datatype any =
    AString string
  | AInt int
  | AFloat f64
  | ABool bool
  | ATime instant
  | AList "any list"
  | AMap "(string \<times> any) list"

record http_request =
  Method :: string
  ReqURL :: string
  Headers :: "(string \<times> string) list"
  ReqBody :: "any option"

record http_response =
  StatusCode :: int
  RespBody :: string

record publication =
  Topic :: string
  PubQoS :: byte
  Retained :: bool
  Payload :: any

datatype tb_call =
    ConnectCall string
  | DisconnectCall string
  | TelemetryCall string instant "(string \<times> any) list"

datatype event =
    Wrote nat "byte list"
  | ClosedConn nat
  | Requested http_request
  | Published publication
  | Uplink tb_call

record io =
  Tick :: nat
  Trace :: "event list"

text \<open>
  \<open>url_ok\<close> is whether \<open>http.NewRequest\<close> accepts a URL; \<open>http_do\<close> is \<open>http.Client.Do\<close> with the
  body read; \<open>mqtt_publish\<close> is the error of a publish token; \<open>conn_write\<close> the error of a
  write to an open connection, with the number of bytes that went out before it.
\<close>

record env =
  now :: "nat \<Rightarrow> instant"
  url_ok :: "string \<Rightarrow> bool"
  http_do :: "nat \<Rightarrow> http_request \<Rightarrow> string + http_response"
  mqtt_publish :: "nat \<Rightarrow> publication \<Rightarrow> string option"
  conn_write :: "nat \<Rightarrow> nat \<Rightarrow> byte list \<Rightarrow> (string \<times> nat) option"

text \<open>
  A write that fails has stopped early (\<open>io.Writer\<close>: an error is returned when fewer bytes than
  given were written): what is on the wire is a part of the packet without its last byte.
\<close>

definition sent_part :: "nat \<Rightarrow> byte list \<Rightarrow> byte list" where
  "sent_part n b = take n (butlast b)"

text \<open>\<open>torn b w\<close>: \<open>w\<close> is a proper prefix of the packet \<open>b\<close>, possibly empty.\<close>

definition torn :: "byte list \<Rightarrow> byte list \<Rightarrow> bool" where
  "torn b w \<longleftrightarrow> length w < length b \<and> take (length w) b = w"

lemma sent_part_torn: "b \<noteq> [] \<Longrightarrow> torn b (sent_part n b)"
  by (cases b rule: rev_cases) (auto simp: sent_part_def torn_def min_def)

definition log :: "event \<Rightarrow> io \<Rightarrow> io" where
  "log e io = io\<lparr>Trace := Trace io @ [e]\<rparr>"

definition tick :: "io \<Rightarrow> io" where
  "tick io = io\<lparr>Tick := Suc (Tick io)\<rparr>"

definition time_Now :: "env \<Rightarrow> io \<Rightarrow> instant \<times> io" where
  "time_Now env io = (now env (Tick io), tick io)"

definition http_Do :: "env \<Rightarrow> http_request \<Rightarrow> io \<Rightarrow> (string + http_response) \<times> io" where
  "http_Do env req io = (http_do env (Tick io) req, log (Requested req) (tick io))"

definition paho_Publish :: "env \<Rightarrow> publication \<Rightarrow> io \<Rightarrow> string option \<times> io" where
  "paho_Publish env p io = (mqtt_publish env (Tick io) p, log (Published p) (tick io))"

section \<open>Traces only grow\<close>

text \<open>\<open>extends P io io'\<close>: the trace of \<open>io'\<close> is that of \<open>io\<close> with events satisfying \<open>P\<close> added.\<close>

definition extends :: "(event \<Rightarrow> bool) \<Rightarrow> io \<Rightarrow> io \<Rightarrow> bool" where
  "extends P io io' \<longleftrightarrow> Tick io \<le> Tick io' \<and> (\<exists>es. Trace io' = Trace io @ es \<and> list_all P es)"

named_theorems trace_ext \<open>what the operations add to the trace\<close>

lemma extends_refl [trace_ext, intro, simp]: "extends P io io"
  by (simp add: extends_def)

lemma extends_trans [trans]: "extends P a b \<Longrightarrow> extends P b c \<Longrightarrow> extends P a c"
  by (auto simp: extends_def)

lemma extends_mono: "extends P a b \<Longrightarrow> (\<And>e. P e \<Longrightarrow> Q e) \<Longrightarrow> extends Q a b"
  by (auto simp: extends_def list_all_iff)

lemma extends_tick [trace_ext]: "extends P io (tick io)"
  by (simp add: extends_def tick_def)

lemma extends_log [trace_ext]: "P e \<Longrightarrow> extends P io (log e io)"
  by (auto simp: extends_def log_def)

lemma extends_log_tick: "P e \<Longrightarrow> extends P io (log e (tick io))"
  by (auto simp: extends_def log_def tick_def)

lemma time_Now_ext [trace_ext]: "time_Now env io = (t, io') \<Longrightarrow> extends P io io'"
  by (auto simp: time_Now_def extends_tick)

lemma http_Do_ext [trace_ext]: "http_Do env req io = (r, io') \<Longrightarrow> P (Requested req) \<Longrightarrow> extends P io io'"
  by (auto simp: http_Do_def extends_log_tick)

lemma paho_Publish_ext [trace_ext]:
  "paho_Publish env p io = (r, io') \<Longrightarrow> P (Published p) \<Longrightarrow> extends P io io'"
  by (auto simp: paho_Publish_def extends_log_tick)

definition is_request :: "event \<Rightarrow> bool" where
  "is_request e \<longleftrightarrow> (case e of Requested _ \<Rightarrow> True | _ \<Rightarrow> False)"

lemma is_request_simps [simp]:
  "is_request (Requested r)" "\<not> is_request (Wrote c b)" "\<not> is_request (ClosedConn c)"
  "\<not> is_request (Published p)" "\<not> is_request (Uplink u)"
  by (simp_all add: is_request_def)

text \<open>How many events of a kind a step added.\<close>

definition count_events :: "(event \<Rightarrow> bool) \<Rightarrow> io \<Rightarrow> nat" where
  "count_events P io = length (filter P (Trace io))"

lemma count_events_simps [simp]:
  "count_events P (tick io) = count_events P io"
  "count_events P (log e io) = count_events P io + (if P e then 1 else 0)"
  by (simp_all add: count_events_def tick_def log_def)

end
