(* ===== verification/Config.thy ===== *)
theory Config
  imports GoTime
begin

text \<open>
  The configuration: \<open>internal/config/config.go\<close>. Durations are nanoseconds. The file
  system and the YAML library are arguments of \<open>Load\<close>: \<open>readFile\<close> is \<open>os.ReadFile\<close>, and
  \<open>unmarshal\<close> is \<open>yaml.Unmarshal\<close> into a zero \<open>Config\<close>.
\<close>

record server_config =
  Listen :: string
  ReadTimeout :: int
  WriteTimeout :: int
  DebugAPI :: string

record thingsboard_config =
  Host :: string
  Port :: int
  AccessToken :: string
  ClientID :: string
  TBPassword :: string
  DeviceProfile :: string
  QoS :: byte
  KeepAlive :: int
  UseMock :: bool

record geolocation_config =
  GeoEnabled :: bool
  URL :: string
  APIKey :: string
  GeoTimeout :: int

record paapeli_config =
  PaapeliEnabled :: bool
  BaseURL :: string
  Username :: string
  PaapeliPassword :: string
  PaapeliTimeout :: int
  PositiveTTL :: int
  NegativeTTL :: int

record logging_config =
  Level :: string

record config =
  ServerCfg :: server_config
  ThingsBoardCfg :: thingsboard_config
  GeolocationCfg :: geolocation_config
  PaapeliCfg :: paapeli_config
  LoggingCfg :: logging_config

definition second :: int where "second = 1000000000"
definition minute :: int where "minute = 60 * second"

datatype config_error = ReadConfig string | ParseConfig string

section \<open>Defaults\<close>

text \<open>The \<open>if\<close> statements of \<open>Load\<close>, section by section.\<close>

definition server_defaults :: "server_config \<Rightarrow> server_config" where
  "server_defaults c =
     (let c = (if Listen c = '''' then c\<lparr>Listen := '':8002''\<rparr> else c);
          c = (if ReadTimeout c = 0 then c\<lparr>ReadTimeout := 5 * minute\<rparr> else c) in
      if WriteTimeout c = 0 then c\<lparr>WriteTimeout := 10 * second\<rparr> else c)"

definition thingsboard_defaults :: "thingsboard_config \<Rightarrow> thingsboard_config" where
  "thingsboard_defaults c =
     (let c = (if Port c = 0 then c\<lparr>Port := 1883\<rparr> else c);
          c = (if DeviceProfile c = '''' then c\<lparr>DeviceProfile := ''pet-tracker''\<rparr> else c);
          c = (if QoS c = 0 then c\<lparr>QoS := 1\<rparr> else c);
          c = (if KeepAlive c = 0 then c\<lparr>KeepAlive := 30 * second\<rparr> else c) in
      if ClientID c = '''' then c\<lparr>ClientID := ''zx909-gw''\<rparr> else c)"

definition geolocation_defaults :: "geolocation_config \<Rightarrow> geolocation_config" where
  "geolocation_defaults c = (if GeoTimeout c = 0 then c\<lparr>GeoTimeout := 3 * second\<rparr> else c)"

definition paapeli_defaults :: "paapeli_config \<Rightarrow> paapeli_config" where
  "paapeli_defaults c =
     (let c = (if PaapeliTimeout c = 0 then c\<lparr>PaapeliTimeout := 3 * second\<rparr> else c);
          c = (if PositiveTTL c = 0 then c\<lparr>PositiveTTL := 30 * minute\<rparr> else c) in
      if NegativeTTL c = 0 then c\<lparr>NegativeTTL := 60 * second\<rparr> else c)"

definition logging_defaults :: "logging_config \<Rightarrow> logging_config" where
  "logging_defaults c = (if Level c = '''' then c\<lparr>Level := ''info''\<rparr> else c)"

definition Load :: "(string \<Rightarrow> string + string) \<Rightarrow> (string \<Rightarrow> string + config) \<Rightarrow> string
    \<Rightarrow> config_error + config" where
  "Load readFile unmarshal path =
     (case readFile path of
        Inl err \<Rightarrow> Inl (ReadConfig err)
      | Inr data \<Rightarrow>
          (case unmarshal data of
             Inl err \<Rightarrow> Inl (ParseConfig err)
           | Inr cfg \<Rightarrow> Inr \<lparr>ServerCfg = server_defaults (ServerCfg cfg),
               ThingsBoardCfg = thingsboard_defaults (ThingsBoardCfg cfg),
               GeolocationCfg = geolocation_defaults (GeolocationCfg cfg),
               PaapeliCfg = paapeli_defaults (PaapeliCfg cfg),
               LoggingCfg = logging_defaults (LoggingCfg cfg)\<rparr>))"

section \<open>Facts\<close>

lemmas defaults = server_defaults_def thingsboard_defaults_def geolocation_defaults_def
  paapeli_defaults_def logging_defaults_def Let_def second_def minute_def

text \<open>Every setting the rest of the program relies on being set.\<close>

definition complete :: "config \<Rightarrow> bool" where
  "complete c \<longleftrightarrow> Listen (ServerCfg c) \<noteq> '''' \<and> ReadTimeout (ServerCfg c) \<noteq> 0 \<and> WriteTimeout (ServerCfg c) \<noteq> 0 \<and>
     Port (ThingsBoardCfg c) \<noteq> 0 \<and> DeviceProfile (ThingsBoardCfg c) \<noteq> '''' \<and> QoS (ThingsBoardCfg c) \<noteq> 0 \<and>
     KeepAlive (ThingsBoardCfg c) \<noteq> 0 \<and> ClientID (ThingsBoardCfg c) \<noteq> '''' \<and>
     GeoTimeout (GeolocationCfg c) \<noteq> 0 \<and> PaapeliTimeout (PaapeliCfg c) \<noteq> 0 \<and>
     PositiveTTL (PaapeliCfg c) \<noteq> 0 \<and> NegativeTTL (PaapeliCfg c) \<noteq> 0 \<and> Level (LoggingCfg c) \<noteq> ''''"

lemma defaults_id:
  assumes "complete c"
  shows "server_defaults (ServerCfg c) = ServerCfg c"
    "thingsboard_defaults (ThingsBoardCfg c) = ThingsBoardCfg c"
    "geolocation_defaults (GeolocationCfg c) = GeolocationCfg c"
    "paapeli_defaults (PaapeliCfg c) = PaapeliCfg c"
    "logging_defaults (LoggingCfg c) = LoggingCfg c"
  using assms by (simp_all add: complete_def defaults)

lemma defaults_complete:
  "complete \<lparr>ServerCfg = server_defaults s, ThingsBoardCfg = thingsboard_defaults t,
     GeolocationCfg = geolocation_defaults g, PaapeliCfg = paapeli_defaults p,
     LoggingCfg = logging_defaults l\<rparr>"
  by (simp add: complete_def defaults)

section \<open>Properties\<close>

text \<open>An empty file, and what the example file and the comments promise for it.\<close>

definition zero_config :: config where
  "zero_config =
     \<lparr>ServerCfg = \<lparr>Listen = '''', ReadTimeout = 0, WriteTimeout = 0, DebugAPI = ''''\<rparr>,
      ThingsBoardCfg = \<lparr>Host = '''', Port = 0, AccessToken = '''', ClientID = '''', TBPassword = '''',
        DeviceProfile = '''', QoS = 0, KeepAlive = 0, UseMock = False\<rparr>,
      GeolocationCfg = \<lparr>GeoEnabled = False, URL = '''', APIKey = '''', GeoTimeout = 0\<rparr>,
      PaapeliCfg = \<lparr>PaapeliEnabled = False, BaseURL = '''', Username = '''', PaapeliPassword = '''',
        PaapeliTimeout = 0, PositiveTTL = 0, NegativeTTL = 0\<rparr>,
      LoggingCfg = \<lparr>Level = ''''\<rparr>\<rparr>"

text \<open>C40. What \<open>Load\<close> returns is complete: no setting with a default is left empty or zero. And
  the defaults touch nothing else: a file that sets them all is returned as it was read, while an
  empty one gives the values of \<open>config.example.yaml\<close>: port 8002 with 5 minutes to read and 10
  seconds to write, broker port 1883 with profile, QoS 1, 30 seconds and client id, 3 seconds for
  the other services, answers kept 30 minutes or 60 seconds, level info.\<close>

theorem load_completes_config:
  "(case Load readFile unmarshal path of
     Inl _ \<Rightarrow> True
   | Inr c \<Rightarrow> complete c \<and>
       (\<exists>data c0. readFile path = Inr data \<and> unmarshal data = Inr c0 \<and> (complete c0 \<longrightarrow> c = c0))) \<and>
   Load (\<lambda>_. Inr data) (\<lambda>_. Inr zero_config) path = Inr
     \<lparr>ServerCfg = \<lparr>Listen = '':8002'', ReadTimeout = 300000000000, WriteTimeout = 10000000000, DebugAPI = ''''\<rparr>,
      ThingsBoardCfg = \<lparr>Host = '''', Port = 1883, AccessToken = '''', ClientID = ''zx909-gw'', TBPassword = '''',
        DeviceProfile = ''pet-tracker'', QoS = 1, KeepAlive = 30000000000, UseMock = False\<rparr>,
      GeolocationCfg = \<lparr>GeoEnabled = False, URL = '''', APIKey = '''', GeoTimeout = 3000000000\<rparr>,
      PaapeliCfg = \<lparr>PaapeliEnabled = False, BaseURL = '''', Username = '''', PaapeliPassword = '''',
        PaapeliTimeout = 3000000000, PositiveTTL = 1800000000000, NegativeTTL = 60000000000\<rparr>,
      LoggingCfg = \<lparr>Level = ''info''\<rparr>\<rparr>"
proof
  show "case Load readFile unmarshal path of
     Inl _ \<Rightarrow> True
   | Inr c \<Rightarrow> complete c \<and>
       (\<exists>data c0. readFile path = Inr data \<and> unmarshal data = Inr c0 \<and> (complete c0 \<longrightarrow> c = c0))"
  proof (cases "readFile path")
    case (Inr data)
    show ?thesis
    proof (cases "unmarshal data")
      case c0: (Inr c0)
      then show ?thesis
        using Inr defaults_complete [of "ServerCfg c0" "ThingsBoardCfg c0" "GeolocationCfg c0" "PaapeliCfg c0" "LoggingCfg c0"]
          defaults_id [of c0]
        by (auto simp: Load_def)
    qed (simp add: Load_def Inr)
  qed (simp add: Load_def)
qed (simp add: Load_def zero_config_def defaults)

text \<open>A complete configuration, as a YAML file might give it.\<close>

definition demo_config :: config where
  "demo_config =
     \<lparr>ServerCfg = \<lparr>Listen = '':8002'', ReadTimeout = 5 * minute, WriteTimeout = 10 * second, DebugAPI = ''''\<rparr>,
      ThingsBoardCfg = \<lparr>Host = ''tb.example'', Port = 1883, AccessToken = ''token'', ClientID = ''zx909-gw'', TBPassword = '''',
        DeviceProfile = ''pet-tracker'', QoS = 1, KeepAlive = 30 * second, UseMock = False\<rparr>,
      GeolocationCfg = \<lparr>GeoEnabled = False, URL = '''', APIKey = '''', GeoTimeout = 3 * second\<rparr>,
      PaapeliCfg = \<lparr>PaapeliEnabled = True, BaseURL = ''https://paapeli.example/'', Username = ''gw'', PaapeliPassword = ''pw'',
        PaapeliTimeout = 3 * second, PositiveTTL = 30 * minute, NegativeTTL = 60 * second\<rparr>,
      LoggingCfg = \<lparr>Level = ''info''\<rparr>\<rparr>"

lemma Load_demo: "Load (\<lambda>_. Inr '''') (\<lambda>_. Inr demo_config) path = Inr demo_config"
  by (simp add: Load_def demo_config_def defaults)

theorem load_completes_config_witness:
  "complete demo_config \<and> Load (\<lambda>_. Inr '''') (\<lambda>_. Inr demo_config) ''config.yaml'' = Inr demo_config"
  using load_completes_config [where readFile = "\<lambda>_. Inr ''''" and unmarshal = "\<lambda>_. Inr demo_config" and path = "''config.yaml''"]
  by (simp add: Load_demo)

end
