(* ===== verification/Registry.thy ===== *)
theory Registry
  imports Io Config
begin

text \<open>
  The claim check: \<open>internal/registry/registry.go\<close> (the interface and \<open>AllowAll\<close>) and
  \<open>internal/registry/paapeli.go\<close> (the client of the Paapeli back end with its token and its
  cache). The mutex makes each access to token and cache atomic; the HTTP client is
  \<open>http_Do\<close>, whose body is what \<open>io.ReadAll\<close> returned.
\<close>

section \<open>State\<close>

record cache_entry =
  registered :: bool
  expires :: instant

record paapeli =
  PCfg :: paapeli_config
  Token :: string
  Cache :: "string \<Rightarrow> cache_entry option"

datatype registry = AllowAll | Paapeli paapeli

record login_response =
  LToken :: string
  TokenType :: string

record tracker_response =
  DeviceName :: string
  Registered :: bool

datatype reg_error =
    BadURL string
  | HttpFailed string
  | TrackerHTTP int string
  | TrackerDecode
  | LoginHTTP int string
  | LoginDecode
  | LoginEmptyToken

section \<open>Operations\<close>

definition New_registry :: "paapeli_config \<Rightarrow> registry" where
  "New_registry cfg =
     (if \<not> PaapeliEnabled cfg then AllowAll
      else if BaseURL cfg = '''' \<or> Username cfg = '''' then AllowAll
      else Paapeli \<lparr>PCfg = cfg, Token = '''', Cache = (\<lambda>_. None)\<rparr>)"

definition strings_TrimRight :: "string \<Rightarrow> char \<Rightarrow> string" where
  "strings_TrimRight s c = rev (dropWhile (\<lambda>d. d = c) (rev s))"

definition truncate_str :: "string \<Rightarrow> nat \<Rightarrow> string" where
  "truncate_str s n = (if length s \<le> n then s else take n s @ [CHR 0xE2, CHR 0x80, CHR 0xA6])"

definition store_login :: "string \<Rightarrow> json \<Rightarrow> login_response \<Rightarrow> login_response option" where
  "store_login k v r =
     (if field_is ''token'' k then map_option (\<lambda>s. r\<lparr>LToken := s\<rparr>) (decode_string v (LToken r))
      else if field_is ''tokenType'' k then map_option (\<lambda>s. r\<lparr>TokenType := s\<rparr>) (decode_string v (TokenType r))
      else Some r)"

definition store_tracker :: "string \<Rightarrow> json \<Rightarrow> tracker_response \<Rightarrow> tracker_response option" where
  "store_tracker k v r =
     (if field_is ''deviceName'' k then map_option (\<lambda>s. r\<lparr>DeviceName := s\<rparr>) (decode_string v (DeviceName r))
      else if field_is ''registered'' k then map_option (\<lambda>b. r\<lparr>Registered := b\<rparr>) (decode_bool v (Registered r))
      else Some r)"

text \<open>\<open>io.ReadAll(io.LimitReader(body, 1<<20))\<close>.\<close>

definition read_limited :: "string \<Rightarrow> string" where
  "read_limited s = (if int (length s) \<le> 1048576 then s else take 1048576 s)"

definition login_endpoint :: "paapeli_config \<Rightarrow> string" where
  "login_endpoint cfg = strings_TrimRight (BaseURL cfg) CHR ''/'' @ ''/api/v1/aiot/auth/login''"

definition tracker_endpoint :: "paapeli_config \<Rightarrow> string \<Rightarrow> string" where
  "tracker_endpoint cfg imei = strings_TrimRight (BaseURL cfg) CHR ''/'' @ ''/internal/tracker/'' @ imei"

definition login_url :: "paapeli \<Rightarrow> string" where
  "login_url p = login_endpoint (PCfg p)"

definition tracker_url :: "paapeli \<Rightarrow> string \<Rightarrow> string" where
  "tracker_url p imei = tracker_endpoint (PCfg p) imei"

text \<open>The two requests of the client.\<close>

definition login_payload :: "paapeli_config \<Rightarrow> any" where
  "login_payload cfg = AMap [(''username'', AString (Username cfg)), (''password'', AString (PaapeliPassword cfg))]"

definition login_request :: "paapeli_config \<Rightarrow> http_request" where
  "login_request cfg = \<lparr>Method = ''POST'', ReqURL = login_endpoint cfg,
     Headers = [(''Content-Type'', ''application/json''), (''Accept'', ''application/json'')],
     ReqBody = Some (login_payload cfg)\<rparr>"

definition tracker_request :: "paapeli_config \<Rightarrow> string \<Rightarrow> string \<Rightarrow> http_request" where
  "tracker_request cfg imei token = \<lparr>Method = ''GET'', ReqURL = tracker_endpoint cfg imei,
     Headers = [(''Authorization'', ''Bearer '' @ token), (''Accept'', ''application/json'')], ReqBody = None\<rparr>"

definition decode_login :: "string \<Rightarrow> login_response option" where
  "decode_login body = json_Unmarshal body \<bind> decode_struct store_login \<lparr>LToken = '''', TokenType = ''''\<rparr>"

text \<open>What \<open>login\<close> makes of a response.\<close>

definition login_answer :: "http_response \<Rightarrow> reg_error + string" where
  "login_answer r =
     (let body = read_limited (RespBody r) in
      if StatusCode r < 200 \<or> StatusCode r \<ge> 300 then Inl (LoginHTTP (StatusCode r) (truncate_str body 200))
      else
        (case decode_login body of
           None \<Rightarrow> Inl LoginDecode
         | Some out \<Rightarrow> if LToken out = '''' then Inl LoginEmptyToken else Inr (LToken out)))"

definition login :: "env \<Rightarrow> paapeli \<Rightarrow> io \<Rightarrow> (reg_error + string) \<times> paapeli \<times> io" where
  "login env p io =
     (if \<not> url_ok env (login_url p) then (Inl (BadURL (login_url p)), p, io)
      else
        let (resp, io) = http_Do env (login_request (PCfg p)) io in
        (case resp of
           Inl err \<Rightarrow> (Inl (HttpFailed err), p, io)
         | Inr r \<Rightarrow>
             (case login_answer r of
                Inl err \<Rightarrow> (Inl err, p, io)
              | Inr token \<Rightarrow> (Inr token, p\<lparr>Token := token\<rparr>, io))))"

definition ensureToken :: "env \<Rightarrow> paapeli \<Rightarrow> io \<Rightarrow> (reg_error + string) \<times> paapeli \<times> io" where
  "ensureToken env p io = (if Token p \<noteq> '''' then (Inr (Token p), p, io) else login env p io)"

definition invalidateToken :: "paapeli \<Rightarrow> paapeli" where
  "invalidateToken p = p\<lparr>Token := ''''\<rparr>"

definition decode_tracker :: "string \<Rightarrow> tracker_response option" where
  "decode_tracker body =
     json_Unmarshal body \<bind> decode_struct store_tracker \<lparr>DeviceName = '''', Registered = False\<rparr>"

text \<open>What \<open>fetch\<close> makes of a response that does not make it try again.\<close>

definition tracker_answer :: "http_response \<Rightarrow> reg_error + bool" where
  "tracker_answer r =
     (if StatusCode r = 404 then Inr False
      else if StatusCode r < 200 \<or> StatusCode r \<ge> 300
      then Inl (TrackerHTTP (StatusCode r) (truncate_str (read_limited (RespBody r)) 200))
      else
        (case decode_tracker (read_limited (RespBody r)) of
           None \<Rightarrow> Inl TrackerDecode
         | Some out \<Rightarrow> Inr (Registered out)))"

text \<open>The lookup, which logs in again and retries once when the token is refused.\<close>

function fetch :: "env \<Rightarrow> string \<Rightarrow> bool \<Rightarrow> paapeli \<Rightarrow> io \<Rightarrow> (reg_error + bool) \<times> paapeli \<times> io" where
  "fetch env imei allowRetry p io =
     (case ensureToken env p io of (tok, p, io) \<Rightarrow>
        (case tok of
           Inl err \<Rightarrow> (Inl err, p, io)
         | Inr token \<Rightarrow>
             (if \<not> url_ok env (tracker_url p imei) then (Inl (BadURL (tracker_url p imei)), p, io)
              else
                (case http_Do env (tracker_request (PCfg p) imei token) io of (resp, io) \<Rightarrow>
                  (case resp of
                     Inl err \<Rightarrow> (Inl (HttpFailed err), p, io)
                   | Inr r \<Rightarrow>
                       (if StatusCode r = 401 \<and> allowRetry then fetch env imei False (invalidateToken p) io
                        else (tracker_answer r, p, io)))))))"
  by pat_completeness auto
termination
  by (relation "measure (\<lambda>(env, imei, allowRetry, p, io). if allowRetry then 1 else 0)") auto

declare fetch.simps [simp del]

definition cacheGet :: "env \<Rightarrow> string \<Rightarrow> paapeli \<Rightarrow> io \<Rightarrow> (bool \<times> bool) \<times> io" where
  "cacheGet env imei p io =
     (case Cache p imei of
        None \<Rightarrow> ((False, False), io)
      | Some e \<Rightarrow>
          let (t, io) = time_Now env io in
          if t > expires e then ((False, False), io) else ((registered e, True), io))"

definition cache_ttl :: "paapeli_config \<Rightarrow> bool \<Rightarrow> int" where
  "cache_ttl cfg reg =
     (let ttl = (if reg then PositiveTTL cfg else NegativeTTL cfg) in
      if ttl \<le> 0 then (if reg then 30 * minute else 60 * second) else ttl)"

definition cacheSet :: "env \<Rightarrow> string \<Rightarrow> bool \<Rightarrow> paapeli \<Rightarrow> io \<Rightarrow> paapeli \<times> io" where
  "cacheSet env imei reg p io =
     (let ttl = cache_ttl (PCfg p) reg;
          (t, io) = time_Now env io in
      (p\<lparr>Cache := (Cache p)(imei \<mapsto> \<lparr>registered = reg, expires = t + ttl\<rparr>)\<rparr>, io))"

definition paapeli_IsRegistered :: "env \<Rightarrow> string \<Rightarrow> paapeli \<Rightarrow> io \<Rightarrow> bool \<times> paapeli \<times> io" where
  "paapeli_IsRegistered env imei p io =
     (if imei = '''' then (False, p, io)
      else
        let ((reg, ok), io) = cacheGet env imei p io in
        if ok then (reg, p, io)
        else
          (case fetch env imei True p io of
             (Inl err, p, io) \<Rightarrow> (False, p, io)
           | (Inr reg, p, io) \<Rightarrow> let (p, io) = cacheSet env imei reg p io in (reg, p, io)))"

text \<open>The interface \<open>registry.Registry\<close>, dispatched on its two implementations.\<close>

fun reg_Enabled :: "registry \<Rightarrow> bool" where
  "reg_Enabled AllowAll = False"
| "reg_Enabled (Paapeli p) = True"

fun reg_IsRegistered :: "env \<Rightarrow> string \<Rightarrow> registry \<Rightarrow> io \<Rightarrow> bool \<times> registry \<times> io" where
  "reg_IsRegistered env imei AllowAll io = (True, AllowAll, io)"
| "reg_IsRegistered env imei (Paapeli p) io =
     (let (b, p, io) = paapeli_IsRegistered env imei p io in (b, Paapeli p, io))"

section \<open>What a lookup leaves alone, and what it costs\<close>

text \<open>\<open>asks n io io'\<close>: only HTTP requests were made, at most \<open>n\<close>.\<close>

definition asks :: "nat \<Rightarrow> io \<Rightarrow> io \<Rightarrow> bool" where
  "asks n io io' \<longleftrightarrow> extends is_request io io' \<and> count_events is_request io' \<le> count_events is_request io + n"

lemma asks_refl [simp]: "asks n io io"
  by (simp add: asks_def)

lemma asks_trans: "asks m a b \<Longrightarrow> asks n b c \<Longrightarrow> asks (m + n) a c"
  by (auto simp: asks_def intro: extends_trans)

lemma asks_mono: "asks m a b \<Longrightarrow> m \<le> n \<Longrightarrow> asks n a b"
  by (simp add: asks_def)

lemma asks_http: "http_Do env req io = (r, io') \<Longrightarrow> asks 1 io io'"
  by (auto simp: asks_def http_Do_def extends_log_tick)

definition same_cfg :: "paapeli \<Rightarrow> paapeli \<Rightarrow> bool" where
  "same_cfg p p' \<longleftrightarrow> PCfg p' = PCfg p \<and> Cache p' = Cache p"

lemma same_cfg_refl [simp]: "same_cfg p p"
  by (simp add: same_cfg_def)

lemma same_cfg_url: "same_cfg p p' \<Longrightarrow> tracker_url p' = tracker_url p"
  by (simp add: same_cfg_def tracker_url_def fun_eq_iff)

lemma same_cfg_token [simp]: "same_cfg p (p\<lparr>Token := t\<rparr>)" "same_cfg p (invalidateToken p)"
  by (simp_all add: same_cfg_def invalidateToken_def)

lemma same_cfg_trans: "same_cfg a b \<Longrightarrow> same_cfg b c \<Longrightarrow> same_cfg a c"
  by (simp add: same_cfg_def)

lemma login_answer_token: "login_answer r = Inr t \<Longrightarrow> t \<noteq> ''''"
  by (auto simp: login_answer_def Let_def split: if_splits option.splits)

lemma login_facts:
  assumes "login env p io = (r, p', io')"
  shows "asks 1 io io' \<and> same_cfg p p' \<and> (\<forall>t. r = Inr t \<longrightarrow> t \<noteq> '''' \<and> Token p' = t)"
proof (cases "url_ok env (login_url p)")
  case True
  obtain resp io1 where h: "http_Do env (login_request (PCfg p)) io = (resp, io1)" by fastforce
  from assms True h have "io' = io1" "same_cfg p p' \<and> (\<forall>t. r = Inr t \<longrightarrow> t \<noteq> '''' \<and> Token p' = t)"
    by (auto simp: login_def split: sum.splits dest: login_answer_token)
  with asks_http [OF h] show ?thesis by simp
qed (use assms in \<open>auto simp: login_def\<close>)

lemma ensureToken_facts:
  assumes "ensureToken env p io = (r, p', io')"
  shows "asks 1 io io' \<and> same_cfg p p' \<and> (\<forall>t. r = Inr t \<longrightarrow> t \<noteq> '''' \<and> Token p' = t)"
  using assms login_facts [of env p io r p' io']
  by (auto simp: ensureToken_def split: if_splits)

text \<open>The response that makes an IMEI registered.\<close>

definition confirms :: "http_response \<Rightarrow> bool" where
  "confirms r \<longleftrightarrow> 200 \<le> StatusCode r \<and> StatusCode r < 300 \<and>
     (case decode_tracker (read_limited (RespBody r)) of None \<Rightarrow> False | Some out \<Rightarrow> Registered out)"

definition confirmed :: "env \<Rightarrow> string \<Rightarrow> bool" where
  "confirmed env url \<longleftrightarrow> (\<exists>k req r. ReqURL req = url \<and> http_do env k req = Inr r \<and> confirms r)"

text \<open>A confirmation not older than the moment \<open>n\<close>.\<close>

definition confirmed_since :: "env \<Rightarrow> nat \<Rightarrow> string \<Rightarrow> bool" where
  "confirmed_since env n url \<longleftrightarrow> (\<exists>k \<ge> n. \<exists>req r. ReqURL req = url \<and> http_do env k req = Inr r \<and> confirms r)"

lemma confirmed_since_confirmed: "confirmed_since env n url \<Longrightarrow> confirmed env url"
  by (auto simp: confirmed_since_def confirmed_def)

lemma confirmed_since_mono: "confirmed_since env n url \<Longrightarrow> m \<le> n \<Longrightarrow> confirmed_since env m url"
  unfolding confirmed_since_def using order_trans by blast

lemma tracker_answer_confirms: "tracker_answer r = Inr True \<longleftrightarrow> confirms r"
  by (auto simp: tracker_answer_def confirms_def split: option.splits)

text \<open>One attempt of the lookup: the answer, or \<open>None\<close> for "refused, try again".\<close>

lemma fetch_cases:
  assumes "ensureToken env p io = (tok, p1, io1)"
  shows "fetch env imei allowRetry p io =
    (case tok of Inl err \<Rightarrow> (Inl err, p1, io1)
     | Inr token \<Rightarrow>
        if \<not> url_ok env (tracker_url p1 imei) then (Inl (BadURL (tracker_url p1 imei)), p1, io1)
        else
          let (resp, io2) = http_Do env (tracker_request (PCfg p1) imei token) io1 in
          (case resp of Inl err \<Rightarrow> (Inl (HttpFailed err), p1, io2)
           | Inr r \<Rightarrow>
              if StatusCode r = 401 \<and> allowRetry then fetch env imei False (invalidateToken p1) io2
              else (tracker_answer r, p1, io2)))"
  by (subst fetch.simps) (simp add: assms Let_def split: sum.split prod.split)

lemma fetch_step:
  assumes f: "fetch env imei allowRetry p io = (res, p', io')"
    and retry: "\<And>p1 io2. allowRetry \<Longrightarrow> fetch env imei False p1 io2 = (res, p', io') \<Longrightarrow>
      asks n io2 io' \<and> same_cfg p1 p' \<and> (res = Inr True \<longrightarrow> confirmed_since env (Tick io2) (tracker_url p1 imei))"
  shows "asks (2 + n) io io' \<and> same_cfg p p' \<and> (res = Inr True \<longrightarrow> confirmed_since env (Tick io) (tracker_url p imei))"
proof -
  obtain tok p1 io1 where t: "ensureToken env p io = (tok, p1, io1)" by (cases "ensureToken env p io")
  note tf = ensureToken_facts [OF t]
  have u: "tracker_url p1 imei = tracker_url p imei" using tf same_cfg_url by metis
  show ?thesis
  proof (cases tok)
    case (Inl err)
    then have "io' = io1" "p' = p1" "res \<noteq> Inr True" using f by (auto simp: fetch_cases [OF t])
    with tf show ?thesis by (auto intro: asks_mono)
  next
    case (Inr token)
    show ?thesis
    proof (cases "url_ok env (tracker_url p1 imei)")
      case False
      then have "io' = io1" "p' = p1" "res \<noteq> Inr True" using f Inr by (auto simp: fetch_cases [OF t])
      with tf show ?thesis by (auto intro: asks_mono)
    next
      case ok: True
      define req where "req = tracker_request (PCfg p1) imei token"
      obtain resp io2 where h: "http_Do env req io1 = (resp, io2)" by (cases "http_Do env req io1")
      have "asks 1 io io1" using tf by blast
      from asks_trans [OF this asks_http [OF h]] have a: "asks 2 io io2" by (simp add: numeral_2_eq_2)
      have resp: "resp = http_do env (Tick io1) req" using h by (simp add: http_Do_def)
      consider (again) r where "resp = Inr r" "StatusCode r = 401" allowRetry
        | (finished) "io' = io2" "p' = p1" "res = Inr True \<longrightarrow> (\<exists>r. resp = Inr r \<and> confirms r)"
        using f Inr ok h [unfolded req_def]
        by (auto simp: fetch_cases [OF t] tracker_answer_confirms split: sum.splits if_splits)
      then show ?thesis
      proof cases
        case again
        then have "fetch env imei False (invalidateToken p1) io2 = (res, p', io')"
          using f Inr ok h [unfolded req_def] by (simp add: fetch_cases [OF t])
        with retry again have r: "asks n io2 io'" "same_cfg (invalidateToken p1) p'"
          "res = Inr True \<longrightarrow> confirmed_since env (Tick io2) (tracker_url (invalidateToken p1) imei)" by blast+
        have "same_cfg p p'"
          using tf r(2) same_cfg_token(2) same_cfg_trans by blast
        moreover have "tracker_url (invalidateToken p1) imei = tracker_url p imei"
          using u same_cfg_url [OF same_cfg_token(2) [of p1]] by metis
        moreover have "asks (2 + n) io io'" using asks_trans [OF a r(1)] by simp
        moreover have "Tick io \<le> Tick io2" using a by (simp add: asks_def extends_def)
        ultimately show ?thesis using r(3) confirmed_since_mono by auto
      next
        case finished
        have "res = Inr True \<longrightarrow> confirmed_since env (Tick io) (tracker_url p imei)"
        proof
          assume "res = Inr True"
          with finished(3) resp obtain r where "http_do env (Tick io1) req = Inr r" "confirms r" by auto
          moreover have "ReqURL req = tracker_url p imei" using u by (simp add: req_def tracker_request_def tracker_url_def)
          moreover have "Tick io \<le> Tick io1" using tf by (simp add: asks_def extends_def)
          ultimately show "confirmed_since env (Tick io) (tracker_url p imei)" unfolding confirmed_since_def by blast
        qed
        with finished tf a show ?thesis by (auto intro: asks_mono)
      qed
    qed
  qed
qed

lemma fetch_fresh:
  assumes "fetch env imei allowRetry p io = (res, p', io')"
  shows "asks 4 io io' \<and> same_cfg p p' \<and> (res = Inr True \<longrightarrow> confirmed_since env (Tick io) (tracker_url p imei))"
proof -
  have once: "asks 2 io io' \<and> same_cfg p p' \<and> (res = Inr True \<longrightarrow> confirmed_since env (Tick io) (tracker_url p imei))"
    if "fetch env imei False p io = (res, p', io')" for p io
    using fetch_step [OF that, of 0] by simp
  show ?thesis
  proof (cases allowRetry)
    case True
    have "asks (2 + 2) io io' \<and> same_cfg p p' \<and> (res = Inr True \<longrightarrow> confirmed_since env (Tick io) (tracker_url p imei))"
      by (rule fetch_step [OF assms]) (rule once)
    then show ?thesis by simp
  next
    case False
    with assms once asks_mono [of 2 io io' 4] show ?thesis by auto
  qed
qed

lemma fetch_facts:
  assumes "fetch env imei allowRetry p io = (res, p', io')"
  shows "asks 4 io io' \<and> same_cfg p p' \<and> (res = Inr True \<longrightarrow> confirmed env (tracker_url p imei))"
  using fetch_fresh [OF assms] confirmed_since_confirmed by blast

section \<open>The cache\<close>

lemma cacheGet_facts:
  assumes "cacheGet env imei p io = ((reg, ok), io')"
  shows "asks 0 io io'" "ok \<Longrightarrow> \<exists>e. Cache p imei = Some e \<and> registered e = reg \<and> now env (Tick io) \<le> expires e"
  using assms
  by (auto simp: cacheGet_def time_Now_def asks_def extends_tick Let_def split: option.splits if_splits)

lemma cacheSet_facts:
  assumes "cacheSet env imei reg p io = (p', io')"
  shows "asks 0 io io'" "PCfg p' = PCfg p" "Token p' = Token p"
    "Cache p' = (Cache p)(imei \<mapsto> \<lparr>registered = reg, expires = now env (Tick io) + cache_ttl (PCfg p) reg\<rparr>)"
  using assms by (auto simp: cacheSet_def time_Now_def asks_def extends_tick Let_def)

text \<open>
  The four ways a lookup goes: no IMEI, a fresh cache entry, a failed lookup, an answer that
  goes into the cache.
\<close>

lemma lookup_cases:
  assumes "paapeli_IsRegistered env imei p io = (b, p', io')"
  obtains (empty) "imei = ''''" "\<not> b" "p' = p" "io' = io"
  | (cached) e where "imei \<noteq> ''''" "Cache p imei = Some e" "b = registered e" "now env (Tick io) \<le> expires e"
      "p' = p" "asks 0 io io'"
  | (failed) "imei \<noteq> ''''" "\<not> b" "same_cfg p p'" "asks 4 io io'"
  | (answered) p1 io1 where "imei \<noteq> ''''" "b \<Longrightarrow> confirmed env (tracker_url p imei)" "same_cfg p p1"
      "cacheSet env imei b p1 io1 = (p', io')" "asks 4 io io1"
proof (cases "imei = ''''")
  case True
  with assms empty show ?thesis by (simp add: paapeli_IsRegistered_def)
next
  case False
  obtain reg ok io1 where g: "cacheGet env imei p io = ((reg, ok), io1)"
    by (metis prod.exhaust)
  show ?thesis
  proof (cases ok)
    case True
    with assms False g have "b = reg" "p' = p" "io' = io1" by (simp_all add: paapeli_IsRegistered_def)
    with cached cacheGet_facts [OF g] True False show ?thesis by blast
  next
    case nok: False
    obtain res p1 io2 where f: "fetch env imei True p io1 = (res, p1, io2)" by (metis prod.exhaust)
    note ff = fetch_facts [OF f]
    have a: "asks 4 io io2" using asks_trans [OF cacheGet_facts(1) [OF g]] ff by fastforce
    show ?thesis
    proof (cases res)
      case (Inl err)
      with assms False g nok f have "\<not> b" "p' = p1" "io' = io2" by (simp_all add: paapeli_IsRegistered_def)
      with failed False ff a show ?thesis by blast
    next
      case (Inr r)
      with assms False g nok f have "b = r" "cacheSet env imei b p1 io2 = (p', io')"
        by (auto simp: paapeli_IsRegistered_def split: prod.splits)
      with answered False ff a Inr show ?thesis by blast
    qed
  qed
qed

text \<open>The invariant of the cache: every positive entry was confirmed by a response.\<close>

definition trusted :: "env \<Rightarrow> registry \<Rightarrow> bool" where
  "trusted env r \<longleftrightarrow> (case r of AllowAll \<Rightarrow> True
     | Paapeli p \<Rightarrow> \<forall>i e. Cache p i = Some e \<and> registered e \<longrightarrow> confirmed env (tracker_url p i))"

lemma trusted_New: "trusted env (New_registry cfg)"
  by (simp add: trusted_def New_registry_def)

text \<open>What the server relies on in any registry.\<close>

lemma reg_lookup_facts:
  assumes "reg_IsRegistered env imei r io = (b, r', io')"
  shows "asks 4 io io' \<and> reg_Enabled r' = reg_Enabled r \<and> (trusted env r \<longrightarrow> trusted env r') \<and>
    (reg_Enabled r \<longrightarrow> imei = '''' \<longrightarrow> \<not> b)"
proof (cases r)
  case AllowAll
  with assms show ?thesis by simp
next
  case (Paapeli p)
  obtain p' where l: "paapeli_IsRegistered env imei p io = (b, p', io')" and r': "r' = Paapeli p'"
    using assms Paapeli by (auto split: prod.splits)
  from l show ?thesis
  proof (cases rule: lookup_cases)
    case empty
    then show ?thesis using Paapeli r' by simp
  next
    case (cached e)
    with asks_mono [of 0 io io' 4] show ?thesis using Paapeli r' by simp
  next
    case failed
    then show ?thesis using Paapeli r' same_cfg_url [OF failed(3)] by (simp add: trusted_def same_cfg_def)
  next
    case (answered p1 io1)
    note s = cacheSet_facts [OF answered(4)]
    have "asks 4 io io'" using asks_trans [OF answered(5) s(1)] by simp
    moreover have u: "tracker_url p' = tracker_url p"
      using s(2) answered(3) by (simp add: tracker_url_def same_cfg_def fun_eq_iff)
    ultimately show ?thesis
      using Paapeli r' s(4) answered by (auto simp: trusted_def same_cfg_def)
  qed
qed

text \<open>The kind and the configuration of a registry never change.\<close>

fun same_reg :: "registry \<Rightarrow> registry \<Rightarrow> bool" where
  "same_reg AllowAll r \<longleftrightarrow> r = AllowAll"
| "same_reg (Paapeli p) r \<longleftrightarrow> (\<exists>p'. r = Paapeli p' \<and> PCfg p' = PCfg p)"

lemma same_reg_refl [simp]: "same_reg r r"
  by (cases r) simp_all

lemma same_reg_trans: "same_reg a b \<Longrightarrow> same_reg b c \<Longrightarrow> same_reg a c"
  by (cases a) auto

lemma reg_lookup_same:
  assumes "reg_IsRegistered env imei r io = (b, r', io')"
  shows "same_reg r r'"
proof (cases r)
  case (Paapeli p)
  obtain p' where l: "paapeli_IsRegistered env imei p io = (b, p', io')" and r': "r' = Paapeli p'"
    using assms Paapeli by (auto split: prod.splits)
  from l show ?thesis
    by (cases rule: lookup_cases) (use Paapeli r' cacheSet_facts(2) in \<open>auto simp: same_cfg_def\<close>)
qed (use assms in simp)

text \<open>Who may use the uplink: everybody without checks, otherwise the confirmed IMEIs.\<close>

definition licensed :: "env \<Rightarrow> registry \<Rightarrow> string \<Rightarrow> bool" where
  "licensed env r imei \<longleftrightarrow> imei \<noteq> '''' \<and>
     (case r of AllowAll \<Rightarrow> True | Paapeli p \<Rightarrow> confirmed env (tracker_url p imei))"

lemma licensed_same: "same_reg r r' \<Longrightarrow> licensed env r' imei = licensed env r imei"
  by (cases r) (auto simp: licensed_def tracker_url_def)

lemma lookup_licenses:
  assumes "reg_IsRegistered env imei r io = (True, r', io')" "trusted env r" "imei \<noteq> ''''"
  shows "licensed env r imei"
proof (cases r)
  case (Paapeli p)
  obtain p' where l: "paapeli_IsRegistered env imei p io = (True, p', io')"
    using assms(1) Paapeli by (auto split: prod.splits)
  then have "confirmed env (tracker_url p imei)"
    by (cases rule: lookup_cases) (use assms(2) Paapeli in \<open>auto simp: trusted_def\<close>)
  with Paapeli assms(3) show ?thesis by (simp add: licensed_def)
qed (use assms in \<open>simp add: licensed_def\<close>)

section \<open>The interface\<close>

text \<open>
  \<open>registry.Registry\<close> as its clients see it. A lookup makes requests and nothing else, at
  most four; it does not change whether checks are active; and with checks active an empty
  IMEI is not registered.
\<close>

locale registry_interface =
  fixes enabled :: "'r \<Rightarrow> bool"
    and lookup :: "string \<Rightarrow> 'r \<Rightarrow> io \<Rightarrow> bool \<times> 'r \<times> io"
    and good :: "'r \<Rightarrow> bool"
  assumes cost: "lookup imei r io = (b, r', io') \<Longrightarrow> asks 4 io io'"
    and stable: "lookup imei r io = (b, r', io') \<Longrightarrow> enabled r' = enabled r"
    and keeps: "lookup imei r io = (b, r', io') \<Longrightarrow> good r \<Longrightarrow> good r'"
    and empty_closed: "lookup imei r io = (b, r', io') \<Longrightarrow> enabled r \<Longrightarrow> imei = '''' \<Longrightarrow> \<not> b"

interpretation paapeli_registry: registry_interface reg_Enabled "reg_IsRegistered env" "trusted env" for env
  by unfold_locales (use reg_lookup_facts in blast)+

text \<open>A lookup after a refused token.\<close>

lemma login_ok:
  assumes "url_ok env (login_url p)" "\<And>req. http_do env (Tick io) req = Inr r"
    and "200 \<le> StatusCode r" "StatusCode r < 300"
    and "decode_login (read_limited (RespBody r)) = Some out" "LToken out \<noteq> ''''"
  shows "\<exists>io1. login env p io = (Inr (LToken out), p\<lparr>Token := LToken out\<rparr>, io1) \<and> Tick io1 = Suc (Tick io)"
  using assms
  by (auto simp: login_def login_answer_def http_Do_def log_def tick_def Let_def)

lemma fetch_retry:
  assumes "Token p \<noteq> ''''" "url_ok env (tracker_url p imei)" "url_ok env (login_url p)"
    and "\<And>req. http_do env (Tick io) req = Inr r1" "StatusCode r1 = 401"
    and "\<And>req. http_do env (Suc (Tick io)) req = Inr r2" "200 \<le> StatusCode r2" "StatusCode r2 < 300"
    and "decode_login (read_limited (RespBody r2)) = Some out" "LToken out \<noteq> ''''"
    and "\<And>req. http_do env (Suc (Suc (Tick io))) req = Inr r3" "confirms r3"
  shows "\<exists>io1. fetch env imei True p io = (Inr True, p\<lparr>Token := LToken out\<rparr>, io1)"
proof -
  define io1 where "io1 = log (Requested (tracker_request (PCfg p) imei (Token p))) (tick io)"
  have t1: "Tick io1 = Suc (Tick io)" by (simp add: io1_def log_def tick_def)
  have "ensureToken env p io = (Inr (Token p), p, io)" using assms(1) by (simp add: ensureToken_def)
  then have first: "fetch env imei True p io = fetch env imei False (invalidateToken p) io1"
    using assms(2,4,5) by (simp add: fetch_cases http_Do_def io1_def)
  have "login_url (invalidateToken p) = login_url p" "tracker_url (p\<lparr>Token := t\<rparr>) imei = tracker_url p imei" for t
    by (simp_all add: login_url_def tracker_url_def invalidateToken_def)
  note urls = this
  obtain io2 where "login env (invalidateToken p) io1 = (Inr (LToken out), (invalidateToken p)\<lparr>Token := LToken out\<rparr>, io2)"
    and t2: "Tick io2 = Suc (Suc (Tick io))"
    using login_ok [of env "invalidateToken p" io1 r2 out] assms(3,6-10) t1 urls(1) by auto
  then have "ensureToken env (invalidateToken p) io1 = (Inr (LToken out), p\<lparr>Token := LToken out\<rparr>, io2)"
    by (simp add: ensureToken_def invalidateToken_def)
  from fetch_cases [OF this, of imei False] first assms(2,11,12) t2 urls(2) show ?thesis
    by (auto simp: http_Do_def confirms_def tracker_answer_def split: option.splits)
qed

text \<open>A lookup that finds an entry in the cache, before and after its end.\<close>

lemma lookup_fresh:
  assumes "imei \<noteq> ''''" "Cache q imei = Some \<lparr>registered = reg, expires = t\<rparr>" "now env (Tick io) \<le> t"
  shows "paapeli_IsRegistered env imei q io = (reg, q, tick io)"
  using assms by (simp add: paapeli_IsRegistered_def cacheGet_def time_Now_def)

lemma lookup_expired:
  assumes "imei \<noteq> ''''" "Cache q imei = Some \<lparr>registered = reg, expires = t\<rparr>" "t < now env (Tick io)"
  shows "case paapeli_IsRegistered env imei q io of (b, q', io') \<Rightarrow>
    (b \<longrightarrow> confirmed_since env (Tick io) (tracker_url q imei)) \<and>
    (\<forall>r. Token q \<noteq> '''' \<and> url_ok env (tracker_url q imei) \<and> confirms r \<and>
      http_do env (Suc (Tick io)) (tracker_request (PCfg q) imei (Token q)) = Inr r \<longrightarrow> b)"
proof -
  obtain res q1 io1 where f: "fetch env imei True q (tick io) = (res, q1, io1)" by (metis prod.exhaust)
  have l: "fst (paapeli_IsRegistered env imei q io) \<longleftrightarrow> res = Inr True"
    using assms f by (auto simp: paapeli_IsRegistered_def cacheGet_def time_Now_def split: sum.split prod.split)
  have "confirmed_since env (Tick io) (tracker_url q imei)" if "res = Inr True"
    using that fetch_fresh [OF f] confirmed_since_mono [of env "Tick (tick io)" _ "Tick io"] by (simp add: tick_def)
  moreover have "res = Inr True" if "Token q \<noteq> ''''" "url_ok env (tracker_url q imei)" "confirms r"
      "http_do env (Suc (Tick io)) (tracker_request (PCfg q) imei (Token q)) = Inr r" for r
  proof -
    have "ensureToken env q (tick io) = (Inr (Token q), q, tick io)" using that(1) by (simp add: ensureToken_def)
    from fetch_cases [OF this, of imei True] f that tracker_answer_confirms [of r] show ?thesis
      by (auto simp: http_Do_def tick_def confirms_def)
  qed
  ultimately show ?thesis using l by (cases "paapeli_IsRegistered env imei q io") auto
qed

section \<open>Properties\<close>

text \<open>C13. Claim before uplink, at its source. A new registry trusts nobody; whatever the back end
  and the network do, a lookup says yes only for an IMEI that some response of the tracker
  endpoint for that IMEI confirmed (status 2xx, \<open>registered\<close> true), and this stays so: errors
  of every kind fail closed.\<close>

theorem registered_only_if_confirmed:
  assumes "trusted env (Paapeli p)" "reg_IsRegistered env imei (Paapeli p) io = (b, r', io')"
  shows "trusted env (New_registry cfg) \<and> trusted env r' \<and>
    (b \<longrightarrow> imei \<noteq> '''' \<and> confirmed env (tracker_url p imei))"
proof -
  obtain p' where l: "paapeli_IsRegistered env imei p io = (b, p', io')"
    using assms(2) by (auto split: prod.splits)
  have "b \<longrightarrow> imei \<noteq> '''' \<and> confirmed env (tracker_url p imei)"
    using l by (cases rule: lookup_cases) (use assms(1) in \<open>auto simp: trusted_def\<close>)
  then show ?thesis using reg_lookup_facts [OF assms(2)] assms(1) trusted_New by blast
qed

text \<open>C28. A lookup costs at most four HTTP requests (a login and a query, each once more after
  a refused token) and none when the cache answers; and it changes no other IMEI's entry.\<close>

theorem lookup_cost_and_frame:
  assumes "paapeli_IsRegistered env imei p io = (b, p', io')"
  shows "asks 4 io io' \<and> (\<forall>i. i \<noteq> imei \<longrightarrow> Cache p' i = Cache p i) \<and>
    (\<forall>e. Cache p imei = Some e \<and> now env (Tick io) \<le> expires e \<longrightarrow> asks 0 io io' \<and> p' = p)"
  using assms
proof (cases rule: lookup_cases)
  case (cached e)
  then show ?thesis using asks_mono [of 0 io io' 4] by simp
next
  case failed
  moreover have "\<not> (Cache p imei = Some e \<and> now env (Tick io) \<le> expires e)" if "\<not> (asks 0 io io' \<and> p' = p)" for e
    using assms that cacheGet_facts(1) [of env imei p io "registered e" True] failed(1)
    by (auto simp: paapeli_IsRegistered_def cacheGet_def time_Now_def)
  ultimately show ?thesis by (auto simp: same_cfg_def)
next
  case (answered p1 io1)
  have "asks 4 io io'" using asks_trans [OF answered(5) cacheSet_facts(1) [OF answered(4)]] by simp
  moreover have "\<not> (Cache p imei = Some e \<and> now env (Tick io) \<le> expires e)" if "\<not> (asks 0 io io' \<and> p' = p)" for e
    using assms that cacheGet_facts(1) [of env imei p io "registered e" True] answered(1)
    by (auto simp: paapeli_IsRegistered_def cacheGet_def time_Now_def)
  ultimately show ?thesis using cacheSet_facts(4) [OF answered(4)] answered(3) by (auto simp: same_cfg_def)
qed simp

text \<open>C26. Answers live for their time to live and no longer. After a lookup that the back end
  answered, every lookup until \<open>positive_ttl\<close> (for registered) or \<open>negative_ttl\<close> (for not
  registered) has passed since that answer, 30 minutes and 60 seconds when they are not
  configured, gives the same answer without a request and without a change of the client,
  whatever other IMEIs were looked up. Once that time has passed, a revoked IMEI is noticed: yes
  needs a confirmation that the back end gives from then on; and a claimed one is: a
  confirmation of the query with the stored token gives yes.\<close>

theorem answer_served_until_expiry:
  assumes "imei \<noteq> ''''" "cacheGet env imei p io = ((old, False), io1)" "fetch env imei True p io1 = (Inr reg, p1, io2)"
  shows "\<exists>p' io'. paapeli_IsRegistered env imei p io = (reg, p', io') \<and>
    (let lifetime =
        (if reg then (if PositiveTTL (PCfg p) > 0 then PositiveTTL (PCfg p) else 30 * 60 * 1000000000)
         else (if NegativeTTL (PCfg p) > 0 then NegativeTTL (PCfg p) else 60 * 1000000000)) in
     \<forall>q io3. Cache q imei = Cache p' imei \<longrightarrow>
       (if now env (Tick io3) \<le> now env (Tick io2) + lifetime
        then paapeli_IsRegistered env imei q io3 = (reg, q, tick io3)
        else
          (case paapeli_IsRegistered env imei q io3 of (b, q', io4) \<Rightarrow>
            (b \<longrightarrow> confirmed_since env (Tick io3) (tracker_url q imei)) \<and>
            (\<forall>r. Token q \<noteq> '''' \<and> url_ok env (tracker_url q imei) \<and> confirms r \<and>
              http_do env (Suc (Tick io3)) (tracker_request (PCfg q) imei (Token q)) = Inr r \<longrightarrow> b))))"
proof -
  obtain p' io' where s: "cacheSet env imei reg p1 io2 = (p', io')" by fastforce
  have l: "paapeli_IsRegistered env imei p io = (reg, p', io')"
    using assms s by (simp add: paapeli_IsRegistered_def)
  have "PCfg p1 = PCfg p" using fetch_facts [OF assms(3)] by (simp add: same_cfg_def)
  then have e: "Cache p' imei = Some \<lparr>registered = reg, expires = now env (Tick io2) +
      (if reg then (if PositiveTTL (PCfg p) > 0 then PositiveTTL (PCfg p) else 30 * 60 * 1000000000)
       else (if NegativeTTL (PCfg p) > 0 then NegativeTTL (PCfg p) else 60 * 1000000000))\<rparr>"
    using cacheSet_facts(4) [OF s] by (simp add: cache_ttl_def minute_def second_def not_less)
  show ?thesis
    by (rule exI [of _ p'], rule exI [of _ io']) (use l e assms(1) lookup_fresh lookup_expired in \<open>auto simp: Let_def\<close>)
qed

text \<open>C27. A refused token is renewed within the lookup: when the query with the stored token
  returns 401, the login that follows succeeds and the second query confirms, the answer is
  yes and the new token is kept.\<close>

theorem refused_token_renewed:
  assumes "imei \<noteq> ''''" "Cache p imei = None" "Token p \<noteq> ''''"
    and "url_ok env (tracker_url p imei)" "url_ok env (login_url p)"
    and "\<And>req. http_do env (Tick io) req = Inr r1" "StatusCode r1 = 401"
    and "\<And>req. http_do env (Suc (Tick io)) req = Inr r2" "200 \<le> StatusCode r2" "StatusCode r2 < 300"
    and "decode_login (read_limited (RespBody r2)) = Some out" "LToken out \<noteq> ''''"
    and "\<And>req. http_do env (Suc (Suc (Tick io))) req = Inr r3" "confirms r3"
  shows "\<exists>p' io'. paapeli_IsRegistered env imei p io = (True, p', io') \<and> Token p' = LToken out"
proof -
  obtain io1 where f: "fetch env imei True p io = (Inr True, p\<lparr>Token := LToken out\<rparr>, io1)"
    using fetch_retry [OF assms(3-14)] by blast
  obtain p' io' where s: "cacheSet env imei True (p\<lparr>Token := LToken out\<rparr>) io1 = (p', io')" by fastforce
  from assms(1,2) f s cacheSet_facts(3) [OF s] show ?thesis
    by (simp add: paapeli_IsRegistered_def cacheGet_def)
qed

section \<open>Witnesses\<close>

text \<open>A back end that knows one tracker, behind a token that has been refused once.\<close>

definition demo_cfg :: paapeli_config where
  "demo_cfg = \<lparr>PaapeliEnabled = True, BaseURL = ''https://paapeli.example/'', Username = ''gw'', PaapeliPassword = ''pw'',
     PaapeliTimeout = 3 * second, PositiveTTL = 30 * minute, NegativeTTL = 60 * second\<rparr>"

definition json_text :: "string \<Rightarrow> string \<Rightarrow> string" where
  "json_text k v = [CHR ''{'', CHR 0x22] @ k @ [CHR 0x22, CHR '':''] @ v @ [CHR ''}'']"

definition demo_env :: env where
  "demo_env = \<lparr>now = (\<lambda>k. int k * second), url_ok = (\<lambda>_. True),
     http_do = (\<lambda>k req. Inr (if k = 0 then \<lparr>StatusCode = 401, RespBody = ''''\<rparr>
       else if k = 1 then \<lparr>StatusCode = 200, RespBody = json_text ''token'' [CHR 0x22, CHR ''T'', CHR 0x22]\<rparr>
       else \<lparr>StatusCode = 200, RespBody = json_text ''registered'' ''true''\<rparr>)),
     mqtt_publish = (\<lambda>_ _. None), conn_write = (\<lambda>_ _ _. None)\<rparr>"

definition demo_client :: paapeli where
  "demo_client = \<lparr>PCfg = demo_cfg, Token = ''old'', Cache = (\<lambda>_. None)\<rparr>"

definition demo_io :: io where "demo_io = \<lparr>Tick = 0, Trace = []\<rparr>"

lemma demo_confirms: "confirms \<lparr>StatusCode = 200, RespBody = json_text ''registered'' ''true''\<rparr>"
  by code_simp

lemma demo_token: "decode_login (read_limited (json_text ''token'' [CHR 0x22, CHR ''T'', CHR 0x22])) =
  Some \<lparr>LToken = ''T'', TokenType = ''''\<rparr>"
  by code_simp

theorem refused_token_renewed_witness:
  "\<exists>p' io'. paapeli_IsRegistered demo_env ''861971080061526'' demo_client demo_io = (True, p', io') \<and> Token p' = ''T''"
proof -
  have "\<exists>p' io'. paapeli_IsRegistered demo_env ''861971080061526'' demo_client demo_io = (True, p', io') \<and>
      Token p' = LToken \<lparr>LToken = ''T'', TokenType = ''''\<rparr>"
    by (rule refused_token_renewed [where ?r1.0 = "\<lparr>StatusCode = 401, RespBody = ''''\<rparr>"
          and ?r2.0 = "\<lparr>StatusCode = 200, RespBody = json_text ''token'' [CHR 0x22, CHR ''T'', CHR 0x22]\<rparr>"
          and ?r3.0 = "\<lparr>StatusCode = 200, RespBody = json_text ''registered'' ''true''\<rparr>"])
      (simp_all add: demo_client_def demo_env_def demo_io_def demo_token demo_confirms)
  then show ?thesis by simp
qed

theorem registered_only_if_confirmed_witness:
  "confirmed demo_env (tracker_url demo_client ''861971080061526'')"
proof -
  have "trusted demo_env (Paapeli demo_client)" by (simp add: trusted_def demo_client_def)
  moreover have "fst (reg_IsRegistered demo_env ''861971080061526'' (Paapeli demo_client) demo_io)"
    by code_simp
  then obtain r' io' where "reg_IsRegistered demo_env ''861971080061526'' (Paapeli demo_client) demo_io = (True, r', io')"
    by (metis prod.collapse)
  ultimately show ?thesis using registered_only_if_confirmed [of demo_env demo_client _ demo_io True] by blast
qed

theorem lookup_cost_and_frame_witness:
  "\<exists>b p' io'. paapeli_IsRegistered demo_env ''861971080061526'' demo_client demo_io = (b, p', io') \<and> asks 4 demo_io io'"
proof -
  let ?l = "paapeli_IsRegistered demo_env ''861971080061526'' demo_client demo_io"
  have l: "?l = (fst ?l, fst (snd ?l), snd (snd ?l))" by (simp only: prod.collapse)
  with lookup_cost_and_frame [OF l] show ?thesis by blast
qed

theorem answer_served_until_expiry_witness:
  "case paapeli_IsRegistered demo_env ''1'' demo_client demo_io of (b, p', io') \<Rightarrow>
     b \<and> paapeli_IsRegistered demo_env ''1'' p' \<lparr>Tick = 1803, Trace = []\<rparr> = (True, p', \<lparr>Tick = 1804, Trace = []\<rparr>)"
proof -
  have "case fetch demo_env ''1'' True demo_client demo_io of (r, p1, io2) \<Rightarrow> r = Inr True \<and> Tick io2 = 3"
    by code_simp
  then obtain p1 io2 where f: "fetch demo_env ''1'' True demo_client demo_io = (Inr True, p1, io2)" "Tick io2 = 3"
    by auto
  have g: "cacheGet demo_env ''1'' demo_client demo_io = ((False, False), demo_io)"
    by (simp add: cacheGet_def demo_client_def)
  have n: "now demo_env 1803 \<le> now demo_env 3 + 30 * 60 * 1000000000" "PositiveTTL (PCfg demo_client) = 30 * 60 * 1000000000"
    by code_simp+
  from answer_served_until_expiry [OF _ g f(1)] obtain p' io' where l:
    "paapeli_IsRegistered demo_env ''1'' demo_client demo_io = (True, p', io')"
    "\<forall>q io3. Cache q ''1'' = Cache p' ''1'' \<longrightarrow> now demo_env (Tick io3) \<le> now demo_env 3 + 30 * 60 * 1000000000 \<longrightarrow>
       paapeli_IsRegistered demo_env ''1'' q io3 = (True, q, tick io3)"
    by (auto simp: n(2) f(2) Let_def)
  from l(2) [rule_format, of p' "\<lparr>Tick = 1803, Trace = []\<rparr>"] n(1) l(1) show ?thesis by (simp add: tick_def)
qed

end
