(* ===== verification/Geo.thy ===== *)
theory Geo
  imports Registry WifiLbs
begin

text \<open>
  Resolving radio observations to coordinates: \<open>internal/geolocation/geolocation.go\<close> (the
  interface and \<open>Disabled\<close>) and \<open>internal/geolocation/http_client.go\<close>. The deadline of the
  context is one of the reasons for which \<open>http_Do\<close> may return an error.
\<close>

record geo_wifi =
  GMAC :: string
  GRSSI :: int

record geo_cell =
  GMCC :: int
  GMNC :: int
  GLAC :: int
  GCellID :: int
  GSignal :: int

record geo_request =
  GWifi :: "geo_wifi list"
  GCells :: "geo_cell list"

record geo_result =
  GLatitude :: f64
  GLongitude :: f64
  GAccuracy :: f64

record http_geo =
  GeoURL :: string
  GeoKey :: string
  GeoOn :: bool

datatype geo_client = Disabled | HTTPClient http_geo

datatype geo_error =
    GeoDisabled
  | GeoEmpty
  | GeoBadURL string
  | GeoHttpFailed string
  | GeoHTTP int string
  | GeoDecode
  | GeoZero

definition NewClient :: "geolocation_config \<Rightarrow> geo_client" where
  "NewClient cfg =
     (if \<not> GeoEnabled cfg \<or> URL cfg = '''' then Disabled
      else HTTPClient \<lparr>GeoURL = URL cfg, GeoKey = APIKey cfg, GeoOn = True\<rparr>)"

definition http_Enabled :: "http_geo \<Rightarrow> bool" where
  "http_Enabled h = GeoOn h"

fun geo_Enabled :: "geo_client \<Rightarrow> bool" where
  "geo_Enabled Disabled = False"
| "geo_Enabled (HTTPClient h) = http_Enabled h"

text \<open>The JSON body: \<open>httpRequestFrom\<close> and the field tags of its structs.\<close>

definition http_wifi :: "geo_wifi \<Rightarrow> any" where
  "http_wifi w = AMap [(''mac'', AString (GMAC w)), (''rssi'', AInt (GRSSI w))]"

definition http_cell :: "geo_cell \<Rightarrow> any" where
  "http_cell c = AMap [(''mcc'', AInt (GMCC c)), (''mnc'', AInt (GMNC c)), (''lac'', AInt (GLAC c)),
     (''cell_id'', AInt (GCellID c)), (''signal'', AInt (GSignal c))]"

definition http_body :: "any list \<Rightarrow> any list \<Rightarrow> any" where
  "http_body wifi cells = AMap [(''wifi'', AList wifi), (''cells'', AList cells)]"

definition httpRequestFrom :: "geo_request \<Rightarrow> any" where
  "httpRequestFrom req = http_body (map http_wifi (GWifi req)) (map http_cell (GCells req))"

text \<open>The package has its own \<open>truncate\<close>; a string is its bytes, the ellipsis three of them.\<close>

definition geo_truncate :: "string \<Rightarrow> nat \<Rightarrow> string" where
  "geo_truncate s n = (if length s \<le> n then s else take n s @ [CHR 0xE2, CHR 0x80, CHR 0xA6])"

definition store_geo :: "string \<Rightarrow> json \<Rightarrow> geo_result \<Rightarrow> geo_result option" where
  "store_geo k v r =
     (if field_is ''latitude'' k then map_option (\<lambda>x. r\<lparr>GLatitude := x\<rparr>) (decode_float v (GLatitude r))
      else if field_is ''longitude'' k then map_option (\<lambda>x. r\<lparr>GLongitude := x\<rparr>) (decode_float v (GLongitude r))
      else if field_is ''accuracy'' k then map_option (\<lambda>x. r\<lparr>GAccuracy := x\<rparr>) (decode_float v (GAccuracy r))
      else Some r)"

definition http_Locate :: "env \<Rightarrow> http_geo \<Rightarrow> geo_request \<Rightarrow> io \<Rightarrow> (geo_error + geo_result) \<times> io" where
  "http_Locate env h req io =
     (if GWifi req = [] \<and> GCells req = [] then (Inl GeoEmpty, io)
      else if \<not> url_ok env (GeoURL h) then (Inl (GeoBadURL (GeoURL h)), io)
      else
        let (resp, io) = http_Do env \<lparr>Method = ''POST'', ReqURL = GeoURL h,
              Headers = (''Content-Type'', ''application/json'') #
                (if GeoKey h \<noteq> '''' then [(''Authorization'', ''Bearer '' @ GeoKey h)] else []),
              ReqBody = Some (httpRequestFrom req)\<rparr> io in
        (case resp of
           Inl err \<Rightarrow> (Inl (GeoHttpFailed err), io)
         | Inr r \<Rightarrow>
             let body = read_limited (RespBody r) in
             if StatusCode r < 200 \<or> StatusCode r \<ge> 300
             then (Inl (GeoHTTP (StatusCode r) (geo_truncate body 200)), io)
             else
               (case json_Unmarshal body \<bind> decode_struct store_geo \<lparr>GLatitude = 0, GLongitude = 0, GAccuracy = 0\<rparr> of
                  None \<Rightarrow> (Inl GeoDecode, io)
                | Some out \<Rightarrow>
                    if GLatitude out = 0 \<and> GLongitude out = 0 then (Inl GeoZero, io)
                    else (Inr out, io))))"

fun geo_Locate :: "env \<Rightarrow> geo_client \<Rightarrow> geo_request \<Rightarrow> io \<Rightarrow> (geo_error + geo_result) \<times> io" where
  "geo_Locate env Disabled req io = (Inl GeoDisabled, io)"
| "geo_Locate env (HTTPClient h) req io = http_Locate env h req io"

section \<open>Facts\<close>

lemma http_Locate_cost: "http_Locate env h req io = (r, io') \<Longrightarrow> asks 1 io io'"
proof (cases "GWifi req = [] \<and> GCells req = [] \<or> \<not> url_ok env (GeoURL h)")
  case True
  moreover assume "http_Locate env h req io = (r, io')"
  ultimately have "io' = io" by (auto simp: http_Locate_def split: if_splits)
  then show ?thesis by simp
next
  case False
  assume l: "http_Locate env h req io = (r, io')"
  obtain resp io1 where h: "http_Do env \<lparr>Method = ''POST'', ReqURL = GeoURL h,
      Headers = (''Content-Type'', ''application/json'') #
        (if GeoKey h \<noteq> '''' then [(''Authorization'', ''Bearer '' @ GeoKey h)] else []),
      ReqBody = Some (httpRequestFrom req)\<rparr> io = (resp, io1)" by fastforce
  with l False have "io' = io1"
    by (auto simp: http_Locate_def Let_def split: sum.splits if_splits option.splits)
  with asks_http [OF h] show ?thesis by simp
qed

lemma geo_Locate_cost: "geo_Locate env c req io = (r, io') \<Longrightarrow> asks 1 io io'"
  by (cases c) (auto intro: http_Locate_cost asks_mono)

lemma geo_Locate_result:
  "geo_Locate env c req io = (Inr res, io') \<Longrightarrow>
   (GWifi req \<noteq> [] \<or> GCells req \<noteq> []) \<and> (GLatitude res \<noteq> 0 \<or> GLongitude res \<noteq> 0)"
  by (cases c) (auto simp: http_Locate_def http_Do_def Let_def split: sum.splits if_splits option.splits)

section \<open>The interface\<close>

text \<open>
  \<open>geolocation.Client\<close>: resolving makes at most one request, and a result has a coordinate
  that is not zero.
\<close>

locale geolocation_interface =
  fixes locate :: "'c \<Rightarrow> geo_request \<Rightarrow> io \<Rightarrow> ('e + geo_result) \<times> io"
  assumes geo_cost: "locate c req io = (r, io') \<Longrightarrow> asks 1 io io'"
    and geo_nonzero: "locate c req io = (Inr res, io') \<Longrightarrow> GLatitude res \<noteq> 0 \<or> GLongitude res \<noteq> 0"

interpretation http_geolocation: geolocation_interface "geo_Locate env" for env
  by unfold_locales (use geo_Locate_cost geo_Locate_result in blast)+

section \<open>Properties\<close>

text \<open>C32. Resolving a position makes at most one HTTP request, and none when it is disabled or when
  there is nothing to resolve. A result is what a 2xx response to that request decodes to, and
  never the zero point.\<close>

theorem locate_one_request:
  "case geo_Locate env c req io of
     (Inl err, io') \<Rightarrow> asks (if c = Disabled \<or> GWifi req = [] \<and> GCells req = [] then 0 else 1) io io'
   | (Inr res, io') \<Rightarrow>
       asks 1 io io' \<and> \<not> (GWifi req = [] \<and> GCells req = []) \<and> \<not> (GLatitude res = 0 \<and> GLongitude res = 0) \<and>
       (\<exists>h hreq r. c = HTTPClient h \<and> ReqURL hreq = GeoURL h \<and> ReqBody hreq = Some (httpRequestFrom req) \<and>
          http_do env (Tick io) hreq = Inr r \<and> StatusCode r div 100 = 2 \<and>
          json_Unmarshal (read_limited (RespBody r)) \<bind>
            decode_struct store_geo \<lparr>GLatitude = 0, GLongitude = 0, GAccuracy = 0\<rparr> = Some res)"
proof -
  obtain r io' where l: "geo_Locate env c req io = (r, io')" by fastforce
  have cost: "asks 1 io io'" using l by (rule geo_Locate_cost)
  show ?thesis
  proof (cases r)
    case (Inl err)
    have "io' = io" if "c = Disabled \<or> GWifi req = [] \<and> GCells req = []"
      using l that by (cases c) (auto simp: http_Locate_def)
    with cost Inl l show ?thesis by auto
  next
    case (Inr res)
    with l obtain h where c: "c = HTTPClient h" by (cases c) auto
    define hreq where "hreq = \<lparr>Method = ''POST'', ReqURL = GeoURL h,
      Headers = (''Content-Type'', ''application/json'') #
        (if GeoKey h \<noteq> '''' then [(''Authorization'', ''Bearer '' @ GeoKey h)] else []),
      ReqBody = Some (httpRequestFrom req)\<rparr>"
    from l Inr c have h: "http_Locate env h req io = (Inr res, io')" by simp
    then obtain r where r: "http_do env (Tick io) hreq = Inr r"
      by (cases "http_do env (Tick io) hreq")
        (auto simp: http_Locate_def http_Do_def Let_def hreq_def split: if_splits)
    with h have s: "\<not> StatusCode r < 200" "StatusCode r < 300"
      "json_Unmarshal (read_limited (RespBody r)) \<bind>
         decode_struct store_geo \<lparr>GLatitude = 0, GLongitude = 0, GAccuracy = 0\<rparr> = Some res"
      by (auto simp: http_Locate_def http_Do_def Let_def hreq_def [symmetric] split: if_splits option.splits)
    have "ReqURL hreq = GeoURL h" "ReqBody hreq = Some (httpRequestFrom req)" by (simp_all add: hreq_def)

    moreover from s(1,2) have "StatusCode r div 100 = 2" by linarith
    ultimately show ?thesis using cost Inr l c r s geo_Locate_result [of env c req io res io'] by auto
  qed
qed

end
