(* ===== verification/Command.thy ===== *)
theory Command
  imports Commands Io
begin

text \<open>
  The command handler: \<open>internal/command/handler.go\<close>. It reaches the trackers through the
  interface \<open>SessionLookup\<close>: its functions take \<open>send\<close>, the method \<open>SendToDevice\<close>, which
  returns an error or \<open>None\<close> and the new state.
\<close>

type_synonym 's sender = "string \<Rightarrow> byte list \<Rightarrow> 's \<Rightarrow> string option \<times> 's"

text \<open>\<open>params\<close> is a \<open>json.RawMessage\<close>: \<open>None\<close> for the empty one.\<close>

datatype cmd_error =
    InvalidParams string
  | SecondsOutOfRange
  | MinutesOutOfRange
  | UnknownMethod string
  | SendFailed string

definition decode_seconds :: "json option \<Rightarrow> int option" where
  "decode_seconds params =
     params \<bind> decode_struct (\<lambda>k v cur. if field_is ''seconds'' k then decode_int v cur else Some cur) 0"

definition decode_minutes :: "json option \<Rightarrow> int option" where
  "decode_minutes params =
     params \<bind> decode_struct (\<lambda>k v cur. if field_is ''minutes'' k then decode_int v cur else Some cur) 0"

text \<open>The \<open>switch\<close> on the method.\<close>

definition rpc_packet :: "string \<Rightarrow> json option \<Rightarrow> cmd_error + byte list" where
  "rpc_packet method params =
     (if method = ''reboot'' then Inr BuildRestart
      else if method = ''shutdown'' then Inr BuildShutdown
      else if method = ''locate'' then Inr BuildLocate
      else if method = ''setLocationInterval'' then
        (case decode_seconds params of
           None \<Rightarrow> Inl (InvalidParams ''setLocationInterval'')
         | Some seconds \<Rightarrow>
             if seconds < 10 \<or> seconds > 7200 then Inl SecondsOutOfRange
             else Inr (BuildUploadInterval (of_int seconds)))
      else if method = ''setStatusInterval'' then
        (case decode_minutes params of
           None \<Rightarrow> Inl (InvalidParams ''setStatusInterval'')
         | Some minutes \<Rightarrow>
             if minutes < 1 \<or> minutes > 60 then Inl MinutesOutOfRange
             else Inr (BuildStatusInterval minutes))
      else Inl (UnknownMethod method))"

definition ExecuteRPC :: "'s sender \<Rightarrow> string \<Rightarrow> string \<Rightarrow> json option \<Rightarrow> 's \<Rightarrow> cmd_error option \<times> 's" where
  "ExecuteRPC send imei method params s =
     (case rpc_packet method params of
        Inl err \<Rightarrow> (Some err, s)
      | Inr pkt \<Rightarrow>
          (case send imei pkt s of
             (None, s) \<Rightarrow> (None, s)
           | (Some err, s) \<Rightarrow> (Some (SendFailed err), s)))"

text \<open>
  A shared attribute is a Go value of type \<open>any\<close>; \<open>toInt\<close> looks at four types. The
  conversion of a \<open>float64\<close> outside the range of \<open>int\<close> is up to the implementation: the
  argument \<open>conv\<close>.
\<close>

datatype attribute = AttrFloat f64 | AttrInt int | AttrInt64 int | AttrNumber string | AttrOther

fun toInt :: "(f64 \<Rightarrow> int) \<Rightarrow> attribute \<Rightarrow> int option" where
  "toInt conv (AttrFloat x) = Some (if in_int64 (f64_trunc x) then f64_trunc x else conv x)"
| "toInt conv (AttrInt n) = Some n"
| "toInt conv (AttrInt64 n) = Some n"
| "toInt conv (AttrNumber lit) = ParseInt lit"
| "toInt conv AttrOther = None"

definition ApplySharedAttributes ::
    "(f64 \<Rightarrow> int) \<Rightarrow> 's sender \<Rightarrow> string \<Rightarrow> (string \<Rightarrow> attribute option) \<Rightarrow> 's \<Rightarrow> string option \<times> 's" where
  "ApplySharedAttributes conv send imei attrs s =
     (let (err, s) =
        (case attrs ''locationIntervalSeconds'' \<bind> toInt conv of
           None \<Rightarrow> (None, s)
         | Some sec \<Rightarrow>
             if sec \<ge> 10 \<and> sec \<le> 7200 then send imei (BuildUploadInterval (of_int sec)) s else (None, s)) in
      if err \<noteq> None then (err, s)
      else
        (case attrs ''statusIntervalMinutes'' \<bind> toInt conv of
           None \<Rightarrow> (None, s)
         | Some minutes \<Rightarrow>
             if minutes \<ge> 1 \<and> minutes \<le> 60 then send imei (BuildStatusInterval minutes) s else (None, s)))"

section \<open>The packets\<close>

lemma upload_interval_exact:
  assumes "10 \<le> n" "n \<le> 7200"
  shows "BuildUploadInterval (of_int n) = [0x78, 0x78, 0x03, MsgUploadInt] @ be_put16 (of_int n) @ [0x0D, 0x0A]"
proof -
  have u: "unat (of_int n :: u16) = nat n"
    using of_int_u16 [of n] assms by (simp add: unat_eq_nat_uint)
  have "\<not> (of_int n :: u16) < 10" "\<not> 7200 < (of_int n :: u16)"
    unfolding word_less_nat_alt u using assms by simp_all
  then show ?thesis by (simp add: BuildUploadInterval_def Let_def)
qed

definition is_command :: "byte list \<Rightarrow> bool" where
  "is_command pkt \<longleftrightarrow> pkt \<in> {BuildRestart, BuildShutdown, BuildLocate} \<or>
     (\<exists>n. 10 \<le> n \<and> n \<le> 7200 \<and> pkt = [0x78, 0x78, 0x03, MsgUploadInt] @ be_put16 (of_int n) @ [0x0D, 0x0A]) \<or>
     (\<exists>n. 1 \<le> n \<and> n \<le> 60 \<and> pkt = [0x78, 0x78, 0x02, MsgStatus, of_int n, 0x0D, 0x0A])"

lemma is_command_interval: "10 \<le> n \<Longrightarrow> n \<le> 7200 \<Longrightarrow> is_command (BuildUploadInterval (of_int n))"
  unfolding is_command_def by (auto simp: upload_interval_exact)

lemma is_command_status: "1 \<le> n \<Longrightarrow> n \<le> 60 \<Longrightarrow> is_command (BuildStatusInterval n)"
  unfolding is_command_def by (auto simp: BuildStatusInterval_def)

lemma rpc_packet_command: "rpc_packet method params = Inr pkt \<Longrightarrow> is_command pkt"
  by (auto simp: rpc_packet_def is_command_interval is_command_status
      split: if_splits option.splits) (auto simp: is_command_def)

text \<open>What a command that failed may leave on the wire: nothing, or a proper prefix of it.\<close>

definition cut_command :: "byte list list \<Rightarrow> bool" where
  "cut_command rest \<longleftrightarrow> rest = [] \<or> (\<exists>b w. rest = [w] \<and> is_command b \<and> torn b w)"

lemma is_command_nonempty: "is_command pkt \<Longrightarrow> pkt \<noteq> []"
  by (auto simp: is_command_def BuildRestart_def BuildShutdown_def BuildLocate_def)

lemma cut_command_simps [simp]: "cut_command []" "is_command b \<Longrightarrow> cut_command [sent_part n b]"
  using sent_part_torn [OF is_command_nonempty, of b n] by (auto simp: cut_command_def)

lemma cut_command_length: "cut_command rest \<Longrightarrow> length rest \<le> 1"
  by (auto simp: cut_command_def)

section \<open>The interface\<close>

text \<open>
  \<open>command.SessionLookup\<close>: \<open>outbox\<close> is what has been sent, to which peer. Sending to an IMEI
  that is offline is an error and sends nothing; a success sends exactly the packet, to the
  peer that is online for the IMEI; an error sends nothing, or a part of the packet to that peer.
\<close>

locale session_lookup =
  fixes send :: "'s sender"
    and peer :: "string \<Rightarrow> 's \<Rightarrow> 'p option"
    and outbox :: "'s \<Rightarrow> ('p \<times> byte list) list"
  assumes offline: "peer imei s = None \<Longrightarrow> fst (send imei pkt s) \<noteq> None \<and> snd (send imei pkt s) = s"
    and delivered: "send imei pkt s = (None, s') \<Longrightarrow>
      \<exists>p. peer imei s = Some p \<and> outbox s' = outbox s @ [(p, pkt)]"
    and refused: "send imei pkt s = (Some err, s') \<Longrightarrow>
      outbox s' = outbox s \<or> (\<exists>p n. peer imei s = Some p \<and> outbox s' = outbox s @ [(p, sent_part n pkt)])"
begin

lemma rpc_sends:
  assumes "ExecuteRPC send imei m params s = (err, s')"
  shows "case (rpc_packet m params, peer imei s) of
      (Inr pkt, Some p) \<Rightarrow> is_command pkt \<and>
        (case err of None \<Rightarrow> outbox s' = outbox s @ [(p, pkt)]
         | Some e \<Rightarrow> outbox s' = outbox s \<or> (\<exists>w. torn pkt w \<and> outbox s' = outbox s @ [(p, w)]))
    | _ \<Rightarrow> err \<noteq> None \<and> s' = s"
proof (cases "rpc_packet m params")
  case (Inr pkt)
  then have cmd: "is_command pkt" by (rule rpc_packet_command)
  obtain e where snd: "send imei pkt s = (e, s')" "err = map_option SendFailed e"
    using assms Inr by (auto simp: ExecuteRPC_def split: prod.splits option.splits)
  show ?thesis
  proof (cases "peer imei s")
    case None
    with snd Inr offline [of imei s pkt] show ?thesis by simp
  next
    case (Some p)
    with snd Inr cmd delivered [of imei pkt s s'] refused [of imei pkt s _ s'] sent_part_torn [OF is_command_nonempty [OF cmd]]
    show ?thesis by (cases e) auto
  qed
qed (use assms in \<open>auto simp: ExecuteRPC_def\<close>)

end

text \<open>A handler that sends twice relies on the peers staying the same.\<close>

locale stable_lookup = session_lookup send peer outbox
  for send :: "'s sender" and peer :: "string \<Rightarrow> 's \<Rightarrow> 'p option" and outbox :: "'s \<Rightarrow> ('p \<times> byte list) list" +
  assumes peers_stay: "send imei pkt s = (e, s') \<Longrightarrow> peer i s' = peer i s"
begin

text \<open>What a step of a handler sends to the peer of the IMEI: commands, and the rest of one that failed.\<close>

definition sends :: "string \<Rightarrow> 's \<Rightarrow> 's \<Rightarrow> byte list list \<Rightarrow> byte list list \<Rightarrow> bool" where
  "sends imei s s' pkts rest \<longleftrightarrow> peer imei s' = peer imei s \<and> list_all is_command pkts \<and> cut_command rest \<and>
     (case peer imei s of None \<Rightarrow> pkts = [] \<and> rest = [] \<and> outbox s' = outbox s
      | Some p \<Rightarrow> outbox s' = outbox s @ map (Pair p) (pkts @ rest))"

lemma sends_trans: "sends imei a b p [] \<Longrightarrow> sends imei b c q r \<Longrightarrow> sends imei a c (p @ q) r"
  by (auto simp: sends_def split: option.splits)

lemma sends_refl: "sends imei s s [] []"
  by (simp add: sends_def split: option.split)

lemma send_sends:
  assumes "send imei pkt s = (err, s')" "is_command pkt"
  shows "case err of None \<Rightarrow> sends imei s s' [pkt] [] | Some e \<Rightarrow> \<exists>rest. sends imei s s' [] rest"
proof (cases err)
  case None
  with assms peers_stay [OF assms(1)] delivered [of imei pkt s s'] show ?thesis by (auto simp: sends_def)
next
  case (Some e)
  with assms(1) have "outbox s' = outbox s \<or> (\<exists>p n. peer imei s = Some p \<and> outbox s' = outbox s @ [(p, sent_part n pkt)])"
    by (intro refused) simp
  then have "sends imei s s' [] [] \<or> (\<exists>n. sends imei s s' [] [sent_part n pkt])"
    using assms(2) peers_stay [OF assms(1)] by (auto simp: sends_def split: option.split)
  with Some show ?thesis by auto
qed

lemma execute_sends:
  assumes "ExecuteRPC send imei method params s = (err, s')"
  shows "case err of None \<Rightarrow> \<exists>pkt. sends imei s s' [pkt] [] | Some e \<Rightarrow> \<exists>rest. sends imei s s' [] rest"
proof (cases "rpc_packet method params")
  case (Inl e)
  with assms have "s' = s" "err = Some e" by (simp_all add: ExecuteRPC_def)
  then show ?thesis using sends_refl [of imei s] by auto
next
  case (Inr pkt)
  with assms obtain e where "send imei pkt s = (e, s')" "err = map_option SendFailed e"
    by (auto simp: ExecuteRPC_def split: prod.splits option.splits)
  with send_sends [OF this(1) rpc_packet_command [OF Inr]] show ?thesis by (cases e) auto
qed

text \<open>What shared attributes send: at most the two interval packets, the upload interval first.\<close>

definition setting_part :: "int option \<Rightarrow> int \<Rightarrow> int \<Rightarrow> (int \<Rightarrow> byte list) \<Rightarrow> string \<Rightarrow> 's \<Rightarrow> string option \<times> 's" where
  "setting_part v lo hi build imei s =
     (case v of None \<Rightarrow> (None, s)
      | Some n \<Rightarrow> if n \<ge> lo \<and> n \<le> hi then send imei (build n) s else (None, s))"

lemma setting_sends:
  assumes "setting_part v lo hi build imei s = (err, s')" "\<And>n. lo \<le> n \<Longrightarrow> n \<le> hi \<Longrightarrow> is_command (build n)"
  shows "case err of None \<Rightarrow> \<exists>pkts. sends imei s s' pkts [] \<and> length pkts \<le> 1 | Some e \<Rightarrow> \<exists>rest. sends imei s s' [] rest"
proof (cases "\<exists>n. v = Some n \<and> lo \<le> n \<and> n \<le> hi")
  case True
  with assms obtain n where "send imei (build n) s = (err, s')" "is_command (build n)"
    by (auto simp: setting_part_def)
  from send_sends [OF this] show ?thesis by (cases err) (auto intro!: exI [of _ "[build n]"])
next
  case False
  with assms(1) have "s' = s" "err = None" by (auto simp: setting_part_def split: option.splits if_splits)
  with sends_refl [of imei s] show ?thesis by (auto intro!: exI [of _ "[]"])
qed

lemma attributes_parts:
  "ApplySharedAttributes conv send imei attrs s =
     (let (err, s) = setting_part (attrs ''locationIntervalSeconds'' \<bind> toInt conv) 10 7200
            (\<lambda>n. BuildUploadInterval (of_int n)) imei s in
      if err \<noteq> None then (err, s)
      else setting_part (attrs ''statusIntervalMinutes'' \<bind> toInt conv) 1 60 BuildStatusInterval imei s)"
  unfolding ApplySharedAttributes_def setting_part_def Let_def ..

lemma attributes_send:
  assumes "ApplySharedAttributes conv send imei attrs s = (err, s')"
  shows "\<exists>pkts rest. sends imei s s' pkts rest \<and> length (pkts @ rest) \<le> 2 \<and> (err = None \<longrightarrow> rest = [])"
proof -
  obtain err1 s1 where first: "setting_part (attrs ''locationIntervalSeconds'' \<bind> toInt conv) 10 7200
      (\<lambda>n. BuildUploadInterval (of_int n)) imei s = (err1, s1)" by fastforce
  obtain err2 s2 where second: "setting_part (attrs ''statusIntervalMinutes'' \<bind> toInt conv) 1 60
      BuildStatusInterval imei s1 = (err2, s2)" by fastforce
  have p1: "case err1 of None \<Rightarrow> \<exists>pkts. sends imei s s1 pkts [] \<and> length pkts \<le> 1 | Some e \<Rightarrow> \<exists>rest. sends imei s s1 [] rest"
    using first by (rule setting_sends) (rule is_command_interval)
  have p2: "case err2 of None \<Rightarrow> \<exists>pkts. sends imei s1 s2 pkts [] \<and> length pkts \<le> 1 | Some e \<Rightarrow> \<exists>rest. sends imei s1 s2 [] rest"
    using second by (rule setting_sends) (rule is_command_status)
  have short: "length rest \<le> 1" if "sends imei a b ps rest" for a b ps rest
    using that cut_command_length by (simp add: sends_def)
  show ?thesis
  proof (cases err1)
    case (Some e)
    with assms first have "s' = s1" "err \<noteq> None" by (auto simp: attributes_parts)
    moreover from p1 Some obtain rest where "sends imei s s1 [] rest" by auto
    ultimately show ?thesis using short by (intro exI [of _ "[]"] exI [of _ rest]) fastforce
  next
    case None
    with assms first second have e: "err = err2" "s' = s2" by (auto simp: attributes_parts)
    from p1 None obtain k1 where k1: "sends imei s s1 k1 []" "length k1 \<le> 1" by auto
    show ?thesis
    proof (cases err2)
      case (Some x)
      with p2 obtain rest where "sends imei s1 s2 [] rest" by auto
      with sends_trans [OF k1(1) this] short [OF this] k1(2) e Some show ?thesis by fastforce
    next
      case None
      with p2 obtain k2 where "sends imei s1 s2 k2 []" "length k2 \<le> 1" by auto
      with sends_trans [OF k1(1) this(1)] k1(2) e show ?thesis
        by (intro exI [of _ "k1 @ k2"] exI [of _ "[]"]) simp
    qed
  qed
qed

end

end
