(* ===== verification/Mqtt.thy ===== *)
theory Mqtt
  imports Io Config Command
begin

text \<open>
  The uplink to ThingsBoard: \<open>internal/mqtt/client.go\<close>, \<open>internal/mqtt/mock_client.go\<close> and
  \<open>internal/mqtt/rpc.go\<close>. The Paho library is \<open>paho_Publish\<close>, whose result is the error of
  the token it returns; a payload is the value that \<open>json.Marshal\<close> is applied to.
\<close>

section \<open>Presence and telemetry\<close>

datatype mqtt_client = MockClient | GatewayClient thingsboard_config

definition gw_publish :: "env \<Rightarrow> thingsboard_config \<Rightarrow> string \<Rightarrow> any \<Rightarrow> io \<Rightarrow> string option \<times> io" where
  "gw_publish env cfg topic payload io =
     paho_Publish env \<lparr>Topic = topic, PubQoS = QoS cfg, Retained = False, Payload = payload\<rparr> io"

definition gw_ConnectDevice :: "env \<Rightarrow> thingsboard_config \<Rightarrow> string \<Rightarrow> io \<Rightarrow> string option \<times> io" where
  "gw_ConnectDevice env cfg deviceName io =
     gw_publish env cfg ''v1/gateway/connect''
       (AMap [(''device'', AString deviceName), (''type'', AString (DeviceProfile cfg))]) io"

definition gw_DisconnectDevice :: "env \<Rightarrow> thingsboard_config \<Rightarrow> string \<Rightarrow> io \<Rightarrow> string option \<times> io" where
  "gw_DisconnectDevice env cfg deviceName io =
     gw_publish env cfg ''v1/gateway/disconnect'' (AMap [(''device'', AString deviceName)]) io"

definition gw_PublishTelemetry ::
    "env \<Rightarrow> thingsboard_config \<Rightarrow> string \<Rightarrow> instant \<Rightarrow> (string \<times> any) list \<Rightarrow> io \<Rightarrow> string option \<times> io" where
  "gw_PublishTelemetry env cfg deviceName ts values io =
     (let entry = AMap [(''ts'', AInt (time_UnixMilli ts)), (''values'', AMap values)] in
      gw_publish env cfg ''v1/gateway/telemetry'' (AMap [(deviceName, AList [entry])]) io)"

text \<open>
  The interface \<open>mqtt.Client\<close>, dispatched on its two implementations; the mock only writes a
  line to the log and returns no error. Each call is noted in the trace.
\<close>

definition tb_ConnectDevice :: "env \<Rightarrow> mqtt_client \<Rightarrow> string \<Rightarrow> io \<Rightarrow> string option \<times> io" where
  "tb_ConnectDevice env tb imei io =
     (let io = log (Uplink (ConnectCall imei)) io in
      case tb of MockClient \<Rightarrow> (None, io) | GatewayClient cfg \<Rightarrow> gw_ConnectDevice env cfg imei io)"

definition tb_DisconnectDevice :: "env \<Rightarrow> mqtt_client \<Rightarrow> string \<Rightarrow> io \<Rightarrow> string option \<times> io" where
  "tb_DisconnectDevice env tb imei io =
     (let io = log (Uplink (DisconnectCall imei)) io in
      case tb of MockClient \<Rightarrow> (None, io) | GatewayClient cfg \<Rightarrow> gw_DisconnectDevice env cfg imei io)"

definition tb_PublishTelemetry ::
    "env \<Rightarrow> mqtt_client \<Rightarrow> string \<Rightarrow> instant \<Rightarrow> (string \<times> any) list \<Rightarrow> io \<Rightarrow> string option \<times> io" where
  "tb_PublishTelemetry env tb imei ts values io =
     (let io = log (Uplink (TelemetryCall imei ts values)) io in
      case tb of MockClient \<Rightarrow> (None, io) | GatewayClient cfg \<Rightarrow> gw_PublishTelemetry env cfg imei ts values io)"

text \<open>A call to the client adds the call, and what it publishes, to the trace.\<close>

definition is_publish :: "event \<Rightarrow> bool" where
  "is_publish e \<longleftrightarrow> (case e of Published _ \<Rightarrow> True | _ \<Rightarrow> False)"

lemma is_publish_simps [simp]:
  "is_publish (Published p)" "\<not> is_publish (Wrote c b)" "\<not> is_publish (ClosedConn c)"
  "\<not> is_publish (Requested r)" "\<not> is_publish (Uplink u)"
  by (simp_all add: is_publish_def)

definition calls :: "tb_call \<Rightarrow> io \<Rightarrow> io \<Rightarrow> bool" where
  "calls u io io' \<longleftrightarrow> Tick io \<le> Tick io' \<and>
     (\<exists>es. Trace io' = Trace io @ Uplink u # es \<and> list_all is_publish es)"

lemma calls_log: "calls u io (log (Uplink u) io)"
  by (simp add: calls_def log_def)

lemma calls_publish: "gw_publish env cfg t p (log (Uplink u) io) = (e, io') \<Longrightarrow> calls u io io'"
  by (auto simp: calls_def gw_publish_def paho_Publish_def log_def tick_def)

lemma calls_extends: "calls u io io' \<Longrightarrow> extends (\<lambda>e. e = Uplink u \<or> is_publish e) io io'"
  by (auto simp: calls_def extends_def list_all_iff)

section \<open>The interface\<close>

locale uplink_client =
  fixes connect :: "'c \<Rightarrow> string \<Rightarrow> io \<Rightarrow> string option \<times> io"
    and disconnect :: "'c \<Rightarrow> string \<Rightarrow> io \<Rightarrow> string option \<times> io"
    and telemetry :: "'c \<Rightarrow> string \<Rightarrow> instant \<Rightarrow> (string \<times> any) list \<Rightarrow> io \<Rightarrow> string option \<times> io"
  assumes connect_calls: "connect c imei io = (e, io') \<Longrightarrow> calls (ConnectCall imei) io io'"
    and disconnect_calls: "disconnect c imei io = (e, io') \<Longrightarrow> calls (DisconnectCall imei) io io'"
    and telemetry_calls: "telemetry c imei ts vs io = (e, io') \<Longrightarrow> calls (TelemetryCall imei ts vs) io io'"

interpretation tb: uplink_client "tb_ConnectDevice env" "tb_DisconnectDevice env" "tb_PublishTelemetry env" for env
  by unfold_locales
    (auto simp: tb_ConnectDevice_def tb_DisconnectDevice_def tb_PublishTelemetry_def
      gw_ConnectDevice_def gw_DisconnectDevice_def gw_PublishTelemetry_def Let_def calls_log
      split: mqtt_client.splits dest: calls_publish)

section \<open>Downlink RPC\<close>

record rpc_request =
  RDevice :: string
  RID :: int
  RMethod :: string
  RParams :: "json option"

definition store_rpc_data :: "string \<Rightarrow> json \<Rightarrow> rpc_request \<Rightarrow> rpc_request option" where
  "store_rpc_data k v r =
     (if field_is ''id'' k then map_option (\<lambda>i. r\<lparr>RID := i\<rparr>) (decode_int v (RID r))
      else if field_is ''method'' k then map_option (\<lambda>s. r\<lparr>RMethod := s\<rparr>) (decode_string v (RMethod r))
      else if field_is ''params'' k then Some (r\<lparr>RParams := Some v\<rparr>)
      else Some r)"

definition store_rpc :: "string \<Rightarrow> json \<Rightarrow> rpc_request \<Rightarrow> rpc_request option" where
  "store_rpc k v r =
     (if field_is ''device'' k then map_option (\<lambda>s. r\<lparr>RDevice := s\<rparr>) (decode_string v (RDevice r))
      else if field_is ''data'' k then decode_struct store_rpc_data r v
      else Some r)"

definition decode_rpc :: "string \<Rightarrow> rpc_request option" where
  "decode_rpc payload =
     json_Unmarshal payload \<bind>
     decode_struct store_rpc \<lparr>RDevice = '''', RID = 0, RMethod = '''', RParams = None\<rparr>"

text \<open>The text of an error; for parameters, without the text of the JSON library.\<close>

fun cmd_error_text :: "cmd_error \<Rightarrow> string" where
  "cmd_error_text (InvalidParams m) = ''invalid params for '' @ m"
| "cmd_error_text SecondsOutOfRange = ''seconds out of range (10-7200)''"
| "cmd_error_text MinutesOutOfRange = ''minutes out of range (1-60)''"
| "cmd_error_text (UnknownMethod m) = ''unknown method '' @ fmt_q m"
| "cmd_error_text (SendFailed e) = e"

definition rpc_failure :: "string \<Rightarrow> any" where
  "rpc_failure e = AMap [(''success'', ABool False), (''error'', AString e)]"

text \<open>The response, and what its field tags make of it.\<close>

record rpc_response =
  RespDevice :: string
  RespID :: int
  RespData :: any

definition rpc_response_json :: "rpc_response \<Rightarrow> any" where
  "rpc_response_json r =
     AMap [(''device'', AString (RespDevice r)), (''id'', AInt (RespID r)), (''data'', RespData r)]"

text \<open>
  The callback for messages on \<open>v1/gateway/rpc\<close>. \<open>exec\<close> is the field \<open>rpc\<close>, \<open>None\<close> when
  it is nil; \<open>publish\<close> is the method of the client.
\<close>

type_synonym 's executor = "string \<Rightarrow> string \<Rightarrow> json option \<Rightarrow> 's \<Rightarrow> cmd_error option \<times> 's"

definition onRPC :: "'s executor option \<Rightarrow> (string \<Rightarrow> any \<Rightarrow> 's \<Rightarrow> string option \<times> 's) \<Rightarrow> string \<Rightarrow> 's \<Rightarrow> 's" where
  "onRPC exec publish payload s =
     (case decode_rpc payload of
        None \<Rightarrow> s
      | Some req \<Rightarrow>
          if RDevice req = '''' \<or> RMethod req = '''' then s
          else
            let (respData, s) =
              (case exec of
                 None \<Rightarrow> (rpc_failure ''no RPC handler configured'', s)
               | Some executeRPC \<Rightarrow>
                   if RMethod req = '''' then (rpc_failure ''empty method'', s)
                   else
                     (case executeRPC (RDevice req) (RMethod req) (RParams req) s of
                        (Some err, s) \<Rightarrow> (rpc_failure (cmd_error_text err), s)
                      | (None, s) \<Rightarrow> (AMap [(''success'', ABool True)], s)));
              resp = \<lparr>RespDevice = RDevice req, RespID = RID req, RespData = respData\<rparr> in
            snd (publish ''v1/gateway/rpc'' (rpc_response_json resp) s))"

section \<open>Properties\<close>

text \<open>An RPC is answered exactly once, under its own device and id, with the outcome of the
  command; a payload that is not a request, or names no device or no method, is neither
  executed nor answered.\<close>

theorem rpc_answered_once:
  "case decode_rpc payload of
     None \<Rightarrow> onRPC (Some exec) publish payload s = s
   | Some req \<Rightarrow>
       if RDevice req = '''' \<or> RMethod req = '''' then onRPC (Some exec) publish payload s = s
       else \<exists>err s'. exec (RDevice req) (RMethod req) (RParams req) s = (err, s') \<and>
         onRPC (Some exec) publish payload s = snd (publish ''v1/gateway/rpc''
           (AMap [(''device'', AString (RDevice req)), (''id'', AInt (RID req)),
             (''data'', case err of None \<Rightarrow> AMap [(''success'', ABool True)]
                | Some e \<Rightarrow> rpc_failure (cmd_error_text e))]) s')"
proof (cases "decode_rpc payload")
  case (Some req)
  obtain err s' where "exec (RDevice req) (RMethod req) (RParams req) s = (err, s')" by fastforce
  with Some show ?thesis by (cases err) (simp_all add: onRPC_def rpc_response_json_def)
qed (simp add: onRPC_def)

end
