(* ===== verification/Server.thy ===== *)
theory Server
  imports Drain Commands Login Status Iccid Gps Registry Geo Mqtt "HOL-Library.AList"
begin

text \<open>
  The TCP server: \<open>internal/server/server.go\<close>. A session is allocated on login and shared by
  the table of sessions, the connection that logged in and the background goroutines, and the
  code compares sessions by pointer; the model keeps them in a heap and a pointer is an index.
  Connections are numbers. The functions here are the methods run from start to end; the locks
  protect single accesses only, so in the code other goroutines run in between: the theory
  \<open>Server_Locks\<close> has the same methods as sequences of such accesses.
\<close>

section \<open>State\<close>

record session =
  IMEI :: string
  SConn :: nat
  Remote :: string
  Connected :: instant
  LastSeen :: instant
  tbConnected :: bool

text \<open>Goroutines started by a handler and not yet run.\<close>

datatype task =
    MaybeConnectTB "nat option" string
  | ResolveAndPublishLBS string wifi_lbs

record server =
  Sessions :: "(string \<times> nat) list"
  Heap :: "session list"
  Closed :: "nat set"
  Reg :: registry
  Tasks :: "task list"
  IO :: io

text \<open>What does not change: the environment and the clients the server was made with.\<close>

record deps =
  Env :: env
  TB :: mqtt_client
  Geo :: geo_client

text \<open>The variables \<open>imei\<close> and \<open>sess\<close> of \<open>handleConn\<close>.\<close>

record conn_local =
  LImei :: string
  LSess :: "nat option"

definition New_server :: "registry option \<Rightarrow> io \<Rightarrow> server" where
  "New_server reg io =
     \<lparr>Sessions = [], Heap = [], Closed = {}, Reg = (case reg of None \<Rightarrow> AllowAll | Some r \<Rightarrow> r), Tasks = [], IO = io\<rparr>"

definition New_deps :: "env \<Rightarrow> mqtt_client \<Rightarrow> geo_client option \<Rightarrow> deps" where
  "New_deps env tb geo = \<lparr>Env = env, TB = tb, Geo = (case geo of None \<Rightarrow> Disabled | Some g \<Rightarrow> g)\<rparr>"

definition with_io :: "(io \<Rightarrow> 'a \<times> io) \<Rightarrow> server \<Rightarrow> 'a \<times> server" where
  "with_io f s = (let (x, io) = f (IO s) in (x, s\<lparr>IO := io\<rparr>))"

definition srv_Now :: "deps \<Rightarrow> server \<Rightarrow> instant \<times> server" where
  "srv_Now d s = with_io (time_Now (Env d)) s"

section \<open>Connections\<close>

text \<open>
  \<open>SafeConn\<close>: a write to a closed connection fails; otherwise the network decides. A write that
  fails, for instance at its deadline, may have put a part of the packet on the wire.
\<close>

definition WriteWithDeadline :: "deps \<Rightarrow> nat \<Rightarrow> byte list \<Rightarrow> server \<Rightarrow> string option \<times> server" where
  "WriteWithDeadline d sc b s =
     (if sc \<in> Closed s then (Some ''use of closed network connection'', s)
      else
        (case conn_write (Env d) (Tick (IO s)) sc b of
           Some (err, n) \<Rightarrow> (Some err, s\<lparr>IO := log (Wrote sc (sent_part n b)) (tick (IO s))\<rparr>)
         | None \<Rightarrow> (None, s\<lparr>IO := log (Wrote sc b) (tick (IO s))\<rparr>)))"

definition closeConn :: "nat \<Rightarrow> server \<Rightarrow> server" where
  "closeConn sc s = s\<lparr>Closed := insert sc (Closed s), IO := log (ClosedConn sc) (IO s)\<rparr>"

definition writeFrame :: "deps \<Rightarrow> nat \<Rightarrow> byte list \<Rightarrow> server \<Rightarrow> server" where
  "writeFrame d sc payload s = snd (WriteWithDeadline d sc payload s)"

section \<open>Sessions\<close>

definition upd_session :: "nat \<Rightarrow> (session \<Rightarrow> session) \<Rightarrow> server \<Rightarrow> server" where
  "upd_session sid f s = s\<lparr>Heap := (Heap s)[sid := f (Heap s ! sid)]\<rparr>"

definition touch :: "deps \<Rightarrow> nat option \<Rightarrow> server \<Rightarrow> server" where
  "touch d sess s =
     (case sess of None \<Rightarrow> s
      | Some sid \<Rightarrow> let (t, s) = srv_Now d s in upd_session sid (\<lambda>x. x\<lparr>LastSeen := t\<rparr>) s)"

definition registerSession :: "deps \<Rightarrow> string \<Rightarrow> nat \<Rightarrow> string \<Rightarrow> server \<Rightarrow> nat \<times> server" where
  "registerSession d imei sc remote s =
     (let s = (case map_of (Sessions s) imei of
                 None \<Rightarrow> s
               | Some old \<Rightarrow> if SConn (Heap s ! old) \<noteq> sc then closeConn (SConn (Heap s ! old)) s else s);
          (t1, s) = srv_Now d s;
          (t2, s) = srv_Now d s;
          sid = length (Heap s);
          sess = \<lparr>IMEI = imei, SConn = sc, Remote = remote, Connected = t1, LastSeen = t2, tbConnected = False\<rparr> in
      (sid, s\<lparr>Heap := Heap s @ [sess], Sessions := AList.update imei sid (Sessions s)\<rparr>))"

definition removeSession :: "string \<Rightarrow> nat option \<Rightarrow> server \<Rightarrow> server" where
  "removeSession imei sess s =
     (case map_of (Sessions s) imei of
        None \<Rightarrow> s
      | Some cur \<Rightarrow> if Some cur = sess then s\<lparr>Sessions := AList.delete imei (Sessions s)\<rparr> else s)"

record session_info =
  InfoIMEI :: string
  InfoRemote :: string
  InfoConnected :: instant
  InfoLastSeen :: instant
  InfoTBConnected :: bool

text \<open>The order of a Go map is random; the model lists the table in the order of its list.\<close>

definition ListSessions :: "server \<Rightarrow> session_info list" where
  "ListSessions s = map (\<lambda>(_, sid). let x = Heap s ! sid in
     \<lparr>InfoIMEI = IMEI x, InfoRemote = Remote x, InfoConnected = Connected x, InfoLastSeen = LastSeen x,
      InfoTBConnected = tbConnected x\<rparr>) (Sessions s)"

definition SendToDevice :: "deps \<Rightarrow> string \<Rightarrow> byte list \<Rightarrow> server \<Rightarrow> string option \<times> server" where
  "SendToDevice d imei payload s =
     (case map_of (Sessions s) imei of
        None \<Rightarrow> (Some (''device '' @ imei @ '' is offline''), s)
      | Some sid \<Rightarrow> WriteWithDeadline d (SConn (Heap s ! sid)) payload s)"

section \<open>Uplink\<close>

text \<open>\<open>uplinkAllowed\<close> over any registry: the registry is asked only when checks are active.\<close>

definition gate :: "('r \<Rightarrow> bool) \<Rightarrow> (string \<Rightarrow> 'r \<Rightarrow> io \<Rightarrow> bool \<times> 'r \<times> io) \<Rightarrow> string \<Rightarrow> 'r \<Rightarrow> io \<Rightarrow> bool \<times> 'r \<times> io" where
  "gate enabled lookup imei r io =
     (if imei = '''' then (False, r, io)
      else if \<not> enabled r then (True, r, io)
      else lookup imei r io)"

definition uplinkAllowed :: "deps \<Rightarrow> string \<Rightarrow> server \<Rightarrow> bool \<times> server" where
  "uplinkAllowed d imei s =
     (let (b, r, io) = gate reg_Enabled (reg_IsRegistered (Env d)) imei (Reg s) (IO s) in
      (b, s\<lparr>Reg := r, IO := io\<rparr>))"

definition set_tbConnected :: "nat option \<Rightarrow> server \<Rightarrow> server" where
  "set_tbConnected sess s =
     (case sess of None \<Rightarrow> s | Some sid \<Rightarrow> upd_session sid (\<lambda>x. x\<lparr>tbConnected := True\<rparr>) s)"

definition ensureTBConnected :: "deps \<Rightarrow> string \<Rightarrow> server \<Rightarrow> bool \<times> server" where
  "ensureTBConnected d imei s =
     (let (ok, s) = uplinkAllowed d imei s in
      if \<not> ok then (False, s)
      else
        let sess = map_of (Sessions s) imei in
        if (case sess of None \<Rightarrow> False | Some sid \<Rightarrow> tbConnected (Heap s ! sid)) then (True, s)
        else
          let (err, s) = with_io (tb_ConnectDevice (Env d) (TB d) imei) s in
          if err \<noteq> None then (False, s) else (True, set_tbConnected sess s))"

text \<open>\<open>publishLocation\<close> and \<open>publishTelemetry\<close> differ in what they log only.\<close>

definition publishTelemetry :: "deps \<Rightarrow> string \<Rightarrow> instant \<Rightarrow> (string \<times> any) list \<Rightarrow> server \<Rightarrow> server" where
  "publishTelemetry d imei ts values s =
     (if imei = '''' then s
      else
        let (ok, s) = ensureTBConnected d imei s in
        if \<not> ok then s
        else
          let (ts, s) = (if time_IsZero ts then srv_Now d s else (ts, s)) in
          snd (with_io (tb_PublishTelemetry (Env d) (TB d) imei ts values) s))"

definition publishLocation :: "deps \<Rightarrow> string \<Rightarrow> instant \<Rightarrow> (string \<times> any) list \<Rightarrow> server \<Rightarrow> server" where
  "publishLocation d imei ts values s =
     (if imei = '''' then s
      else
        let (ok, s) = ensureTBConnected d imei s in
        if \<not> ok then s
        else
          let (ts, s) = (if time_IsZero ts then srv_Now d s else (ts, s)) in
          snd (with_io (tb_PublishTelemetry (Env d) (TB d) imei ts values) s))"

definition maybeConnectTB :: "deps \<Rightarrow> nat option \<Rightarrow> string \<Rightarrow> server \<Rightarrow> server" where
  "maybeConnectTB d sess imei s =
     (if sess = None \<or> imei = '''' then s
      else
        let (ok, s) = uplinkAllowed d imei s in
        if \<not> ok then s
        else
          let (err, s) = with_io (tb_ConnectDevice (Env d) (TB d) imei) s in
          if err \<noteq> None then s else set_tbConnected sess s)"

definition lbs_request :: "wifi_lbs \<Rightarrow> geo_request" where
  "lbs_request wl =
     \<lparr>GWifi = map (\<lambda>w. \<lparr>GMAC = MAC w, GRSSI = RSSI w\<rparr>) (Wifi wl),
      GCells = map (\<lambda>c. \<lparr>GMCC = MCC c, GMNC = MNC c, GLAC = LAC c, GCellID = CellID c, GSignal = Signal c\<rparr>) (Cells wl)\<rparr>"

definition resolveAndPublishLBS :: "deps \<Rightarrow> string \<Rightarrow> wifi_lbs \<Rightarrow> server \<Rightarrow> server" where
  "resolveAndPublishLBS d imei wl s =
     (let (res, s) = with_io (geo_Locate (Env d) (Geo d) (lbs_request wl)) s in
      case res of
        Inl err \<Rightarrow> s
      | Inr r \<Rightarrow> publishLocation d imei (LbsTime wl)
          [(''position_type'', AString ''lbs_wifi''), (''latitude'', AFloat (GLatitude r)),
           (''longitude'', AFloat (GLongitude r))] s)"

fun run_task :: "deps \<Rightarrow> task \<Rightarrow> server \<Rightarrow> server" where
  "run_task d (MaybeConnectTB sess imei) s = maybeConnectTB d sess imei s"
| "run_task d (ResolveAndPublishLBS imei wl) s = resolveAndPublishLBS d imei wl s"

definition spawn :: "task \<Rightarrow> server \<Rightarrow> server" where
  "spawn t s = s\<lparr>Tasks := Tasks s @ [t]\<rparr>"

section \<open>The frame handler\<close>

text \<open>
  One definition per case of the \<open>switch\<close> in \<open>handleFrame\<close>; each takes the variables
  \<open>imei\<close> and \<open>sess\<close> of the connection with the server, and returns both.
\<close>

definition handleLogin :: "deps \<Rightarrow> nat \<Rightarrow> string \<Rightarrow> frame \<Rightarrow> conn_local \<times> server \<Rightarrow> (conn_local \<times> server) go" where
  "handleLogin d sc remote frame ls =
     (let (l, s) = ls in
      do {
        r \<leftarrow> ParseLogin (Body frame);
        (case r of
           Inl err \<Rightarrow> Some (l, writeFrame d sc BuildLoginACK s)
         | Inr imei \<Rightarrow>
             let (sid, s) = registerSession d imei sc remote s;
                 s = writeFrame d sc BuildLoginACK s in
             Some (\<lparr>LImei = imei, LSess = Some sid\<rparr>, spawn (MaybeConnectTB (Some sid) imei) s))
      })"

definition handleTimeSync :: "deps \<Rightarrow> nat \<Rightarrow> conn_local \<times> server \<Rightarrow> (conn_local \<times> server) go" where
  "handleTimeSync d sc ls =
     (let (l, s) = ls;
          s = touch d (LSess l) s;
          (t, s) = srv_Now d s in
      Some (l, writeFrame d sc (BuildTimeSyncReply t) s))"

definition handleParam :: "deps \<Rightarrow> nat \<Rightarrow> conn_local \<times> server \<Rightarrow> (conn_local \<times> server) go" where
  "handleParam d sc ls =
     (let (l, s) = ls; s = touch d (LSess l) s in
      Some (l, writeFrame d sc BuildDefaultSettings s))"

definition handleICCID :: "deps \<Rightarrow> frame \<Rightarrow> conn_local \<times> server \<Rightarrow> (conn_local \<times> server) go" where
  "handleICCID d frame ls =
     (let (l, s) = ls; s = touch d (LSess l) s in
      case ParseICCID (Body frame) of
        Inl err \<Rightarrow> Some (l, s)
      | Inr iccid \<Rightarrow>
          let (t, s) = srv_Now d s in
          Some (l, publishTelemetry d (LImei l) t [(''iccid'', AString iccid)] s))"

definition handleStatus :: "deps \<Rightarrow> nat \<Rightarrow> frame \<Rightarrow> conn_local \<times> server \<Rightarrow> (conn_local \<times> server) go" where
  "handleStatus d sc frame ls =
     (let (l, s) = ls; s = touch d (LSess l) s in
      do {
        r \<leftarrow> ParseStatus (Body frame);
        let s = (case r of
                   Inl err \<Rightarrow> s
                 | Inr st \<Rightarrow>
                     if BatteryPercent st \<ge> 0 then
                       let (t, s) = srv_Now d s in
                       publishTelemetry d (LImei l) t [(''battery'', AInt (BatteryPercent st))] s
                     else s);
        Some (l, writeFrame d sc (BuildStatusEcho (Raw frame)) s)
      })"

definition gps_values :: "position \<Rightarrow> (string \<times> any) list" where
  "gps_values pos =
     [(''position_type'', AString ''gps''), (''latitude'', AFloat (Latitude pos)),
      (''longitude'', AFloat (Longitude pos)), (''speed'', AFloat (SpeedKmh pos)),
      (''course'', AFloat (Course pos)), (''satellites'', AInt (Satellites pos)), (''valid'', ABool (Valid pos))]"

definition handleGPS :: "deps \<Rightarrow> nat \<Rightarrow> frame \<Rightarrow> conn_local \<times> server \<Rightarrow> (conn_local \<times> server) go" where
  "handleGPS d sc frame ls =
     (let (l, s) = ls in
      if LImei l = '''' then Some (l, s)
      else
        let s = touch d (LSess l) s in
        do {
          r \<leftarrow> ParseGPS (Body frame);
          let s = (case r of
                     Inl err \<Rightarrow> s
                   | Inr pos \<Rightarrow> publishLocation d (LImei l) (PosTime pos) (gps_values pos) s);
          dt \<leftarrow> DatetimeFromBody (Body frame);
          ack \<leftarrow> BuildDatetimeACK (Proto frame) dt;
          Some (l, writeFrame d sc ack s)
        })"

definition handleWifi :: "deps \<Rightarrow> nat \<Rightarrow> frame \<Rightarrow> conn_local \<times> server \<Rightarrow> (conn_local \<times> server) go" where
  "handleWifi d sc frame ls =
     (let (l, s) = ls; s = touch d (LSess l) s in
      do {
        r \<leftarrow> ParseWifiLBS (Body frame);
        let s = (case r of
                   Inl err \<Rightarrow> s
                 | Inr wl \<Rightarrow>
                     if LImei l \<noteq> '''' \<and> geo_Enabled (Geo d) then spawn (ResolveAndPublishLBS (LImei l) wl) s else s);
        dt \<leftarrow> DatetimeFromBody (Body frame);
        ack \<leftarrow> BuildDatetimeACK (Proto frame) dt;
        Some (l, writeFrame d sc ack s)
      })"

definition handleOther :: "deps \<Rightarrow> conn_local \<times> server \<Rightarrow> (conn_local \<times> server) go" where
  "handleOther d ls = (let (l, s) = ls in Some (l, touch d (LSess l) s))"

definition handleFrame :: "deps \<Rightarrow> nat \<Rightarrow> string \<Rightarrow> frame \<Rightarrow> conn_local \<times> server \<Rightarrow> (conn_local \<times> server) go" where
  "handleFrame d sc remote frame ls =
     (let p = Proto frame in
      if p = MsgLogin then handleLogin d sc remote frame ls
      else if p = MsgTimeSync then handleTimeSync d sc ls
      else if p = MsgParam then handleParam d sc ls
      else if p = MsgICCID then handleICCID d frame ls
      else if p = MsgStatus then handleStatus d sc frame ls
      else if p = MsgGPS \<or> p = MsgGPSLBS \<or> p = MsgGPS2 \<or> p = MsgGPSOffline then handleGPS d sc frame ls
      else if p = MsgWifiLBS \<or> p = MsgWifiLBS2 \<or> p = MsgOfflineWifi \<or> p = MsgOnlineWifi then handleWifi d sc frame ls
      else handleOther d ls)"

section \<open>The life of a connection\<close>

text \<open>The deferred calls of \<open>handleConn\<close>: the session first, then the connection.\<close>

definition cleanup :: "deps \<Rightarrow> nat \<Rightarrow> conn_local \<Rightarrow> server \<Rightarrow> server" where
  "cleanup d sc l s =
     closeConn sc
       (if LImei l \<noteq> '''' then
          let s = removeSession (LImei l) (LSess l) s in
          if (case LSess l of None \<Rightarrow> False | Some sid \<Rightarrow> tbConnected (Heap s ! sid))
          then snd (with_io (tb_DisconnectDevice (Env d) (TB d) (LImei l)) s) else s
        else s)"

definition fresh_local :: conn_local where
  "fresh_local = \<lparr>LImei = '''', LSess = None\<rparr>"

text \<open>A connection that is served alone: every read up to the read error, then the cleanup.\<close>

definition handleConn :: "deps \<Rightarrow> nat \<Rightarrow> string \<Rightarrow> byte list list \<Rightarrow> server \<Rightarrow> server go" where
  "handleConn d sc remote reads s = do {
     (buf, l, s) \<leftarrow> readLoop (handleFrame d sc remote) reads [] (fresh_local, s);
     Some (cleanup d sc l s) }"

section \<open>The handler returns\<close>

lemma handleLogin_total: "\<exists>ls'. handleLogin d sc remote frame (l, s) = Some ls'"
  by (simp add: handleLogin_def ParseLogin_eq Let_def split: sum.split prod.split)

lemma handleICCID_total: "\<exists>ls'. handleICCID d frame (l, s) = Some ls'"
  by (simp add: handleICCID_def Let_def split: sum.split prod.split)

lemma handleStatus_total: "\<exists>ls'. handleStatus d sc frame (l, s) = Some ls'"
  by (simp add: handleStatus_def ParseStatus_eq Let_def)

lemma handleGPS_total: "\<exists>ls'. handleGPS d sc frame (l, s) = Some ls'"
  using ParseGPS_total [of "Body frame"]
  by (auto simp: handleGPS_def DatetimeFromBody_eq BuildDatetimeACK_eq Let_def)

lemma handleWifi_total: "\<exists>ls'. handleWifi d sc frame (l, s) = Some ls'"
  using ParseWifiLBS_total [of "Body frame"]
  by (auto simp: handleWifi_def DatetimeFromBody_eq BuildDatetimeACK_eq Let_def)

text \<open>A case rule for the \<open>switch\<close>.\<close>

definition is_gps :: "byte \<Rightarrow> bool" where
  "is_gps p \<longleftrightarrow> p = MsgGPS \<or> p = MsgGPSLBS \<or> p = MsgGPS2 \<or> p = MsgGPSOffline"

lemma handleFrame_cases [case_names login time param iccid status gps wifi other]:
  assumes "Proto frame = MsgLogin \<Longrightarrow> P (handleLogin d sc remote frame ls)"
    and "Proto frame = MsgTimeSync \<Longrightarrow> P (handleTimeSync d sc ls)"
    and "Proto frame = MsgParam \<Longrightarrow> P (handleParam d sc ls)"
    and "Proto frame = MsgICCID \<Longrightarrow> P (handleICCID d frame ls)"
    and "Proto frame = MsgStatus \<Longrightarrow> P (handleStatus d sc frame ls)"
    and "is_gps (Proto frame) \<Longrightarrow> P (handleGPS d sc frame ls)"
    and "is_wifi (Proto frame) \<Longrightarrow> P (handleWifi d sc frame ls)"
    and "Proto frame \<notin> {MsgLogin, MsgTimeSync, MsgParam, MsgICCID, MsgStatus} \<Longrightarrow> \<not> is_gps (Proto frame) \<Longrightarrow>
      \<not> is_wifi (Proto frame) \<Longrightarrow> P (handleOther d ls)"
  shows "P (handleFrame d sc remote frame ls)"
proof -
  define p where "p = Proto frame"
  show ?thesis
    using assms unfolding handleFrame_def Let_def is_gps_def is_wifi_def p_def [symmetric]
    by (cases "p = MsgLogin"; cases "p = MsgTimeSync"; cases "p = MsgParam"; cases "p = MsgICCID";
        cases "p = MsgStatus") auto
qed

lemma handleFrame_total [no_panic]: "\<exists>ls'. handleFrame d sc remote frame ls = Some ls'"
proof -
  obtain l s where ls: "ls = (l, s)" by (cases ls)
  show ?thesis
    unfolding ls
    by (rule handleFrame_cases)
      (simp_all add: handleLogin_total handleICCID_total handleStatus_total handleGPS_total handleWifi_total
        handleTimeSync_def handleParam_def handleOther_def Let_def split: prod.split del: split_paired_Ex)
qed

section \<open>The invariant\<close>

text \<open>
  A trace is in order when every connect and every telemetry call is for a licensed IMEI,
  telemetry and disconnect calls come after a connect call for their IMEI.
\<close>

fun call_ok :: "env \<Rightarrow> registry \<Rightarrow> event list \<Rightarrow> tb_call \<Rightarrow> bool" where
  "call_ok env r0 tr (ConnectCall i) \<longleftrightarrow> licensed env r0 i"
| "call_ok env r0 tr (TelemetryCall i ts vs) \<longleftrightarrow> licensed env r0 i \<and> Uplink (ConnectCall i) \<in> set tr"
| "call_ok env r0 tr (DisconnectCall i) \<longleftrightarrow> Uplink (ConnectCall i) \<in> set tr"

definition trace_ok :: "env \<Rightarrow> registry \<Rightarrow> event list \<Rightarrow> bool" where
  "trace_ok env r0 tr \<longleftrightarrow> (\<forall>k u. k < length tr \<and> tr ! k = Uplink u \<longrightarrow> call_ok env r0 (take k tr) u)"

lemma trace_ok_snoc: "trace_ok env r0 (tr @ [e]) \<longleftrightarrow>
    trace_ok env r0 tr \<and> (\<forall>u. e = Uplink u \<longrightarrow> call_ok env r0 tr u)"
proof -
  define Q where "Q k \<longleftrightarrow> (\<forall>u. (tr @ [e]) ! k = Uplink u \<longrightarrow> call_ok env r0 (take k (tr @ [e])) u)" for k
  have "trace_ok env r0 (tr @ [e]) \<longleftrightarrow> (\<forall>k < Suc (length tr). Q k)"
    by (auto simp: trace_ok_def Q_def)
  also have "\<dots> \<longleftrightarrow> (\<forall>k < length tr. Q k) \<and> Q (length tr)"
    by (auto simp: less_Suc_eq)
  also have "(\<forall>k < length tr. Q k) \<longleftrightarrow> trace_ok env r0 tr"
    by (auto simp: trace_ok_def Q_def nth_append)
  finally show ?thesis by (simp add: Q_def)
qed

lemma trace_ok_quiet: "trace_ok env r0 tr \<Longrightarrow> list_all (\<lambda>e. \<forall>u. e \<noteq> Uplink u) es \<Longrightarrow> trace_ok env r0 (tr @ es)"
proof (induction es rule: rev_induct)
  case (snoc e es)
  then show ?case by (simp add: trace_ok_snoc flip: append_assoc)
qed simp

definition table_ok :: "server \<Rightarrow> bool" where
  "table_ok s \<longleftrightarrow> distinct (map fst (Sessions s)) \<and>
     (\<forall>i sid. map_of (Sessions s) i = Some sid \<longrightarrow> sid < length (Heap s) \<and> IMEI (Heap s ! sid) = i)"

definition connected_ok :: "server \<Rightarrow> bool" where
  "connected_ok s \<longleftrightarrow> (\<forall>sid < length (Heap s). tbConnected (Heap s ! sid) \<longrightarrow>
     Uplink (ConnectCall (IMEI (Heap s ! sid))) \<in> set (Trace (IO s)))"

definition inv :: "deps \<Rightarrow> registry \<Rightarrow> server \<Rightarrow> bool" where
  "inv d r0 s \<longleftrightarrow> table_ok s \<and> connected_ok s \<and> trusted (Env d) (Reg s) \<and> same_reg r0 (Reg s) \<and>
     trace_ok (Env d) r0 (Trace (IO s))"

text \<open>
  Most operations leave the table of sessions, the connections and the identity of the
  sessions alone (\<open>calm\<close>).
\<close>

definition calm :: "server \<Rightarrow> server \<Rightarrow> bool" where
  "calm s s' \<longleftrightarrow> Sessions s' = Sessions s \<and> Closed s' = Closed s \<and> Tasks s' = Tasks s \<and>
     length (Heap s') = length (Heap s) \<and>
     (\<forall>sid < length (Heap s). IMEI (Heap s' ! sid) = IMEI (Heap s ! sid) \<and> SConn (Heap s' ! sid) = SConn (Heap s ! sid))"

definition ok :: "deps \<Rightarrow> registry \<Rightarrow> server \<Rightarrow> server \<Rightarrow> bool" where
  "ok d r0 s s' \<longleftrightarrow> calm s s' \<and> (inv d r0 s \<longrightarrow> inv d r0 s')"

lemma ok_refl [simp]: "ok d r0 s s"
  by (simp add: ok_def calm_def)

lemma ok_trans [trans]: "ok d r0 a b \<Longrightarrow> ok d r0 b c \<Longrightarrow> ok d r0 a c"
  by (auto simp: ok_def calm_def)

text \<open>Adding events that are no calls to the uplink, in the same state.\<close>

lemma inv_events:
  assumes "inv d r0 s" "extends (\<lambda>e. \<forall>u. e \<noteq> Uplink u) (IO s) io"
  shows "inv d r0 (s\<lparr>IO := io\<rparr>)"
proof -
  obtain es where es: "Trace io = Trace (IO s) @ es" "list_all (\<lambda>e. \<forall>u. e \<noteq> Uplink u) es"
    using assms(2) by (auto simp: extends_def)
  with assms(1) show ?thesis
    by (auto simp: inv_def table_ok_def connected_ok_def trace_ok_quiet)
qed

lemma ok_events: "extends (\<lambda>e. \<forall>u. e \<noteq> Uplink u) (IO s) io \<Longrightarrow> ok d r0 s (s\<lparr>IO := io\<rparr>)"
  using inv_events by (auto simp: ok_def calm_def)

lemma inv_tasks [simp]: "inv d r0 (s\<lparr>Tasks := ts\<rparr>) = inv d r0 s"
  by (simp add: inv_def table_ok_def connected_ok_def)

lemma srv_Now_ok: "srv_Now d s = (t, s') \<Longrightarrow> ok d r0 s s'"
  by (auto simp: srv_Now_def with_io_def time_Now_def intro!: ok_events extends_tick)

lemma upd_session_simps [simp]:
  "Sessions (upd_session sid f s) = Sessions s" "Closed (upd_session sid f s) = Closed s"
  "length (Heap (upd_session sid f s)) = length (Heap s)" "IO (upd_session sid f s) = IO s"
  "Reg (upd_session sid f s) = Reg s" "Tasks (upd_session sid f s) = Tasks s"
  by (simp_all add: upd_session_def)

lemma Heap_upd_session [simp]:
  "Heap (upd_session sid f s) ! k = (if k = sid \<and> sid < length (Heap s) then f (Heap s ! sid) else Heap s ! k)"
  by (cases "sid < length (Heap s)") (auto simp: upd_session_def list_update_beyond not_less)

lemma upd_session_ok:
  assumes "\<And>x. IMEI (f x) = IMEI x \<and> SConn (f x) = SConn x"
    and "\<And>x. tbConnected (f x) \<Longrightarrow> tbConnected x"
  shows "ok d r0 s (upd_session sid f s)"
proof -
  let ?s = "upd_session sid f s"
  have "IMEI (Heap ?s ! k) = IMEI (Heap s ! k) \<and> SConn (Heap ?s ! k) = SConn (Heap s ! k) \<and>
      (tbConnected (Heap ?s ! k) \<longrightarrow> tbConnected (Heap s ! k))" for k
    using assms by simp
  then show ?thesis
    by (simp add: ok_def calm_def inv_def table_ok_def connected_ok_def del: Heap_upd_session)
qed

lemma touch_ok: "ok d r0 s (touch d sess s)"
proof (cases sess)
  case (Some sid)
  obtain t s1 where n: "srv_Now d s = (t, s1)" by fastforce
  have "ok d r0 s1 (upd_session sid (\<lambda>x. x\<lparr>LastSeen := t\<rparr>) s1)" by (rule upd_session_ok) simp_all
  with srv_Now_ok [OF n] show ?thesis using Some n by (simp add: touch_def) (rule ok_trans)
qed (simp add: touch_def)

lemma Write_ok: "WriteWithDeadline d sc b s = (e, s') \<Longrightarrow> ok d r0 s s'"
  by (auto simp: WriteWithDeadline_def split: if_splits option.splits
      intro!: ok_events extends_tick extends_log_tick)

lemma writeFrame_ok: "ok d r0 s (writeFrame d sc b s)"
  using Write_ok [of d sc b s "fst (WriteWithDeadline d sc b s)"] by (simp add: writeFrame_def)

section \<open>The uplink keeps the invariant\<close>

text \<open>The gate, over any registry that satisfies the interface.\<close>

context registry_interface
begin

lemma gate_facts:
  assumes "gate enabled lookup imei r io = (b, r', io')"
  shows "asks 4 io io'" "enabled r' = enabled r" "good r \<Longrightarrow> good r'" "b \<Longrightarrow> imei \<noteq> ''''"
  using assms cost stable keeps empty_closed by (auto simp: gate_def split: if_splits)

end

lemma asks_quiet: "asks n io io' \<Longrightarrow> extends (\<lambda>e. \<forall>u. e \<noteq> Uplink u) io io'"
  unfolding asks_def by (auto elim!: extends_mono)

lemma gate_licenses:
  assumes "gate reg_Enabled (reg_IsRegistered env) imei r io = (b, r', io')" "trusted env r" b
  shows "licensed env r imei"
  using assms lookup_licenses [of env imei r io r' io']
  by (cases r) (auto simp: gate_def licensed_def split: if_splits)

lemma gate_same:
  "gate reg_Enabled (reg_IsRegistered env) imei r io = (b, r', io') \<Longrightarrow> same_reg r r'"
  using reg_lookup_same by (auto simp: gate_def split: if_splits)

lemma uplinkAllowed_ok:
  assumes "uplinkAllowed d imei s = (b, s')"
  shows "ok d r0 s s' \<and> Heap s' = Heap s \<and> (inv d r0 s \<and> b \<longrightarrow> licensed (Env d) r0 imei)"
proof -
  obtain r io where g: "gate reg_Enabled (reg_IsRegistered (Env d)) imei (Reg s) (IO s) = (b, r, io)"
    and s': "s' = s\<lparr>Reg := r, IO := io\<rparr>"
    using assms by (auto simp: uplinkAllowed_def split: prod.splits)
  note gf = paapeli_registry.gate_facts [OF g]
  have "inv d r0 s' \<and> (b \<longrightarrow> licensed (Env d) r0 imei)" if i: "inv d r0 s"
  proof -
    have "inv d r0 (s\<lparr>IO := io\<rparr>)"
      using inv_events [OF i asks_quiet [OF gf(1)]] .
    moreover have "trusted (Env d) r" "same_reg r0 r"
      using i gf(3) gate_same [OF g] same_reg_trans by (auto simp: inv_def)
    ultimately have "inv d r0 s'"
      by (simp add: s' inv_def table_ok_def connected_ok_def)
    moreover have "b \<longrightarrow> licensed (Env d) r0 imei"
      using gate_licenses [OF g] i licensed_same by (auto simp: inv_def)
    ultimately show ?thesis by simp
  qed
  then show ?thesis by (simp add: ok_def calm_def s')
qed

text \<open>A call to the uplink client.\<close>

lemma call_inv:
  assumes "calls u (IO s) io" "inv d r0 s" "call_ok (Env d) r0 (Trace (IO s)) u"
  shows "inv d r0 (s\<lparr>IO := io\<rparr>) \<and> Uplink u \<in> set (Trace io)"
proof -
  obtain es where es: "Trace io = (Trace (IO s) @ [Uplink u]) @ es" "list_all is_publish es"
    using assms(1) by (auto simp: calls_def)
  have "list_all (\<lambda>e. \<forall>u. e \<noteq> Uplink u) es"
    using es(2) by (auto simp: list_all_iff)
  moreover have "trace_ok (Env d) r0 (Trace (IO s) @ [Uplink u])"
    using assms(2,3) by (simp add: trace_ok_snoc inv_def)
  ultimately have "trace_ok (Env d) r0 (Trace io)"
    unfolding es(1) by (rule trace_ok_quiet [rotated])
  with assms(2) es(1) show ?thesis by (auto simp: inv_def table_ok_def connected_ok_def)
qed

lemma connect_inv:
  assumes "with_io (tb_ConnectDevice (Env d) c imei) s = (e, s')" "inv d r0 s" "licensed (Env d) r0 imei"
  shows "inv d r0 s' \<and> Uplink (ConnectCall imei) \<in> set (Trace (IO s')) \<and> Heap s' = Heap s \<and> Sessions s' = Sessions s"
proof -
  obtain io where c: "tb_ConnectDevice (Env d) c imei (IO s) = (e, io)" and s': "s' = s\<lparr>IO := io\<rparr>"
    using assms(1) by (auto simp: with_io_def split: prod.splits)
  from call_inv [OF tb.connect_calls [OF c] assms(2)] assms(3) show ?thesis by (simp add: s')
qed

lemma with_io_calm: "with_io f s = (x, s') \<Longrightarrow> calm s s' \<and> Heap s' = Heap s"
  by (auto simp: with_io_def calm_def split: prod.splits)

lemma set_tbConnected_calm: "calm s (set_tbConnected sess s)"
  by (simp add: calm_def set_tbConnected_def split: option.split)

lemma set_tbConnected_inv:
  assumes "inv d r0 s" "\<And>sid. sess = Some sid \<Longrightarrow> sid < length (Heap s) \<Longrightarrow>
    Uplink (ConnectCall (IMEI (Heap s ! sid))) \<in> set (Trace (IO s))"
  shows "inv d r0 (set_tbConnected sess s)"
proof (cases sess)
  case (Some sid)
  let ?s = "upd_session sid (\<lambda>x. x\<lparr>tbConnected := True\<rparr>) s"
  have "IMEI (Heap ?s ! k) = IMEI (Heap s ! k)" for k by simp
  then have "table_ok ?s" using assms(1) by (simp add: inv_def table_ok_def del: Heap_upd_session)
  moreover have "connected_ok ?s"
    using assms Some by (auto simp: inv_def connected_ok_def)
  ultimately show ?thesis using assms(1) Some by (simp add: inv_def set_tbConnected_def)
qed (use assms in \<open>simp add: set_tbConnected_def\<close>)

lemma calm_trans [trans]: "calm a b \<Longrightarrow> calm b c \<Longrightarrow> calm a c"
  by (auto simp: calm_def)

lemma ensureTBConnected_ok:
  assumes e: "ensureTBConnected d imei s = (b, s')"
  shows "ok d r0 s s' \<and> (inv d r0 s \<and> b \<longrightarrow> licensed (Env d) r0 imei \<and>
    Uplink (ConnectCall imei) \<in> set (Trace (IO s')))"
proof -
  obtain a s1 where u: "uplinkAllowed d imei s = (a, s1)" by fastforce
  note uf = uplinkAllowed_ok [OF u, of r0]
  let ?sess = "map_of (Sessions s1) imei"
  show ?thesis
  proof (cases a)
    case False
    with e u have "s' = s1" "\<not> b" by (simp_all add: ensureTBConnected_def)
    with uf show ?thesis by simp
  next
    case True
    show ?thesis
    proof (cases "case ?sess of None \<Rightarrow> False | Some sid \<Rightarrow> tbConnected (Heap s1 ! sid)")
      case conn: True
      with e u True have s': "s' = s1" by (simp add: ensureTBConnected_def)
      from conn obtain sid where sid: "?sess = Some sid" "tbConnected (Heap s1 ! sid)"
        by (auto split: option.splits)
      have "Uplink (ConnectCall imei) \<in> set (Trace (IO s1))" if "inv d r0 s"
      proof -
        have i: "inv d r0 s1" using uf that by (simp add: ok_def)
        then have "sid < length (Heap s1)" "IMEI (Heap s1 ! sid) = imei"
          using sid(1) by (auto simp: inv_def table_ok_def)
        with i sid(2) show ?thesis by (auto simp: inv_def connected_ok_def)
      qed
      with uf True s' show ?thesis by simp
    next
      case conn: False
      obtain err s2 where c: "with_io (tb_ConnectDevice (Env d) (TB d) imei) s1 = (err, s2)" by fastforce
      have sess: "map_of (Sessions s1) imei = ?sess" ..
      have s': "s' = (if err \<noteq> None then s2 else set_tbConnected ?sess s2)"
        using e u True conn c by (auto simp: ensureTBConnected_def split: if_splits)
      have calm: "calm s s'"
      proof -
        have "calm s1 s2" using with_io_calm [OF c] by simp
        moreover have "calm s2 s'" using s' set_tbConnected_calm by (simp add: calm_def)
        moreover have "calm s s1" using uf by (simp add: ok_def)
        ultimately show ?thesis by (blast intro: calm_trans)
      qed
      have "inv d r0 s' \<and> licensed (Env d) r0 imei \<and> Uplink (ConnectCall imei) \<in> set (Trace (IO s'))"
        if i: "inv d r0 s"
      proof -
        have i1: "inv d r0 s1" and l: "licensed (Env d) r0 imei" using uf i True by (simp_all add: ok_def)
        note ci = connect_inv [OF c i1 l]
        have t: "IMEI (Heap s2 ! sid) = imei" if "?sess = Some sid" for sid
          using that i1 ci by (auto simp: inv_def table_ok_def)
        have "inv d r0 (set_tbConnected ?sess s2)"
          by (rule set_tbConnected_inv) (use ci t in auto)
        moreover have "IO (set_tbConnected ?sess s2) = IO s2"
          by (simp add: set_tbConnected_def upd_session_def split: option.split)
        ultimately show ?thesis using ci l s' by simp
      qed
      with calm show ?thesis by (simp add: ok_def)
    qed
  qed
qed

lemma telemetry_ok:
  assumes t: "with_io (tb_PublishTelemetry (Env d) (TB d) imei ts vs) s = (e, s')"
    and l: "inv d r0 s \<Longrightarrow> licensed (Env d) r0 imei \<and> Uplink (ConnectCall imei) \<in> set (Trace (IO s))"
  shows "ok d r0 s s'"
proof -
  obtain io where c: "tb_PublishTelemetry (Env d) (TB d) imei ts vs (IO s) = (e, io)" and s': "s' = s\<lparr>IO := io\<rparr>"
    using t by (auto simp: with_io_def split: prod.splits)
  have "inv d r0 s'" if "inv d r0 s"
    using call_inv [OF tb.telemetry_calls [OF c] that] l that s' by simp
  then show ?thesis by (simp add: ok_def calm_def s')
qed

lemma publishTelemetry_ok: "ok d r0 s (publishTelemetry d imei ts vs s)"
proof (cases "imei = ''''")
  case False
  obtain b s1 where e: "ensureTBConnected d imei s = (b, s1)" by fastforce
  note ef = ensureTBConnected_ok [OF e, of r0]
  show ?thesis
  proof (cases b)
    case True
    obtain ts2 s2 where n: "(if time_IsZero ts then srv_Now d s1 else (ts, s1)) = (ts2, s2)" by fastforce
    have o2: "ok d r0 s1 s2" using n srv_Now_ok by (auto split: if_splits)
    have tr: "set (Trace (IO s1)) \<subseteq> set (Trace (IO s2))"
      using n by (auto simp: srv_Now_def with_io_def time_Now_def tick_def split: if_splits)
    obtain err s3 where t: "with_io (tb_PublishTelemetry (Env d) (TB d) imei ts2 vs) s2 = (err, s3)" by fastforce
    have "publishTelemetry d imei ts vs s = s3"
      using False True e n t by (auto simp: publishTelemetry_def split: if_splits)
    moreover have "ok d r0 s s3" if "inv d r0 s"
    proof -
      have "ok d r0 s2 s3"
        by (rule telemetry_ok [OF t]) (use ef True that tr in auto)
      with ef o2 show ?thesis by (blast intro: ok_trans)
    qed
    moreover have "calm s s3"
      using ef o2 with_io_calm [OF t] by (auto simp: ok_def intro: calm_trans)
    ultimately show ?thesis by (auto simp: ok_def)
  next
    case False
    with \<open>imei \<noteq> ''''\<close> e ef show ?thesis by (simp add: publishTelemetry_def)
  qed
qed (simp add: publishTelemetry_def)

lemma publishLocation_eq: "publishLocation = publishTelemetry"
  by (intro ext) (simp add: publishLocation_def publishTelemetry_def)

text \<open>A task refers to a session of its IMEI.\<close>

fun task_ok :: "server \<Rightarrow> task \<Rightarrow> bool" where
  "task_ok s (MaybeConnectTB sess imei) \<longleftrightarrow>
     (\<forall>sid. sess = Some sid \<longrightarrow> sid < length (Heap s) \<and> IMEI (Heap s ! sid) = imei)"
| "task_ok s (ResolveAndPublishLBS imei wl) \<longleftrightarrow> True"

section \<open>The handler keeps the invariant\<close>

text \<open>Sessions are never moved and keep their identity.\<close>

definition grows :: "server \<Rightarrow> server \<Rightarrow> bool" where
  "grows s s' \<longleftrightarrow> length (Heap s) \<le> length (Heap s') \<and>
     (\<forall>sid < length (Heap s). IMEI (Heap s' ! sid) = IMEI (Heap s ! sid) \<and> SConn (Heap s' ! sid) = SConn (Heap s ! sid))"

lemma calm_grows: "calm s s' \<Longrightarrow> grows s s'"
  by (simp add: calm_def grows_def)

lemma grows_refl [simp]: "grows s s"
  by (simp add: grows_def)

lemma grows_trans [trans]: "grows a b \<Longrightarrow> grows b c \<Longrightarrow> grows a c"
  by (auto simp: grows_def)

lemma task_ok_grows: "grows s s' \<Longrightarrow> task_ok s t \<Longrightarrow> task_ok s' t"
  by (cases t) (auto simp: grows_def)

text \<open>The variables of a connection name a session of that IMEI on that connection.\<close>

definition local_ok :: "nat \<Rightarrow> conn_local \<Rightarrow> server \<Rightarrow> bool" where
  "local_ok c l s \<longleftrightarrow> (LImei l = '''' \<longleftrightarrow> LSess l = None) \<and>
     (\<forall>sid. LSess l = Some sid \<longrightarrow> sid < length (Heap s) \<and> IMEI (Heap s ! sid) = LImei l \<and> SConn (Heap s ! sid) = c)"

lemma local_ok_grows: "grows s s' \<Longrightarrow> local_ok c l s \<Longrightarrow> local_ok c l s'"
  by (auto simp: grows_def local_ok_def)

lemma local_ok_fresh: "local_ok c fresh_local s"
  by (simp add: local_ok_def fresh_local_def)

lemma closeConn_inv: "inv d r0 s \<Longrightarrow> inv d r0 (closeConn c s)"
proof -
  assume "inv d r0 s"
  then have "inv d r0 (s\<lparr>IO := log (ClosedConn c) (IO s)\<rparr>)"
    by (rule inv_events) (simp add: extends_log)
  then show ?thesis by (simp add: closeConn_def inv_def table_ok_def connected_ok_def)
qed

lemma registerSession_facts:
  assumes r: "registerSession d imei sc remote s = (sid, s')"
  shows "sid = length (Heap s)" "Heap s' = Heap s @ [Heap s' ! sid]" "length (Heap s') = Suc (length (Heap s))"
    "IMEI (Heap s' ! sid) = imei" "SConn (Heap s' ! sid) = sc"
    "Sessions s' = AList.update imei sid (Sessions s)" "Tasks s' = Tasks s"
    "Closed s' = Closed s \<union> (case map_of (Sessions s) imei of None \<Rightarrow> {}
       | Some old \<Rightarrow> if SConn (Heap s ! old) \<noteq> sc then {SConn (Heap s ! old)} else {})"
    "inv d r0 s \<Longrightarrow> inv d r0 s'"
proof -
  define s1 where "s1 = (case map_of (Sessions s) imei of
                 None \<Rightarrow> s
               | Some old \<Rightarrow> if SConn (Heap s ! old) \<noteq> sc then closeConn (SConn (Heap s ! old)) s else s)"
  obtain t1 s2 where n1: "srv_Now d s1 = (t1, s2)" by fastforce
  obtain t2 s3 where n2: "srv_Now d s2 = (t2, s3)" by fastforce
  define sess where "sess = \<lparr>IMEI = imei, SConn = sc, Remote = remote, Connected = t1, LastSeen = t2, tbConnected = False\<rparr>"
  have e: "sid = length (Heap s3)" "s' = s3\<lparr>Heap := Heap s3 @ [sess], Sessions := AList.update imei sid (Sessions s3)\<rparr>"
    using r n1 n2 by (auto simp: registerSession_def s1_def [symmetric] sess_def Let_def)
  have s1: "Heap s1 = Heap s" "Sessions s1 = Sessions s" "Tasks s1 = Tasks s"
    by (simp_all add: s1_def closeConn_def split: option.split)
  have s3: "Heap s3 = Heap s" "Sessions s3 = Sessions s" "Closed s3 = Closed s1" "Tasks s3 = Tasks s"
    using n1 n2 s1 by (auto simp: srv_Now_def with_io_def split: prod.splits)
  show "sid = length (Heap s)" "length (Heap s') = Suc (length (Heap s))" "Tasks s' = Tasks s"
    using e s3 by simp_all
  show "Heap s' = Heap s @ [Heap s' ! sid]" "IMEI (Heap s' ! sid) = imei" "SConn (Heap s' ! sid) = sc"
    "Sessions s' = AList.update imei sid (Sessions s)"
    using e s3 by (simp_all add: sess_def)
  show "Closed s' = Closed s \<union> (case map_of (Sessions s) imei of None \<Rightarrow> {}
       | Some old \<Rightarrow> if SConn (Heap s ! old) \<noteq> sc then {SConn (Heap s ! old)} else {})"
    using e s3 by (auto simp: s1_def closeConn_def split: option.split)
  assume "inv d r0 s"
  then have "inv d r0 s1" by (simp add: s1_def closeConn_inv split: option.split)
  then have "inv d r0 s3" using srv_Now_ok [OF n1, of r0] srv_Now_ok [OF n2, of r0] by (simp add: ok_def)
  then show "inv d r0 s'"
    using e s3
    by (auto simp: inv_def table_ok_def connected_ok_def update_conv' distinct_update nth_append sess_def
        less_Suc_eq split: if_splits)
qed

lemma registerSession_grows: "registerSession d imei sc remote s = (sid, s') \<Longrightarrow> grows s s'"
  using registerSession_facts(2,3) [of d imei sc remote s sid s']
  by (metis (no_types, lifting) grows_def le_SucI nth_append order_refl)

lemma removeSession_inv: "inv d r0 s \<Longrightarrow> inv d r0 (removeSession imei sess s)"
  by (auto simp: removeSession_def inv_def table_ok_def connected_ok_def delete_conv' distinct_delete
      simp del: map_of_eq_Some_iff split: option.split if_splits)

lemma removeSession_simps [simp]:
  "Heap (removeSession imei sess s) = Heap s" "IO (removeSession imei sess s) = IO s"
  "Closed (removeSession imei sess s) = Closed s" "Tasks (removeSession imei sess s) = Tasks s"
  by (simp_all add: removeSession_def split: option.split)

text \<open>What the handler does short of a login: it keeps the table and may start tasks.\<close>

definition work :: "deps \<Rightarrow> registry \<Rightarrow> task list \<Rightarrow> server \<Rightarrow> server \<Rightarrow> bool" where
  "work d r0 ts s s' \<longleftrightarrow> Sessions s' = Sessions s \<and> Closed s' = Closed s \<and> length (Heap s') = length (Heap s) \<and>
     grows s s' \<and> Tasks s' = Tasks s @ ts \<and> (inv d r0 s \<longrightarrow> inv d r0 s')"

lemma ok_work: "ok d r0 s s' \<Longrightarrow> work d r0 [] s s'"
  by (simp add: ok_def calm_def work_def grows_def)

lemma work_trans: "work d r0 ts a b \<Longrightarrow> work d r0 us b c \<Longrightarrow> work d r0 (ts @ us) a c"
  by (auto simp: work_def intro: grows_trans)

lemma work_then: "work d r0 ts a b \<Longrightarrow> ok d r0 b c \<Longrightarrow> work d r0 ts a c"
  using work_trans [OF _ ok_work] by fastforce

lemma ok_then: "ok d r0 a b \<Longrightarrow> work d r0 ts b c \<Longrightarrow> work d r0 ts a c"
  using work_trans [OF ok_work] by fastforce

lemma spawn_work: "work d r0 [t] s (spawn t s)"
  by (simp add: work_def spawn_def grows_def)

lemma handleTimeSync_ok: "handleTimeSync d sc (l, s) = Some (l', s') \<Longrightarrow> l' = l \<and> ok d r0 s s'"
  by (auto simp: handleTimeSync_def Let_def split: prod.splits
      intro: ok_trans [OF touch_ok ok_trans [OF srv_Now_ok writeFrame_ok]])

lemma handleParam_ok: "handleParam d sc (l, s) = Some (l', s') \<Longrightarrow> l' = l \<and> ok d r0 s s'"
  by (auto simp: handleParam_def Let_def intro: ok_trans [OF touch_ok writeFrame_ok])

lemma handleICCID_ok: "handleICCID d frame (l, s) = Some (l', s') \<Longrightarrow> l' = l \<and> ok d r0 s s'"
  by (auto simp: handleICCID_def Let_def touch_ok split: prod.splits sum.splits
      intro: ok_trans [OF touch_ok ok_trans [OF srv_Now_ok publishTelemetry_ok]])

lemma handleStatus_ok: "handleStatus d sc frame (l, s) = Some (l', s') \<Longrightarrow> l' = l \<and> ok d r0 s s'"
  by (auto simp: handleStatus_def Let_def ParseStatus_eq split: prod.splits sum.splits if_splits list.splits
      intro: ok_trans [OF touch_ok writeFrame_ok]
        ok_trans [OF touch_ok ok_trans [OF ok_trans [OF srv_Now_ok publishTelemetry_ok] writeFrame_ok]])

text \<open>The datetime acknowledgement of a frame.\<close>

definition datetime_ack :: "frame \<Rightarrow> byte list" where
  "datetime_ack f = [0x78, 0x78, 0x00, Proto f] @
     (if 6 \<le> length (Body f) then take 6 (Body f) else replicate 6 0) @ [0x0D, 0x0A]"

lemma handleGPS_eq:
  assumes "LImei l \<noteq> ''''" "ParseGPS (Body frame) = Some r"
  shows "handleGPS d sc frame (l, s) = Some (l, writeFrame d sc (datetime_ack frame)
      (case r of Inl err \<Rightarrow> touch d (LSess l) s
       | Inr pos \<Rightarrow> publishLocation d (LImei l) (PosTime pos) (gps_values pos) (touch d (LSess l) s)))"
  using assms by (simp add: handleGPS_def DatetimeFromBody_eq BuildDatetimeACK_eq datetime_ack_def Let_def)

lemma handleWifi_eq:
  assumes "ParseWifiLBS (Body frame) = Some r"
  shows "handleWifi d sc frame (l, s) = Some (l, writeFrame d sc (datetime_ack frame)
      (case r of Inl err \<Rightarrow> touch d (LSess l) s
      | Inr wl \<Rightarrow> if LImei l \<noteq> '''' \<and> geo_Enabled (Geo d)
          then spawn (ResolveAndPublishLBS (LImei l) wl) (touch d (LSess l) s) else touch d (LSess l) s))"
  using assms by (simp add: handleWifi_def DatetimeFromBody_eq BuildDatetimeACK_eq datetime_ack_def Let_def)

lemma handleGPS_ok:
  assumes "handleGPS d sc frame (l, s) = Some (l', s')"
  shows "l' = l \<and> ok d r0 s s'"
proof (cases "LImei l = ''''")
  case False
  obtain r where r: "ParseGPS (Body frame) = Some r" using ParseGPS_total by blast
  have "ok d r0 s (case r of Inl err \<Rightarrow> touch d (LSess l) s
       | Inr pos \<Rightarrow> publishLocation d (LImei l) (PosTime pos) (gps_values pos) (touch d (LSess l) s))"
    by (cases r) (auto simp: publishLocation_eq intro: touch_ok ok_trans [OF touch_ok publishTelemetry_ok])
  with handleGPS_eq [OF False r, of d sc s] assms show ?thesis
    by (auto intro: ok_trans writeFrame_ok)
qed (use assms in \<open>simp add: handleGPS_def\<close>)

lemma handleOther_ok: "handleOther d (l, s) = Some (l', s') \<Longrightarrow> l' = l \<and> ok d r0 s s'"
  by (auto simp: handleOther_def intro: touch_ok)

lemma handleWifi_ok:
  assumes "handleWifi d sc frame (l, s) = Some (l', s')"
  shows "l' = l \<and> (\<exists>ts. work d r0 ts s s' \<and> (\<forall>t\<in>set ts. \<exists>wl. t = ResolveAndPublishLBS (LImei l) wl))"
proof -
  obtain r where r: "ParseWifiLBS (Body frame) = Some r" using ParseWifiLBS_total by blast
  let ?s1 = "case r of Inl err \<Rightarrow> touch d (LSess l) s
      | Inr wl \<Rightarrow> if LImei l \<noteq> '''' \<and> geo_Enabled (Geo d)
          then spawn (ResolveAndPublishLBS (LImei l) wl) (touch d (LSess l) s) else touch d (LSess l) s"
  obtain ts where ts: "work d r0 ts s ?s1" "\<forall>t\<in>set ts. \<exists>wl. t = ResolveAndPublishLBS (LImei l) wl"
  proof (cases "\<exists>wl. r = Inr wl \<and> LImei l \<noteq> '''' \<and> geo_Enabled (Geo d)")
    case True
    then obtain wl where "r = Inr wl" "LImei l \<noteq> ''''" "geo_Enabled (Geo d)" by blast
    with that [of "[ResolveAndPublishLBS (LImei l) wl]"] ok_then [OF touch_ok spawn_work] show ?thesis by simp
  next
    case False
    with that [of "[]"] ok_work [OF touch_ok] show ?thesis by (auto split: sum.splits)
  qed
  with assms handleWifi_eq [OF r, of d sc l s] have "l' = l" "s' = writeFrame d sc (datetime_ack frame) ?s1"
    by simp_all
  with ts show ?thesis using work_then [OF ts(1) writeFrame_ok] by blast
qed

lemma ParseLogin_imei: "ParseLogin body = Some (Inr imei) \<Longrightarrow> length imei = 15"
  by (auto simp: ParseLogin_eq Let_def split: if_splits)

lemma handleLogin_step:
  assumes "handleLogin d sc remote frame (l, s) = Some (l', s')"
  shows "(l' = l \<and> ok d r0 s s') \<or>
    (\<exists>imei sid s1. ParseLogin (Body frame) = Some (Inr imei) \<and> registerSession d imei sc remote s = (sid, s1) \<and>
       l' = \<lparr>LImei = imei, LSess = Some sid\<rparr> \<and> work d r0 [MaybeConnectTB (Some sid) imei] s1 s')"
proof -
  obtain r where r: "ParseLogin (Body frame) = Some r" by (simp add: ParseLogin_eq)
  show ?thesis
  proof (cases r)
    case (Inl err)
    with assms r show ?thesis by (auto simp: handleLogin_def writeFrame_ok)
  next
    case (Inr imei)
    obtain sid s1 where reg: "registerSession d imei sc remote s = (sid, s1)" by fastforce
    have "l' = \<lparr>LImei = imei, LSess = Some sid\<rparr>"
      "s' = spawn (MaybeConnectTB (Some sid) imei) (writeFrame d sc BuildLoginACK s1)"
      using assms r Inr reg by (simp_all add: handleLogin_def)
    moreover have "work d r0 [MaybeConnectTB (Some sid) imei] s1 (spawn (MaybeConnectTB (Some sid) imei) (writeFrame d sc BuildLoginACK s1))"
      by (rule ok_then [OF writeFrame_ok spawn_work])
    ultimately show ?thesis using r Inr reg by blast
  qed
qed

text \<open>Every frame is either work on the session the connection has, or a login.\<close>

lemma handleFrame_no_login:
  assumes "handleFrame d sc remote frame (l, s) = Some (l', s')" "Proto frame \<noteq> MsgLogin"
  shows "l' = l \<and> (\<exists>ts. work d r0 ts s s' \<and> (\<forall>t\<in>set ts. \<exists>wl. t = ResolveAndPublishLBS (LImei l) wl))"
    (is ?w)
proof -
  have w: ?w if "l' = l \<and> ok d r0 s s'"
    using that ok_work by (intro conjI exI [of _ "[]"]) auto
  have "handleFrame d sc remote frame (l, s) = Some (l', s') \<longrightarrow> ?w"
  proof (rule handleFrame_cases)
    assume "Proto frame = MsgLogin"
    with assms(2) show "handleLogin d sc remote frame (l, s) = Some (l', s') \<longrightarrow> ?w" by contradiction
  next
    show "handleTimeSync d sc (l, s) = Some (l', s') \<longrightarrow> ?w"
      using handleTimeSync_ok [of d sc l s l' s' r0] w by blast
    show "handleParam d sc (l, s) = Some (l', s') \<longrightarrow> ?w"
      using handleParam_ok [of d sc l s l' s' r0] w by blast
    show "handleICCID d frame (l, s) = Some (l', s') \<longrightarrow> ?w"
      using handleICCID_ok [of d frame l s l' s' r0] w by blast
    show "handleStatus d sc frame (l, s) = Some (l', s') \<longrightarrow> ?w"
      using handleStatus_ok [of d sc frame l s l' s' r0] w by blast
    show "handleGPS d sc frame (l, s) = Some (l', s') \<longrightarrow> ?w"
      using handleGPS_ok [of d sc frame l s l' s' r0] w by blast
    show "handleWifi d sc frame (l, s) = Some (l', s') \<longrightarrow> ?w"
      using handleWifi_ok [of d sc frame l s l' s' r0] by blast
    show "handleOther d (l, s) = Some (l', s') \<longrightarrow> ?w"
      using handleOther_ok [of d l s l' s' r0] w by blast
  qed
  with assms(1) show ?thesis by blast
qed

lemma handleFrame_step:
  assumes "handleFrame d sc remote frame (l, s) = Some (l', s')"
  shows "(l' = l \<and> (\<exists>ts. work d r0 ts s s' \<and> (\<forall>t\<in>set ts. \<exists>wl. t = ResolveAndPublishLBS (LImei l) wl))) \<or>
    (\<exists>imei sid s1. ParseLogin (Body frame) = Some (Inr imei) \<and> registerSession d imei sc remote s = (sid, s1) \<and>
       l' = \<lparr>LImei = imei, LSess = Some sid\<rparr> \<and> work d r0 [MaybeConnectTB (Some sid) imei] s1 s')"
proof (cases "Proto frame = MsgLogin")
  case True
  with assms have "handleLogin d sc remote frame (l, s) = Some (l', s')" by (simp add: handleFrame_def)
  from handleLogin_step [OF this, of r0] show ?thesis
  proof (elim disjE)
    assume "l' = l \<and> ok d r0 s s'"
    then show ?thesis using ok_work by (intro disjI1 conjI exI [of _ "[]"]) auto
  qed (rule disjI2)
next
  case False
  from handleFrame_no_login [OF assms this] show ?thesis ..
qed

section \<open>What is written to the connections\<close>

definition wire :: "server \<Rightarrow> (nat \<times> byte list) list" where
  "wire s = concat (map (\<lambda>e. case e of Wrote c b \<Rightarrow> [(c, b)] | _ \<Rightarrow> []) (Trace (IO s)))"

definition is_wrote :: "event \<Rightarrow> bool" where
  "is_wrote e \<longleftrightarrow> (case e of Wrote _ _ \<Rightarrow> True | _ \<Rightarrow> False)"

lemma wire_extends:
  assumes "extends (\<lambda>e. \<not> is_wrote e) (IO s) (IO s')"
  shows "wire s' = wire s"
proof -
  obtain es where es: "Trace (IO s') = Trace (IO s) @ es" "list_all (\<lambda>e. \<not> is_wrote e) es"
    using assms by (auto simp: extends_def)
  have "concat (map (\<lambda>e. case e of Wrote c b \<Rightarrow> [(c, b)] | _ \<Rightarrow> []) es) = []"
    using es(2) by (induction es) (auto simp: is_wrote_def split: event.splits)
  with es(1) show ?thesis by (simp add: wire_def)
qed

lemma wire_simps [simp]:
  "wire (s\<lparr>Sessions := t\<rparr>) = wire s" "wire (s\<lparr>Heap := h\<rparr>) = wire s" "wire (s\<lparr>Tasks := ts\<rparr>) = wire s"
  "wire (s\<lparr>Closed := cs\<rparr>) = wire s" "wire (s\<lparr>Reg := r\<rparr>) = wire s" "wire (upd_session sid f s) = wire s"
  "wire (spawn tk s) = wire s" "wire (set_tbConnected sess s) = wire s"
  by (simp_all add: wire_def spawn_def set_tbConnected_def split: option.split)

lemma wire_Now: "srv_Now d s = (t, s') \<Longrightarrow> wire s' = wire s"
  by (rule wire_extends) (auto simp: srv_Now_def with_io_def time_Now_def extends_tick)

lemma wire_touch [simp]: "wire (touch d sess s) = wire s"
  by (auto simp: touch_def dest: wire_Now split: option.split prod.split)

lemma wire_close [simp]: "wire (closeConn c s) = wire s"
  by (rule wire_extends) (simp add: closeConn_def extends_log is_wrote_def)

lemma wire_register: "registerSession d imei sc remote s = (sid, s') \<Longrightarrow> wire s' = wire s"
  by (auto simp: registerSession_def Let_def dest!: wire_Now split: prod.splits option.splits if_splits)

lemma wire_allowed: "uplinkAllowed d imei s = (b, s') \<Longrightarrow> wire s' = wire s"
proof (rule wire_extends)
  assume "uplinkAllowed d imei s = (b, s')"
  then obtain r io where g: "gate reg_Enabled (reg_IsRegistered (Env d)) imei (Reg s) (IO s) = (b, r, io)"
    and "s' = s\<lparr>Reg := r, IO := io\<rparr>"
    by (auto simp: uplinkAllowed_def split: prod.splits)
  with paapeli_registry.gate_facts(1) [OF g] show "extends (\<lambda>e. \<not> is_wrote e) (IO s) (IO s')"
    by (auto simp: asks_def is_wrote_def elim!: extends_mono split: event.split)
qed

lemma wire_call:
  assumes "with_io f s = (x, s')" "\<And>x io'. f (IO s) = (x, io') \<Longrightarrow> calls u (IO s) io'"
  shows "wire s' = wire s"
proof (rule wire_extends)
  obtain io where "f (IO s) = (x, io)" "s' = s\<lparr>IO := io\<rparr>"
    using assms(1) by (auto simp: with_io_def split: prod.splits)
  with calls_extends [OF assms(2)] show "extends (\<lambda>e. \<not> is_wrote e) (IO s) (IO s')"
    by (auto simp: is_wrote_def elim!: extends_mono split: event.split)
qed

lemma wire_connect: "with_io (tb_ConnectDevice e c imei) s = (x, s') \<Longrightarrow> wire s' = wire s"
  by (erule wire_call) (rule tb.connect_calls)

lemma wire_telemetry: "with_io (tb_PublishTelemetry e c imei ts vs) s = (x, s') \<Longrightarrow> wire s' = wire s"
  by (erule wire_call) (rule tb.telemetry_calls)

lemma wire_ensure: "ensureTBConnected d imei s = (b, s') \<Longrightarrow> wire s' = wire s"
  by (auto simp: ensureTBConnected_def Let_def dest!: wire_allowed wire_connect split: prod.splits if_splits)

lemma wire_publish [simp]: "wire (publishTelemetry d imei ts vs s) = wire s"
proof -
  obtain b s1 where e: "ensureTBConnected d imei s = (b, s1)" by fastforce
  obtain ts2 s2 where n: "(if time_IsZero ts then srv_Now d s1 else (ts, s1)) = (ts2, s2)" by fastforce
  obtain x s3 where t: "with_io (tb_PublishTelemetry (Env d) (TB d) imei ts2 vs) s2 = (x, s3)" by fastforce
  have "wire s2 = wire s1" using n wire_Now by (auto split: if_splits)
  with e n t wire_ensure [OF e] wire_telemetry [OF t] show ?thesis
    by (auto simp: publishTelemetry_def split: if_splits)
qed

text \<open>What a write puts on the wire.\<close>

lemma wire_write:
  "wire (writeFrame d sc b s) =
     wire s @ (if sc \<in> Closed s then []
       else [(sc, case conn_write (Env d) (Tick (IO s)) sc b of None \<Rightarrow> b | Some (err, n) \<Rightarrow> sent_part n b)])"
  by (auto simp: writeFrame_def WriteWithDeadline_def wire_def log_def tick_def split: option.split)

lemma Closed_simps [simp]:
  "Closed (touch d sess s) = Closed s" "Closed (publishTelemetry d imei ts vs s) = Closed s"
  "Closed (spawn t s) = Closed s"
  using touch_ok [of d undefined s sess] publishTelemetry_ok [of d undefined s imei ts vs]
  by (simp_all add: ok_def calm_def spawn_def)

lemma Closed_Now: "srv_Now d s = (t, s') \<Longrightarrow> Closed s' = Closed s"
  using srv_Now_ok [of d s t s' undefined] by (simp add: ok_def calm_def)

text \<open>The connection is open and the network takes every write.\<close>

definition writable :: "deps \<Rightarrow> nat \<Rightarrow> server \<Rightarrow> bool" where
  "writable d c s \<longleftrightarrow> c \<notin> Closed s \<and> (\<forall>k b. conn_write (Env d) k c b = None)"

lemma wire_write_ok: "writable d c s \<Longrightarrow> wire (writeFrame d c b s) = wire s @ [(c, b)]"
  by (simp add: wire_write writable_def)

lemma writable_closed: "writable d c s \<Longrightarrow> Closed s' = Closed s \<Longrightarrow> writable d c s'"
  by (simp add: writable_def)

text \<open>The replies to a frame; \<open>t\<close> is the clock reading of a time-sync reply.\<close>

definition replies :: "conn_local \<Rightarrow> frame \<Rightarrow> instant \<Rightarrow> byte list list" where
  "replies l f t =
     (let p = Proto f in
      if p = MsgLogin then [BuildLoginACK]
      else if p = MsgTimeSync then [BuildTimeSyncReply t]
      else if p = MsgParam then [BuildDefaultSettings]
      else if p = MsgStatus then [BuildStatusEcho (Raw f)]
      else if is_wifi p \<or> is_gps p \<and> LImei l \<noteq> '''' then [datetime_ack f]
      else [])"

lemma proto_disjoint:
  "is_gps p \<Longrightarrow> p \<notin> {MsgLogin, MsgTimeSync, MsgParam, MsgICCID, MsgStatus} \<and> \<not> is_wifi p"
  "is_wifi p \<Longrightarrow> p \<notin> {MsgLogin, MsgTimeSync, MsgParam, MsgICCID, MsgStatus} \<and> \<not> is_gps p"
  "p \<in> {MsgLogin, MsgTimeSync, MsgParam, MsgICCID, MsgStatus} \<Longrightarrow> \<not> is_gps p \<and> \<not> is_wifi p"
  by (auto simp: is_gps_def is_wifi_def msg_defs)

lemma handleLogin_wire:
  assumes "writable d c s" "handleLogin d c remote frame (l, s) = Some (l', s')"
  shows "wire s' = wire s @ [(c, BuildLoginACK)]"
proof -
  obtain r where r: "ParseLogin (Body frame) = Some r" by (simp add: ParseLogin_eq)
  show ?thesis
  proof (cases r)
    case (Inl err)
    with assms r show ?thesis by (auto simp: handleLogin_def wire_write_ok)
  next
    case (Inr imei)
    obtain sid s1 where reg: "registerSession d imei c remote s = (sid, s1)" by fastforce
    have "writable d c s1"
      using assms(1) registerSession_facts(8) [OF reg] by (auto simp: writable_def split: option.splits if_splits)
    with assms(2) r Inr reg wire_register [OF reg] show ?thesis
      by (auto simp: handleLogin_def wire_write_ok)
  qed
qed

lemma handleGPS_wire:
  assumes "writable d c s" "handleGPS d c frame (l, s) = Some (l', s')"
  shows "wire s' = wire s @ (if LImei l = '''' then [] else [(c, datetime_ack frame)])"
proof (cases "LImei l = ''''")
  case False
  obtain r where r: "ParseGPS (Body frame) = Some r" using ParseGPS_total by blast
  define s1 where "s1 = (case r of Inl err \<Rightarrow> touch d (LSess l) s
       | Inr pos \<Rightarrow> publishLocation d (LImei l) (PosTime pos) (gps_values pos) (touch d (LSess l) s))"
  have "Closed s1 = Closed s" "wire s1 = wire s"
    by (simp_all add: s1_def publishLocation_eq split: sum.split)
  with assms handleGPS_eq [OF False r, of d c s] False show ?thesis
    by (auto simp: wire_write_ok [OF writable_closed] simp flip: s1_def)
qed (use assms in \<open>simp add: handleGPS_def\<close>)

lemma handleWifi_wire:
  assumes "writable d c s" "handleWifi d c frame (l, s) = Some (l', s')"
  shows "wire s' = wire s @ [(c, datetime_ack frame)]"
proof -
  obtain r where r: "ParseWifiLBS (Body frame) = Some r" using ParseWifiLBS_total by blast
  define s1 where "s1 = (case r of Inl err \<Rightarrow> touch d (LSess l) s
      | Inr wl \<Rightarrow> if LImei l \<noteq> '''' \<and> geo_Enabled (Geo d)
          then spawn (ResolveAndPublishLBS (LImei l) wl) (touch d (LSess l) s) else touch d (LSess l) s)"
  have "Closed s1 = Closed s" "wire s1 = wire s"
    by (simp_all add: s1_def split: sum.split)
  with assms handleWifi_eq [OF r, of d c l s] show ?thesis
    by (auto simp: wire_write_ok [OF writable_closed] simp flip: s1_def)
qed

lemma handleStatus_wire:
  assumes "writable d c s" "handleStatus d c frame (l, s) = Some (l', s')"
  shows "wire s' = wire s @ [(c, BuildStatusEcho (Raw frame))]"
proof -
  obtain r where r: "ParseStatus (Body frame) = Some r" by (simp add: ParseStatus_eq)
  define s1 where "s1 = (case r of Inl err \<Rightarrow> touch d (LSess l) s
      | Inr st \<Rightarrow> if BatteryPercent st \<ge> 0 then
          let (t, s) = srv_Now d (touch d (LSess l) s) in
          publishTelemetry d (LImei l) t [(''battery'', AInt (BatteryPercent st))] s
        else touch d (LSess l) s)"
  have "Closed s1 = Closed s" "wire s1 = wire s"
    by (auto simp: s1_def split: sum.split prod.split dest: Closed_Now wire_Now)
  moreover have "s' = writeFrame d c (BuildStatusEcho (Raw frame)) s1"
    using assms(2) r by (simp add: handleStatus_def s1_def Let_def)
  ultimately show ?thesis using assms(1) by (simp add: wire_write_ok [OF writable_closed])
qed

lemma handleTimeSync_wire:
  assumes "writable d c s" "handleTimeSync d c (l, s) = Some (l', s')"
  shows "\<exists>t. wire s' = wire s @ [(c, BuildTimeSyncReply t)]"
proof -
  obtain t s1 where n: "srv_Now d (touch d (LSess l) s) = (t, s1)" by fastforce
  have "Closed s1 = Closed s" "wire s1 = wire s" using Closed_Now [OF n] wire_Now [OF n] by simp_all
  with assms n have "wire s' = wire s @ [(c, BuildTimeSyncReply t)]"
    by (auto simp: handleTimeSync_def wire_write_ok [OF writable_closed])
  then show ?thesis ..
qed

lemma handleICCID_wire: "handleICCID d frame (l, s) = Some (l', s') \<Longrightarrow> wire s' = wire s"
  by (auto simp: handleICCID_def Let_def dest!: wire_Now split: prod.splits sum.splits)

section \<open>Sending to a device\<close>

text \<open>The connection of the session an IMEI has.\<close>

definition peer :: "string \<Rightarrow> server \<Rightarrow> nat option" where
  "peer imei s = map_option (\<lambda>sid. SConn (Heap s ! sid)) (map_of (Sessions s) imei)"

lemma wire_SafeConn:
  "WriteWithDeadline d c b s = (e, s') \<Longrightarrow>
   case e of None \<Rightarrow> wire s' = wire s @ [(c, b)]
   | Some err \<Rightarrow> wire s' = wire s \<or> (\<exists>n. wire s' = wire s @ [(c, sent_part n b)])"
  by (auto simp: WriteWithDeadline_def wire_def log_def tick_def split: option.splits if_splits)

interpretation downlink: stable_lookup "SendToDevice d" peer wire for d
proof
  fix imei s pkt s' e i
  fix err :: string
  show "peer imei s = None \<Longrightarrow> fst (SendToDevice d imei pkt s) \<noteq> None \<and> snd (SendToDevice d imei pkt s) = s"
    by (simp add: peer_def SendToDevice_def)
  show "SendToDevice d imei pkt s = (None, s') \<Longrightarrow> \<exists>p. peer imei s = Some p \<and> wire s' = wire s @ [(p, pkt)]"
    by (auto simp: peer_def SendToDevice_def dest: wire_SafeConn split: option.splits)
  show "SendToDevice d imei pkt s = (Some err, s') \<Longrightarrow>
      wire s' = wire s \<or> (\<exists>p n. peer imei s = Some p \<and> wire s' = wire s @ [(p, sent_part n pkt)])"
    by (auto simp: peer_def SendToDevice_def dest: wire_SafeConn split: option.splits)
  show "SendToDevice d imei pkt s = (e, s') \<Longrightarrow> peer i s' = peer i s"
    by (auto simp: SendToDevice_def WriteWithDeadline_def peer_def split: option.splits if_splits)
qed

text \<open>What a frame puts on the wire.\<close>

lemma handleFrame_wire:
  assumes "writable d c s"
  shows "\<exists>l' s' t. handleFrame d c remote f (l, s) = Some (l', s') \<and> wire s' = wire s @ map (Pair c) (replies l f t)"

proof -
  obtain l' s' where h: "handleFrame d c remote f (l, s) = Some (l', s')"
    using handleFrame_total [of d c remote f "(l, s)"] by auto
  have "handleFrame d c remote f (l, s) = Some (l', s') \<longrightarrow> (\<exists>t. wire s' = wire s @ map (Pair c) (replies l f t))"
  proof (rule handleFrame_cases)
    assume "Proto f = MsgLogin"
    then show "handleLogin d c remote f (l, s) = Some (l', s') \<longrightarrow> (\<exists>t. wire s' = wire s @ map (Pair c) (replies l f t))"
      using handleLogin_wire [OF assms] by (auto simp: replies_def)
  next
    assume "Proto f = MsgTimeSync"
    then show "handleTimeSync d c (l, s) = Some (l', s') \<longrightarrow> (\<exists>t. wire s' = wire s @ map (Pair c) (replies l f t))"
      using handleTimeSync_wire [OF assms] by (fastforce simp: replies_def msg_defs)
  next
    assume "Proto f = MsgParam"
    then show "handleParam d c (l, s) = Some (l', s') \<longrightarrow> (\<exists>t. wire s' = wire s @ map (Pair c) (replies l f t))"
      using assms by (auto simp: replies_def msg_defs handleParam_def Let_def wire_write_ok [OF writable_closed])
  next
    assume "Proto f = MsgICCID"
    then show "handleICCID d f (l, s) = Some (l', s') \<longrightarrow> (\<exists>t. wire s' = wire s @ map (Pair c) (replies l f t))"
      using handleICCID_wire proto_disjoint(3) by (auto simp: replies_def msg_defs)
  next
    assume "Proto f = MsgStatus"
    then show "handleStatus d c f (l, s) = Some (l', s') \<longrightarrow> (\<exists>t. wire s' = wire s @ map (Pair c) (replies l f t))"
      using handleStatus_wire [OF assms] by (auto simp: replies_def msg_defs)
  next
    assume "is_gps (Proto f)"
    then show "handleGPS d c f (l, s) = Some (l', s') \<longrightarrow> (\<exists>t. wire s' = wire s @ map (Pair c) (replies l f t))"
      using handleGPS_wire [OF assms] proto_disjoint(1) by (auto simp: replies_def Let_def)
  next
    assume "is_wifi (Proto f)"
    then show "handleWifi d c f (l, s) = Some (l', s') \<longrightarrow> (\<exists>t. wire s' = wire s @ map (Pair c) (replies l f t))"
      using handleWifi_wire [OF assms] proto_disjoint(2) by (auto simp: replies_def Let_def)
  next
    assume "Proto f \<notin> {MsgLogin, MsgTimeSync, MsgParam, MsgICCID, MsgStatus}" "\<not> is_gps (Proto f)" "\<not> is_wifi (Proto f)"
    then show "handleOther d (l, s) = Some (l', s') \<longrightarrow> (\<exists>t. wire s' = wire s @ map (Pair c) (replies l f t))"
      by (auto simp: replies_def handleOther_def Let_def)
  qed
  with h show ?thesis by blast
qed

section \<open>Properties\<close>

text \<open>The replies of the protocol. On an open connection every frame is answered, on that
  connection and no other, by exactly the packets the protocol asks for: login, time sync,
  settings, the echo of a status, the datetime of a GPS or Wi-Fi packet; GPS before login and
  the other protocols get nothing. The handler never panics, whatever the frame holds.\<close>

theorem handler_replies:
  assumes "writable d c s"
  shows "\<exists>l' s' t. handleFrame d c remote f (l, s) = Some (l', s') \<and> wire s' = wire s @ map (Pair c) (replies l f t)"
  using assms by (rule handleFrame_wire)

theorem handler_replies_witness:
  "\<exists>l' s' t. handleFrame (New_deps demo_env MockClient None) 7 ''r'' \<lparr>Proto = MsgParam, Body = [], Serial = 0, Raw = []\<rparr>
     (fresh_local, New_server None demo_io) = Some (l', s') \<and> wire s' = [(7, BuildDefaultSettings)]"
proof -
  have "writable (New_deps demo_env MockClient None) 7 (New_server None demo_io)"
    by (simp add: writable_def New_server_def New_deps_def demo_env_def)
  from handler_replies [OF this, of "''r''" "\<lparr>Proto = MsgParam, Body = [], Serial = 0, Raw = []\<rparr>" fresh_local]
  show ?thesis by (auto simp: replies_def msg_defs wire_def New_server_def demo_io_def)
qed

text \<open>C15. A command reaches the tracker or fails, and leaves at most a torn packet behind. An RPC
  with a known method and valid parameters for an IMEI that has a session concerns the connection
  of that session only: if it succeeds, exactly the packet of its method has been put there; if
  it fails, nothing, or a proper prefix of that packet (the write stopped in the middle). Any
  other RPC fails and changes nothing.\<close>

theorem rpc_reaches_device_or_fails:
  "case ExecuteRPC (SendToDevice d) imei method params s of (err, s') \<Rightarrow>
     (case (rpc_packet method params, peer imei s) of
        (Inr pkt, Some c) \<Rightarrow> is_command pkt \<and>
          (case err of None \<Rightarrow> wire s' = wire s @ [(c, pkt)]
           | Some e \<Rightarrow> wire s' = wire s \<or> (\<exists>w. torn pkt w \<and> wire s' = wire s @ [(c, w)]))
      | _ \<Rightarrow> err \<noteq> None \<and> s' = s)"
proof -
  obtain err s' where r: "ExecuteRPC (SendToDevice d) imei method params s = (err, s')" by fastforce
  from downlink.rpc_sends [OF r] show ?thesis unfolding r prod.case .
qed

text \<open>C30. Shared attributes send at most two packets, only to the connection of the IMEI, each a
  command within the limits of the firmware, whatever the attributes hold. When a write
  stops in the middle an error is returned, and a proper prefix of such a command comes last.\<close>

theorem attributes_send_valid_commands:
  "case ApplySharedAttributes conv (SendToDevice d) imei attrs s of (err, s') \<Rightarrow>
     \<exists>pkts rest. length (pkts @ rest) \<le> 2 \<and> list_all is_command pkts \<and>
       (case err of None \<Rightarrow> rest = [] | Some e \<Rightarrow> cut_command rest) \<and>
       (case peer imei s of
          None \<Rightarrow> pkts = [] \<and> rest = [] \<and> wire s' = wire s
        | Some c \<Rightarrow> wire s' = wire s @ map (Pair c) (pkts @ rest))"
proof -
  obtain err s' where r: "ApplySharedAttributes conv (SendToDevice d) imei attrs s = (err, s')" by fastforce
  from downlink.attributes_send [OF r] obtain pkts rest where
    "downlink.sends imei s s' pkts rest" "length (pkts @ rest) \<le> 2" "err = None \<longrightarrow> rest = []" by blast
  then show ?thesis
    unfolding r prod.case
    by (intro exI [of _ pkts] exI [of _ rest]) (simp add: downlink.sends_def split: option.splits)
qed

end
