(* ===== verification/Gateway.thy ===== *)
theory Gateway
  imports Server
begin

text \<open>
  The running gateway: connections, background goroutines and downlink commands as a
  transition system over the server state. A step of a connection's goroutine is one read, or
  one round of the loop in \<open>drainFrames\<close>, or its end; the goroutines of the handler run as a
  whole, at any later time and in any order; so do commands from the RPC callback and the debug
  API. All interleavings of these steps are runs.
\<close>

section \<open>States and steps\<close>

record conn_state =
  CLocal :: conn_local
  CBuf :: "byte list"
  CRemote :: string

text \<open>
  \<open>Conns\<close> are the connections whose goroutine runs (the count of the wait group); \<open>Next\<close>
  numbers the next one.
\<close>

record world =
  Srv :: server
  Conns :: "nat \<Rightarrow> conn_state option"
  Next :: nat
  Closing :: bool
  Listening :: bool

datatype action =
    Accept string
  | Receive nat "byte list"
  | Process nat
  | HangUp nat
  | RunTask nat
  | Downlink string "byte list"
  | BeginShutdown
  | CloseListener

text \<open>The goroutine is blocked in \<open>Read\<close> when the buffer holds no complete frame.\<close>

definition idle :: "byte list \<Rightarrow> bool" where
  "idle buf \<longleftrightarrow> (case ExtractFrame buf of Some (Inl (e, _)) \<Rightarrow> e = ErrIncomplete | _ \<Rightarrow> False)"

lemma idle_Nil [simp]: "idle []"
  by (simp add: idle_def extract_short)

definition accept :: "string \<Rightarrow> world \<Rightarrow> world option" where
  "accept remote w =
     (if Listening w then
        Some (w\<lparr>Conns := (Conns w)(Next w \<mapsto> \<lparr>CLocal = fresh_local, CBuf = [], CRemote = remote\<rparr>),
                Next := Suc (Next w)\<rparr>)
      else None)"

definition receive :: "nat \<Rightarrow> byte list \<Rightarrow> world \<Rightarrow> world option" where
  "receive c chunk w =
     (case Conns w c of
        None \<Rightarrow> None
      | Some cs \<Rightarrow>
          if idle (CBuf cs) \<and> c \<notin> Closed (Srv w)
          then Some (w\<lparr>Conns := (Conns w)(c \<mapsto> cs\<lparr>CBuf := CBuf cs @ chunk\<rparr>)\<rparr>) else None)"

text \<open>One round of \<open>drainFrames\<close> (compare its definition in the theory \<open>Drain\<close>).\<close>

definition process :: "deps \<Rightarrow> nat \<Rightarrow> world \<Rightarrow> world option" where
  "process d c w =
     (case Conns w c of
        None \<Rightarrow> None
      | Some cs \<Rightarrow>
          (case ExtractFrame (CBuf cs) of
             None \<Rightarrow> None
           | Some (Inl (e, n)) \<Rightarrow>
               if e = ErrIncomplete then None
               else Some (w\<lparr>Conns := (Conns w)(c \<mapsto> cs\<lparr>CBuf := resync n (CBuf cs)\<rparr>)\<rparr>)
           | Some (Inr (f, n)) \<Rightarrow>
               (case handleFrame d c (CRemote cs) f (CLocal cs, Srv w) of
                  None \<Rightarrow> None
                | Some (l, s) \<Rightarrow>
                    Some (w\<lparr>Srv := s, Conns := (Conns w)(c \<mapsto> cs\<lparr>CLocal := l, CBuf := drop n (CBuf cs)\<rparr>)\<rparr>))))"

definition hang_up :: "deps \<Rightarrow> nat \<Rightarrow> world \<Rightarrow> world option" where
  "hang_up d c w =
     (case Conns w c of
        None \<Rightarrow> None
      | Some cs \<Rightarrow>
          if idle (CBuf cs)
          then Some (w\<lparr>Srv := cleanup d c (CLocal cs) (Srv w), Conns := (Conns w)(c := None)\<rparr>) else None)"

definition run_one :: "deps \<Rightarrow> nat \<Rightarrow> world \<Rightarrow> world option" where
  "run_one d k w =
     (if k < length (Tasks (Srv w)) then
        let t = Tasks (Srv w) ! k;
            s = Srv w\<lparr>Tasks := take k (Tasks (Srv w)) @ drop (Suc k) (Tasks (Srv w))\<rparr> in
        Some (w\<lparr>Srv := run_task d t s\<rparr>)
      else None)"

text \<open>\<open>Shutdown\<close>: the flag and the listener.\<close>

definition begin_shutdown :: "world \<Rightarrow> world" where
  "begin_shutdown w = w\<lparr>Closing := True\<rparr>"

definition close_listener :: "world \<Rightarrow> world option" where
  "close_listener w = (if Closing w then Some (w\<lparr>Listening := False\<rparr>) else None)"

fun act :: "deps \<Rightarrow> action \<Rightarrow> world \<Rightarrow> world option" where
  "act d (Accept remote) w = accept remote w"
| "act d (Receive c chunk) w = receive c chunk w"
| "act d (Process c) w = process d c w"
| "act d (HangUp c) w = hang_up d c w"
| "act d (RunTask k) w = run_one d k w"
| "act d (Downlink imei payload) w = Some (w\<lparr>Srv := snd (SendToDevice d imei payload (Srv w))\<rparr>)"
| "act d BeginShutdown w = Some (begin_shutdown w)"
| "act d CloseListener w = close_listener w"

definition start :: "registry option \<Rightarrow> world" where
  "start reg = \<lparr>Srv = New_server reg \<lparr>Tick = 0, Trace = []\<rparr>, Conns = (\<lambda>_. None), Next = 0, Closing = False, Listening = True\<rparr>"

inductive reachable :: "deps \<Rightarrow> registry option \<Rightarrow> world \<Rightarrow> bool" for d reg where
  init: "reachable d reg (start reg)"
| step: "reachable d reg w \<Longrightarrow> act d a w = Some w' \<Longrightarrow> reachable d reg w'"

fun run :: "deps \<Rightarrow> action list \<Rightarrow> world \<Rightarrow> world option" where
  "run d [] w = Some w"
| "run d (a # as) w = act d a w \<bind> run d as"

lemma reachable_run: "reachable d reg w \<Longrightarrow> run d as w = Some w' \<Longrightarrow> reachable d reg w'"
  by (induction as arbitrary: w) (auto simp: bind_eq_Some_conv intro: reachable.step)

section \<open>A concrete gateway\<close>

text \<open>The mock client, no geolocation and the environment of the theory \<open>Registry\<close>; two IMEIs
  that differ in the last digit, and their login packets.\<close>

definition demo_deps :: deps where "demo_deps = New_deps demo_env MockClient None"

definition imei_a :: string where "imei_a = ''861971080061526''"
definition imei_b :: string where "imei_b = ''861971080061527''"

definition login_packet :: "byte \<Rightarrow> byte list" where
  "login_packet b = [0x78, 0x78, 0x0A, 0x01, 0x08, 0x61, 0x97, 0x10, 0x80, 0x06, 0x15, b, 0x09, 0x0D, 0x0A]"

definition uplink_calls :: "world \<Rightarrow> tb_call list" where
  "uplink_calls w = concat (map (\<lambda>e. case e of Uplink u \<Rightarrow> [u] | _ \<Rightarrow> []) (Trace (IO (Srv w))))"

definition no_checks :: paapeli_config where "no_checks = demo_cfg\<lparr>PaapeliEnabled := False\<rparr>"

definition demo_run :: "action list" where
  "demo_run = [Accept ''r'', Receive 0 (login_packet 0x26), Process 0, RunTask 0]"

lemma demo_run_reaches:
  "\<exists>w cs. reachable demo_deps (Some (New_registry no_checks)) w \<and> Trace (IO (Srv w)) = [Wrote 0 BuildLoginACK] @ Uplink (ConnectCall imei_a) # [] \<and>
     Conns w 0 = Some cs \<and> 0 \<notin> Closed (Srv w) \<and> LImei (CLocal cs) = imei_a \<and> ListSessions (Srv w) \<noteq> []"
proof -
  have e: "case run demo_deps demo_run (start (Some (New_registry no_checks))) of None \<Rightarrow> False
     | Some w \<Rightarrow> Trace (IO (Srv w)) = [Wrote 0 BuildLoginACK] @ Uplink (ConnectCall imei_a) # [] \<and>
       (case Conns w 0 of None \<Rightarrow> False | Some cs \<Rightarrow> LImei (CLocal cs) = imei_a) \<and> 0 \<notin> Closed (Srv w) \<and>
       ListSessions (Srv w) \<noteq> []"
    by code_simp
  then obtain w where w: "run demo_deps demo_run (start (Some (New_registry no_checks))) = Some w" by (auto split: option.splits)
  with reachable_run [OF reachable.init] have "reachable demo_deps (Some (New_registry no_checks)) w" by blast
  with e w show ?thesis by (auto split: option.splits)
qed

end
