(* ===== verification/Lifecycle.thy ===== *)
theory Lifecycle
  imports Gateway
begin

text \<open>
  The life of a connection as a sequence of steps of the gateway. A connection that is served
  without interference goes through exactly the states that \<open>handleConn\<close> computes. At the end,
  runs that show what interference can do to the sessions.
\<close>

section \<open>The loop as steps\<close>

lemma run_append: "run d (as @ bs) w = run d as w \<bind> run d bs"
  by (induction as arbitrary: w) (auto split: bind_splits)

text \<open>The world in which connection \<open>c\<close> has the given variables, server and buffer.\<close>

definition put :: "nat \<Rightarrow> conn_state \<Rightarrow> conn_local \<times> server \<Rightarrow> byte list \<Rightarrow> world \<Rightarrow> world" where
  "put c cs ls buf w =
     w\<lparr>Srv := snd ls, Conns := (Conns w)(c \<mapsto> cs\<lparr>CLocal := fst ls, CBuf := buf\<rparr>)\<rparr>"

lemma put_simps [simp]:
  "Conns (put c cs ls buf w) c = Some (cs\<lparr>CLocal := fst ls, CBuf := buf\<rparr>)" "Srv (put c cs ls buf w) = snd ls"
  by (simp_all add: put_def)

lemma receive_put:
  "idle buf \<Longrightarrow> c \<notin> Closed (snd ls) \<Longrightarrow> receive c chunk (put c cs ls buf w) = Some (put c cs ls (buf @ chunk) w)"
  by (simp add: receive_def) (simp add: put_def)

lemma hang_up_put:
  "idle buf \<Longrightarrow> hang_up d c (put c cs ls buf w) =
     Some (w\<lparr>Srv := cleanup d c (fst ls) (snd ls), Conns := (Conns w)(c := None)\<rparr>)"
  by (simp add: hang_up_def) (simp add: put_def)

lemma process_put_resync:
  "ExtractFrame buf = Some (Inl (e, n)) \<Longrightarrow> e \<noteq> ErrIncomplete \<Longrightarrow> 0 < n \<Longrightarrow> n \<le> length buf \<Longrightarrow>
   process d c (put c cs ls buf w) = Some (put c cs ls (drop n buf) w)"
  by (simp add: process_def resync_def) (simp add: put_def)

lemma process_put_frame:
  "ExtractFrame buf = Some (Inr (f, n)) \<Longrightarrow> handleFrame d c (CRemote cs) f ls = Some ls' \<Longrightarrow>
   process d c (put c cs ls buf w) = Some (put c cs ls' (drop n buf) w)"
  by (cases ls') (simp add: process_def, simp add: put_def)

text \<open>Rounds of the loop, one after the other, are \<open>drainFrames\<close>.\<close>

lemma process_drains:
  "\<exists>n buf' ls'. drainFrames (handleFrame d c (CRemote cs)) buf ls = Some (buf', ls') \<and> idle buf' \<and>
     run d (replicate n (Process c)) (put c cs ls buf w) = Some (put c cs ls' buf' w)"
proof (induction buf ls rule: drain_induct)
  case (incomplete buf ls)
  then show ?case
    by (intro exI [of _ 0] exI [of _ buf] exI [of _ ls]) (simp add: drain_incomplete idle_def)
next
  case (resync buf ls e n)
  from resync(5) obtain k buf' ls' where
    "drainFrames (handleFrame d c (CRemote cs)) (drop n buf) ls = Some (buf', ls')" "idle buf'"
    "run d (replicate k (Process c)) (put c cs ls (drop n buf) w) = Some (put c cs ls' buf' w)" by blast
  then show ?case
    by (intro exI [of _ "Suc k"] exI [of _ buf'] exI [of _ ls'])
      (simp add: drain_resync [OF resync(1,2)] process_put_resync [OF resync(1-4)])
next
  case (frame buf ls f n)
  obtain ls1 where h: "handleFrame d c (CRemote cs) f ls = Some ls1" using handleFrame_total by blast
  from frame(4) [of ls1] obtain k buf' ls' where
    "drainFrames (handleFrame d c (CRemote cs)) (drop n buf) ls1 = Some (buf', ls')" "idle buf'"
    "run d (replicate k (Process c)) (put c cs ls1 (drop n buf) w) = Some (put c cs ls' buf' w)" by blast
  with h show ?case
    by (intro exI [of _ "Suc k"] exI [of _ buf'] exI [of _ ls'])
      (simp add: drain_frame [OF frame(1)] process_put_frame [OF frame(1) h])
qed

text \<open>A connection does not close itself while it is served.\<close>

lemma handleFrame_open:
  assumes "handleFrame d c remote f ls = Some ls'" "c \<notin> Closed (snd ls)"
  shows "c \<notin> Closed (snd ls')"
proof -
  obtain l s l' s' where ls: "ls = (l, s)" "ls' = (l', s')" by (cases ls; cases ls')
  from assms(1) have "handleFrame d c remote f (l, s) = Some (l', s')" by (simp add: ls)
  from handleFrame_step [OF this, of AllowAll] show ?thesis
  proof (elim disjE conjE exE)
    fix imei sid s1
    assume "registerSession d imei c remote s = (sid, s1)" "work d AllowAll [MaybeConnectTB (Some sid) imei] s1 s'"
    with registerSession_facts(8) [of d imei c remote s sid s1] assms(2) ls show ?thesis
      by (auto simp: work_def split: option.splits if_splits)
  qed (use assms ls in \<open>auto simp: work_def\<close>)
qed

lemma drain_keeps:
  assumes "\<And>f s s'. h f s = Some s' \<Longrightarrow> P s \<Longrightarrow> P s'"
  shows "drainFrames h buf s = Some (buf', s') \<Longrightarrow> P s \<Longrightarrow> P s'"
proof (induction buf s rule: drain_induct)
  case (frame buf s f n)
  then show ?case using assms by (auto simp: drain_frame bind_eq_Some_conv)
qed (auto simp: drain_incomplete drain_resync)

text \<open>The reads of a connection, each followed by as many rounds as it takes.\<close>

definition serve :: "nat \<Rightarrow> byte list list \<Rightarrow> nat list \<Rightarrow> action list" where
  "serve c reads ns = concat (map2 (\<lambda>r n. Receive c r # replicate n (Process c)) reads ns)"

lemma serve_reads:
  assumes "idle buf" "c \<notin> Closed (snd ls)"
  shows "\<exists>ns buf' ls'. length ns = length reads \<and> idle buf' \<and>
    readLoop (handleFrame d c (CRemote cs)) reads buf ls = Some (buf', ls') \<and>
    run d (serve c reads ns) (put c cs ls buf w) = Some (put c cs ls' buf' w)"
  using assms
proof (induction reads arbitrary: buf ls)
  case Nil
  then show ?case by (simp add: serve_def)
next
  case (Cons r reads)
  obtain n buf1 ls1 where
    d: "drainFrames (handleFrame d c (CRemote cs)) (buf @ r) ls = Some (buf1, ls1)" "idle buf1" and
    p: "run d (replicate n (Process c)) (put c cs ls (buf @ r) w) = Some (put c cs ls1 buf1 w)"
    using process_drains by blast
  have "c \<notin> Closed (snd ls1)"
    by (rule drain_keeps [OF _ d(1), where P = "\<lambda>ls. c \<notin> Closed (snd ls)"])
      (use Cons.prems in \<open>auto dest: handleFrame_open\<close>)
  from Cons.IH [OF d(2) this] obtain ns buf' ls' where "length ns = length reads" "idle buf'"
    "readLoop (handleFrame d c (CRemote cs)) reads buf1 ls1 = Some (buf', ls')"
    "run d (serve c reads ns) (put c cs ls1 buf1 w) = Some (put c cs ls' buf' w)" by blast
  with d p Cons.prems show ?case
    by (intro exI [of _ "n # ns"] exI [of _ buf'] exI [of _ ls'])
      (simp add: serve_def run_append receive_put)
qed

section \<open>Properties\<close>

text \<open>C8. The steps of a connection that nobody interferes with are \<open>handleConn\<close>: accept, then
  each read followed by as many rounds of the loop as it takes, then the end; the server is
  left in exactly the state that the sequential definition computes, and the connection is
  gone. In particular the loop comes to rest after every read.\<close>

theorem connection_refines_handleConn:
  assumes "Listening w" "Next w \<notin> Closed (Srv w)"
  shows "\<exists>ns s'. handleConn d (Next w) remote reads (Srv w) = Some s' \<and> length ns = length reads \<and>
    run d (Accept remote # serve (Next w) reads ns @ [HangUp (Next w)]) w =
      Some (w\<lparr>Srv := s', Conns := (Conns w)(Next w := None), Next := Suc (Next w)\<rparr>)"
proof -
  let ?c = "Next w"
  let ?cs = "\<lparr>CLocal = fresh_local, CBuf = [], CRemote = remote\<rparr>"
  let ?w = "w\<lparr>Next := Suc ?c\<rparr>"
  have a: "accept remote w = Some (put ?c ?cs (fresh_local, Srv w) [] ?w)"
    using assms(1) by (simp add: accept_def put_def)
  obtain ns buf' ls' where s: "length ns = length reads" "idle buf'"
    "readLoop (handleFrame d ?c (CRemote ?cs)) reads [] (fresh_local, Srv w) = Some (buf', ls')"
    "run d (serve ?c reads ns) (put ?c ?cs (fresh_local, Srv w) [] ?w) = Some (put ?c ?cs ls' buf' ?w)"
    using serve_reads [OF idle_Nil, of ?c "(fresh_local, Srv w)" reads d ?cs ?w] assms(2) by auto
  then show ?thesis
    by (intro exI [of _ ns] exI [of _ "cleanup d ?c (fst ls') (snd ls')"])
      (simp add: handleConn_def a run_append hang_up_put case_prod_beta)
qed

theorem connection_refines_handleConn_witness:
  "\<exists>ns s'. handleConn demo_deps 0 ''r'' [[0x78], [0x78, 0x01, 0x30, 0x0D, 0x0A]] (Srv (start None)) = Some s' \<and>
     length ns = length [[0x78], [0x78, 0x01, 0x30, 0x0D, 0x0A :: byte]] \<and>
     run demo_deps (Accept ''r'' # serve 0 [[0x78], [0x78, 0x01, 0x30, 0x0D, 0x0A]] ns @ [HangUp 0]) (start None) =
       Some ((start None)\<lparr>Srv := s', Conns := (Conns (start None))(0 := None), Next := Suc 0\<rparr>)"
proof -
  have "Listening (start None)" "Next (start None) \<notin> Closed (Srv (start None))" and n: "Next (start None) = 0"
    by (simp_all add: start_def New_server_def)
  from connection_refines_handleConn [OF this(1,2), of demo_deps "''r''" "[[0x78], [0x78, 0x01, 0x30, 0x0D, 0x0A]]"]
  show ?thesis unfolding n .
qed

section \<open>What the interleavings allow\<close>

text \<open>
  A tracker that logs in again on the same connection under another IMEI leaves its first
  session behind: when the connection ends, the deferred cleanup removes the second one only.
  The first stays in the table for good, with a connection that is closed.
\<close>

theorem relogin_leaks_session:
  "case run demo_deps [Accept ''r'', Receive 0 (login_packet 0x26 @ login_packet 0x27), Process 0, Process 0, HangUp 0]
     (start None) of
     None \<Rightarrow> False
   | Some w \<Rightarrow> Conns w 0 = None \<and> 0 \<in> Closed (Srv w) \<and> peer imei_a (Srv w) = Some 0 \<and> peer imei_b (Srv w) = None"
  by code_simp

text \<open>
  A tracker that reconnects before its old connection has ended is announced again, and then
  taken off line by the end of the old connection, although the new session is live and
  marked connected; what it sends afterwards is published without a new announcement.
\<close>

theorem stale_cleanup_disconnects_live_device:
  "case run demo_deps [Accept ''r'', Receive 0 (login_packet 0x26), Process 0, RunTask 0,
     Accept ''s'', Receive 1 (login_packet 0x26), Process 1, RunTask 0, HangUp 0,
     Receive 1 [0x78, 0x78, 0x05, 0x13, 0x64, 0x01, 0x02, 0x03, 0x0D, 0x0A], Process 1] (start None) of
     None \<Rightarrow> False
   | Some w \<Rightarrow> (\<exists>t. uplink_calls w = [ConnectCall imei_a, ConnectCall imei_a, DisconnectCall imei_a,
         TelemetryCall imei_a t [(''battery'', AInt 100)]]) \<and>
       map InfoTBConnected (ListSessions (Srv w)) = [True]"
proof -
  have "case run demo_deps [Accept ''r'', Receive 0 (login_packet 0x26), Process 0, RunTask 0,
     Accept ''s'', Receive 1 (login_packet 0x26), Process 1, RunTask 0, HangUp 0,
     Receive 1 [0x78, 0x78, 0x05, 0x13, 0x64, 0x01, 0x02, 0x03, 0x0D, 0x0A], Process 1] (start None) of
     None \<Rightarrow> False
   | Some w \<Rightarrow> uplink_calls w = [ConnectCall imei_a, ConnectCall imei_a, DisconnectCall imei_a,
         TelemetryCall imei_a (now demo_env 7) [(''battery'', AInt 100)]] \<and>
       map InfoTBConnected (ListSessions (Srv w)) = [True]"
    by code_simp
  then show ?thesis by (auto split: option.splits)
qed

text \<open>
  The goroutine that announces a device may run after its connection has ended; then the device
  is announced and nothing ever takes it off line.
\<close>

theorem late_announcement_stays:
  "case run demo_deps [Accept ''r'', Receive 0 (login_packet 0x26), Process 0, HangUp 0, RunTask 0] (start None) of
     None \<Rightarrow> False
   | Some w \<Rightarrow> uplink_calls w = [ConnectCall imei_a] \<and> Conns w 0 = None \<and> Sessions (Srv w) = [] \<and> Tasks (Srv w) = []"
  by code_simp

end
