(* ===== verification/Goroutine.thy ===== *)
theory Goroutine
  imports Prelude
begin

text \<open>
  Goroutines. A goroutine is a program of atomic steps on the shared state: one step is one
  access under a lock, or one interaction with the outside world; between two steps any other
  goroutine may run. A program is either a result, or a step with what follows it, which
  depends on the state the step saw. Programs are well founded, so a goroutine ends after
  finitely many steps of its own, whatever the others do.

  The theory has the programs, their run without interference, the logic in which their
  behaviour under interference is proved (an invariant, a rely, a guarantee, and assertions
  that are stable under the rely), and the events a program can emit under any interference.
\<close>

section \<open>Programs\<close>

datatype ('s, 'a) prog = Ret 'a | Act "'s \<Rightarrow> 's" "'s \<Rightarrow> ('s, 'a) prog"

primrec bindp :: "('s, 'a) prog \<Rightarrow> ('a \<Rightarrow> ('s, 'b) prog) \<Rightarrow> ('s, 'b) prog" where
  "bindp (Ret a) k = k a"
| "bindp (Act f g) k = Act f (\<lambda>s. bindp (g s) k)"

text \<open>An atomic operation with a result; a look at the state; a change of it.\<close>

definition atom :: "('s \<Rightarrow> 'a \<times> 's) \<Rightarrow> ('s, 'a) prog" where
  "atom opn = Act (\<lambda>s. snd (opn s)) (\<lambda>s. Ret (fst (opn s)))"

definition peek :: "('s \<Rightarrow> 'a) \<Rightarrow> ('s, 'a) prog" where
  "peek f = atom (\<lambda>s. (f s, s))"

definition modify :: "('s \<Rightarrow> 's) \<Rightarrow> ('s, unit) prog" where
  "modify f = atom (\<lambda>s. ((), f s))"

text \<open>The run of a program that nothing interferes with.\<close>

primrec runp :: "('s, 'a) prog \<Rightarrow> 's \<Rightarrow> 'a \<times> 's" where
  "runp (Ret a) s = (a, s)"
| "runp (Act f g) s = runp (g s) (f s)"

lemma runp_bindp [simp]: "runp (bindp p k) s = (case runp p s of (a, s') \<Rightarrow> runp (k a) s')"
  by (induction p arbitrary: s) simp_all

lemma runp_atom [simp]: "runp (atom opn) s = opn s"
  by (simp add: atom_def)

lemma runp_peek [simp]: "runp (peek f) s = (f s, s)"
  by (simp add: peek_def)

lemma runp_modify [simp]: "runp (modify f) s = ((), f s)"
  by (simp add: modify_def)

lemma bindp_Ret [simp]: "bindp p Ret = p"
  by (induction p) simp_all

lemma bindp_assoc: "bindp (bindp p f) g = bindp p (\<lambda>a. bindp (f a) g)"
  by (induction p) simp_all

text \<open>One step, and goroutines that take their steps in the order of a schedule.\<close>

primrec stepp :: "('s, 'a) prog \<Rightarrow> 's \<Rightarrow> ('s, 'a) prog \<times> 's" where
  "stepp (Ret a) s = (Ret a, s)"
| "stepp (Act f g) s = (g s, f s)"

fun sched :: "nat list \<Rightarrow> ('s, 'a) prog list \<Rightarrow> 's \<Rightarrow> ('s, 'a) prog list \<times> 's" where
  "sched [] ps s = (ps, s)"
| "sched (i # turns) ps s =
     (if i < length ps then (case stepp (ps ! i) s of (p, s') \<Rightarrow> sched turns (ps[i := p]) s') else sched turns ps s)"

primrec result :: "('s, 'a) prog \<Rightarrow> 'a option" where
  "result (Ret a) = Some a"
| "result (Act f g) = None"

lemma list_all2_upd:
  "list_all2 P xs ys \<Longrightarrow> i < length ys \<Longrightarrow> (\<And>x y. P x y \<Longrightarrow> P' x y) \<Longrightarrow> P' x' y' \<Longrightarrow>
   list_all2 P' (xs[i := x']) (ys[i := y'])"
  by (simp add: list_all2_conv_all_nth nth_list_update)

text \<open>A program on a part of a larger state.\<close>

primrec focus :: "('t \<Rightarrow> 's) \<Rightarrow> ('s \<Rightarrow> 't \<Rightarrow> 't) \<Rightarrow> ('s, 'a) prog \<Rightarrow> ('t, 'a) prog" where
  "focus get put (Ret a) = Ret a"
| "focus get put (Act f g) = Act (\<lambda>t. put (f (get t)) t) (\<lambda>t. focus get put (g (get t)))"

text \<open>The part, as long as the larger state has it.\<close>

locale part =
  fixes has :: "'t \<Rightarrow> bool" and get :: "'t \<Rightarrow> 's" and put :: "'s \<Rightarrow> 't \<Rightarrow> 't"
  assumes get_put: "has t \<Longrightarrow> get (put x t) = x"
    and put_put: "has t \<Longrightarrow> put x (put y t) = put x t"
    and put_get: "has t \<Longrightarrow> put (get t) t = t"
    and has_put: "has t \<Longrightarrow> has (put x t)"
begin

lemma runp_focus:
  "has t \<Longrightarrow> runp (focus get put p) t = (case runp p (get t) of (a, x) \<Rightarrow> (a, put x t))"
  by (induction p arbitrary: t) (simp_all add: put_get get_put has_put put_put split: prod.split)

end

section \<open>Behaviour under interference\<close>

text \<open>
  \<open>safe I R G Q p s\<close>: started in a state that has developed from \<open>s\<close> by steps of others, which
  keep the invariant \<open>I\<close> and the rely \<open>R\<close>, every step of \<open>p\<close> keeps the invariant and gives the
  guarantee \<open>G\<close>, and when \<open>p\<close> returns, \<open>Q\<close> holds of the result and the state and keeps holding.
\<close>

primrec safe ::
    "('s \<Rightarrow> bool) \<Rightarrow> ('s \<Rightarrow> 's \<Rightarrow> bool) \<Rightarrow> ('s \<Rightarrow> 's \<Rightarrow> bool) \<Rightarrow> ('a \<Rightarrow> 's \<Rightarrow> bool) \<Rightarrow> ('s, 'a) prog \<Rightarrow> 's \<Rightarrow> bool" where
  "safe I R G Q (Ret a) s \<longleftrightarrow> (\<forall>s'. I s' \<and> R s s' \<longrightarrow> Q a s')"
| "safe I R G Q (Act f g) s \<longleftrightarrow>
     (\<forall>s'. I s' \<and> R s s' \<longrightarrow> I (f s') \<and> G s' (f s') \<and> safe I R G Q (g s') (f s'))"

definition stable :: "('s \<Rightarrow> bool) \<Rightarrow> ('s \<Rightarrow> 's \<Rightarrow> bool) \<Rightarrow> ('s \<Rightarrow> bool) \<Rightarrow> bool" where
  "stable I R P \<longleftrightarrow> (\<forall>s s'. I s \<and> I s' \<and> R s s' \<and> P s \<longrightarrow> P s')"

named_theorems stable_intros \<open>assertions that interference cannot falsify\<close>

lemma stable_const [stable_intros, simp]: "stable I R (\<lambda>s. A)"
  by (simp add: stable_def)

lemma stable_conj [stable_intros]: "stable I R P \<Longrightarrow> stable I R Q \<Longrightarrow> stable I R (\<lambda>s. P s \<and> Q s)"
  unfolding stable_def by blast

lemma stable_imp [stable_intros]: "(A \<Longrightarrow> stable I R Q) \<Longrightarrow> stable I R (\<lambda>s. A \<longrightarrow> Q s)"
  unfolding stable_def by blast

text \<open>The sentences of the logic: from an assertion, the program is safe with a result.\<close>

definition sentence ::
    "('s \<Rightarrow> bool) \<Rightarrow> ('s \<Rightarrow> 's \<Rightarrow> bool) \<Rightarrow> ('s \<Rightarrow> 's \<Rightarrow> bool) \<Rightarrow> ('s \<Rightarrow> bool) \<Rightarrow> ('s, 'a) prog \<Rightarrow> ('a \<Rightarrow> 's \<Rightarrow> bool) \<Rightarrow> bool" where
  "sentence I R G P p Q \<longleftrightarrow> (\<forall>s. I s \<and> P s \<longrightarrow> safe I R G Q p s)"

locale rely_guarantee =
  fixes I :: "'s \<Rightarrow> bool" and R :: "'s \<Rightarrow> 's \<Rightarrow> bool" and G :: "'s \<Rightarrow> 's \<Rightarrow> bool"
  assumes rely_refl: "R s s" and rely_trans: "R a b \<Longrightarrow> R b c \<Longrightarrow> R a c"
begin

text \<open>Others may step before the program does.\<close>

lemma safe_rely: "safe I R G Q p s \<Longrightarrow> R s s' \<Longrightarrow> safe I R G Q p s'"
  by (cases p) (auto intro: rely_trans)

lemma safe_bindp:
  "safe I R G Q p s \<Longrightarrow> I s \<Longrightarrow> (\<And>a s'. I s' \<Longrightarrow> Q a s' \<Longrightarrow> safe I R G Q' (k a) s') \<Longrightarrow> safe I R G Q' (bindp p k) s"
proof (induction p arbitrary: s)
  case (Ret a)
  then have "Q a s" using rely_refl by simp
  with Ret show ?case by simp
next
  case (Act f g)
  have "safe I R G Q' (bindp (g s') k) (f s')" if "I s'" "R s s'" for s'
  proof (rule Act.IH [OF rangeI])
    show "safe I R G Q (g s') (f s')" "I (f s')" using Act.prems(1) that by auto
  qed (rule Act.prems(3))
  with Act.prems(1) show ?case by simp
qed

lemma safe_frame:
  "safe I R G Q p s \<Longrightarrow> P s \<Longrightarrow> I s \<Longrightarrow> stable I R P \<Longrightarrow> stable I G P \<Longrightarrow> safe I R G (\<lambda>a s. Q a s \<and> P s) p s"
proof (induction p arbitrary: s)
  case (Ret a)
  have "Q a s' \<and> P s'" if "I s'" "R s s'" for s'
    using Ret.prems(1-4) that unfolding stable_def by simp
  then show ?case by simp
next
  case (Act f g)
  have "I (f s') \<and> G s' (f s') \<and> safe I R G (\<lambda>a s. Q a s \<and> P s) (g s') (f s')" if "I s' \<and> R s s'" for s'
  proof -
    have a: "I (f s')" "G s' (f s')" "safe I R G Q (g s') (f s')" using Act.prems(1) that by auto
    have "P s'" using Act.prems(2-4) that unfolding stable_def by blast
    then have "P (f s')" using Act.prems(5) a(1,2) that unfolding stable_def by blast
    with Act.IH [OF rangeI a(3) _ a(1) Act.prems(4,5)] a show ?thesis by blast
  qed
  then show ?case by simp
qed

lemma ret_rule: "(\<And>s. I s \<Longrightarrow> P s \<Longrightarrow> Q a s) \<Longrightarrow> stable I R P \<Longrightarrow> sentence I R G P (Ret a) Q"
  unfolding sentence_def stable_def by auto

lemma bind_rule:
  "sentence I R G P p Q' \<Longrightarrow> (\<And>a. sentence I R G (Q' a) (k a) Q) \<Longrightarrow> sentence I R G P (bindp p k) Q"
  unfolding sentence_def by (blast intro: safe_bindp)

lemma atom_rule:
  assumes "\<And>s x s'. I s \<Longrightarrow> P s \<Longrightarrow> opn s = (x, s') \<Longrightarrow> I s' \<and> G s s' \<and> Q x s'"
    and "stable I R P" "\<And>x. stable I R (Q x)"
  shows "sentence I R G P (atom opn) Q"
proof -
  have "I (snd (opn s')) \<and> G s' (snd (opn s')) \<and> (\<forall>s''. I s'' \<and> R (snd (opn s')) s'' \<longrightarrow> Q (fst (opn s')) s'')"
    if "I s" "P s" "I s'" "R s s'" for s s'
  proof -
    have "P s'" using assms(2) that unfolding stable_def by blast
    from assms(1) [OF that(3) this surjective_pairing]
    have "I (snd (opn s')) \<and> G s' (snd (opn s')) \<and> Q (fst (opn s')) (snd (opn s'))" .
    with assms(3) show ?thesis unfolding stable_def by blast
  qed
  then show ?thesis by (auto simp: sentence_def atom_def)
qed

lemma peek_rule:
  assumes "\<And>s. I s \<Longrightarrow> P s \<Longrightarrow> Q (f s) s" "\<And>s. G s s"
    and "stable I R P" "\<And>x. stable I R (Q x)"
  shows "sentence I R G P (peek f) Q"
  unfolding peek_def by (rule atom_rule) (use assms in auto)

lemma modify_rule:
  assumes "\<And>s. I s \<Longrightarrow> P s \<Longrightarrow> I (f s) \<and> G s (f s) \<and> Q () (f s)"
    and "stable I R P" "stable I R (Q ())"
  shows "sentence I R G P (modify f) Q"
  unfolding modify_def by (rule atom_rule) (use assms in auto)

lemma cond_rule:
  "(c \<Longrightarrow> sentence I R G P p Q) \<Longrightarrow> (\<not> c \<Longrightarrow> sentence I R G P q Q) \<Longrightarrow> sentence I R G P (if c then p else q) Q"
  by simp

lemma weaken_pre: "sentence I R G P p Q \<Longrightarrow> (\<And>s. I s \<Longrightarrow> P' s \<Longrightarrow> P s) \<Longrightarrow> sentence I R G P' p Q"
  unfolding sentence_def by blast

lemma safe_weaken: "safe I R G Q p s \<Longrightarrow> (\<And>a s. I s \<Longrightarrow> Q a s \<Longrightarrow> Q' a s) \<Longrightarrow> safe I R G Q' p s"
  by (induction p arbitrary: s) auto

lemma weaken_post: "sentence I R G P p Q \<Longrightarrow> (\<And>a s. I s \<Longrightarrow> Q a s \<Longrightarrow> Q' a s) \<Longrightarrow> sentence I R G P p Q'"
  unfolding sentence_def by (blast intro: safe_weaken)

lemma frame_rule:
  "sentence I R G P p Q \<Longrightarrow> stable I R F \<Longrightarrow> stable I G F \<Longrightarrow>
   sentence I R G (\<lambda>s. P s \<and> F s) p (\<lambda>a s. Q a s \<and> F s)"
  unfolding sentence_def by (blast intro: safe_frame)

lemma safe_stepp:
  assumes "safe I R G Q p s" "I s" "stepp p s = (p', s')"
  shows "I s' \<and> (s' = s \<or> G s s') \<and> safe I R G Q p' s'"
  using assms rely_refl by (cases p) auto

text \<open>Goroutines that guarantee each other what they rely on are safe together.\<close>

lemma sched_safe:
  assumes "\<And>s s'. G s s' \<Longrightarrow> R s s'"
  shows "sched is ps s = (ps', s') \<Longrightarrow> I s \<Longrightarrow> list_all2 (\<lambda>Q p. safe I R G Q p s) Qs ps \<Longrightarrow>
    I s' \<and> list_all2 (\<lambda>Q p. safe I R G Q p s') Qs ps'"
proof (induction "is" ps s rule: sched.induct)
  case (2 i "is" ps s)
  show ?case
  proof (cases "i < length ps")
    case True
    obtain p s1 where st: "stepp (ps ! i) s = (p, s1)" by fastforce
    have "safe I R G (Qs ! i) (ps ! i) s" using 2(5) True by (simp add: list_all2_conv_all_nth)
    from safe_stepp [OF this 2(4) st] have p: "I s1" "R s s1" "safe I R G (Qs ! i) p s1"
      using assms rely_refl by auto
    have "list_all2 (\<lambda>Q p. safe I R G Q p s1) (Qs[i := Qs ! i]) (ps[i := p])"
      by (rule list_all2_upd [OF 2(5) True safe_rely [OF _ p(2)]], assumption) (rule p(3))
    then have "list_all2 (\<lambda>Q p. safe I R G Q p s1) Qs (ps[i := p])" by simp
    with 2(1) [OF True st [symmetric]] 2(3) True st p show ?thesis by simp
  qed (use 2 in simp)
qed simp

lemma assume_rule: "(A \<Longrightarrow> sentence I R G P p Q) \<Longrightarrow> sentence I R G (\<lambda>s. A \<and> P s) p Q"
  unfolding sentence_def by blast

end

text \<open>To rely on less and to guarantee more.\<close>

lemma safe_mono:
  "safe I R G Q p s \<Longrightarrow> (\<And>s s'. R' s s' \<Longrightarrow> R s s') \<Longrightarrow> (\<And>s s'. G s s' \<Longrightarrow> G' s s') \<Longrightarrow> safe I R' G' Q p s"
proof (induction p arbitrary: s)
  case (Act f g)
  have "safe I R' G' Q (g s') (f s')" if "I s'" "R' s s'" for s'
    by (rule Act.IH [OF rangeI _ Act.prems(2,3)]) (use Act.prems(1,2) that in auto)
  with Act.prems show ?case by simp
qed auto

lemma sentence_mono:
  "sentence I R G P p Q \<Longrightarrow> (\<And>s s'. R' s s' \<Longrightarrow> R s s') \<Longrightarrow> (\<And>s s'. G s s' \<Longrightarrow> G' s s') \<Longrightarrow>
   sentence I R' G' P p Q"
  unfolding sentence_def using safe_mono by metis

text \<open>A sentence about a part holds of the whole, when the parts' invariant, rely and guarantee do.\<close>

lemma safe_focus:
  assumes "safe I R G Q p (get t)" "J t"
    and inv: "\<And>t. J t \<Longrightarrow> I (get t)" and rely: "\<And>t t'. J t \<Longrightarrow> J t' \<Longrightarrow> S t t' \<Longrightarrow> R (get t) (get t')"
    and step: "\<And>t x. J t \<Longrightarrow> I x \<Longrightarrow> G (get t) x \<Longrightarrow> J (put x t) \<and> H t (put x t) \<and> get (put x t) = x"
  shows "safe J S H (\<lambda>a t. Q a (get t)) (focus get put p) t"
  using assms(1,2)
proof (induction p arbitrary: t)
  case (Ret a)
  then show ?case using inv rely by auto
next
  case (Act f g)
  have "J (put (f (get t')) t') \<and> H t' (put (f (get t')) t') \<and>
      safe J S H (\<lambda>a t. Q a (get t)) (focus get put (g (get t'))) (put (f (get t')) t')"
    if t: "J t'" "S t t'" for t'
  proof -
    have a: "I (f (get t'))" "G (get t') (f (get t'))" "safe I R G Q (g (get t')) (f (get t'))"
      using Act.prems t inv rely by auto
    have b: "J (put (f (get t')) t')" "H t' (put (f (get t')) t')" "get (put (f (get t')) t') = f (get t')"
      using step [OF t(1) a(1,2)] by simp_all
    with Act.IH [OF rangeI, of "get t'" "put (f (get t')) t'"] a(3) show ?thesis by simp
  qed
  then show ?case by simp
qed

section \<open>What a program can emit\<close>

text \<open>
  The results a program can return and the events its own steps can emit, when anything at all
  may happen to the state between two steps; \<open>ev s s'\<close> is what a step from \<open>s\<close> to \<open>s'\<close> emits,
  and \<open>I\<close> may restrict the states in which the program takes its steps.
\<close>

primrec emits :: "('s \<Rightarrow> bool) \<Rightarrow> ('s \<Rightarrow> 's \<Rightarrow> 'e list) \<Rightarrow> ('s, 'a) prog \<Rightarrow> ('a \<times> 'e list) set" where
  "emits I ev (Ret a) = {(a, [])}"
| "emits I ev (Act f g) = (\<Union>s \<in> Collect I. (\<lambda>(a, es). (a, ev s (f s) @ es)) ` emits I ev (g s))"

lemma emits_step: "I s \<Longrightarrow> (a, es) \<in> emits I ev (g s) \<Longrightarrow> (a, ev s (f s) @ es) \<in> emits I ev (Act f g)"
  by force

lemma emits_nonempty: "\<exists>x. x \<in> emits (\<lambda>_. True) ev p"
proof (induction p)
  case (Act f g)
  obtain x where "x \<in> emits (\<lambda>_. True) ev (g undefined)" using Act [OF rangeI] by blast
  then have "(fst x, ev undefined (f undefined) @ snd x) \<in> emits (\<lambda>_. True) ev (Act f g)"
    by (intro emits_step) simp_all
  then show ?case by blast
qed simp

lemma emits_bindp:
  assumes "(b, es) \<in> emits I ev (bindp p k)"
  obtains a es1 es2 where "(a, es1) \<in> emits I ev p" "(b, es2) \<in> emits I ev (k a)" "es = es1 @ es2"
proof -
  have "\<exists>a es1 es2. (a, es1) \<in> emits I ev p \<and> (b, es2) \<in> emits I ev (k a) \<and> es = es1 @ es2"
    using assms
  proof (induction p arbitrary: es)
    case (Act f g)
    then obtain s es' where s: "I s" "(b, es') \<in> emits I ev (bindp (g s) k)" "es = ev s (f s) @ es'"
      by auto
    with Act.IH [OF rangeI s(2)] obtain a es1 es2 where
      "(a, es1) \<in> emits I ev (g s)" "(b, es2) \<in> emits I ev (k a)" "es' = es1 @ es2" by auto
    with s show ?case
      by (intro exI [of _ a] exI [of _ "ev s (f s) @ es1"] exI [of _ es2]) auto
  qed auto
  with that show thesis by blast
qed

lemma emits_atom:
  assumes "(a, es) \<in> emits I ev (atom opn)"
  obtains s s' where "I s" "opn s = (a, s')" "es = ev s s'"
proof -
  from assms obtain s where "I s" "a = fst (opn s)" "es = ev s (snd (opn s))" by (auto simp: atom_def)
  with that [of s "snd (opn s)"] show thesis by simp
qed

text \<open>A part that accounts for all the events of the whole.\<close>

lemma emits_focus:
  assumes "\<And>t x. ev t (put x t) = ev' (get t) x"
  shows "emits I ev (focus get put p) \<subseteq> emits (\<lambda>_. True) ev' p"
proof (induction p)
  case (Act f g)
  show ?case
  proof clarify
    fix a es
    assume "(a, es) \<in> emits I ev (focus get put (Act f g))"
    then obtain t es' where t: "(a, es') \<in> emits I ev (focus get put (g (get t)))" "es = ev t (put (f (get t)) t) @ es'"
      by auto
    then have "(a, es') \<in> emits (\<lambda>_. True) ev' (g (get t))" using Act.IH [OF rangeI] by blast
    then show "(a, es) \<in> emits (\<lambda>_. True) ev' (Act f g)" unfolding t(2) assms by (intro emits_step) simp_all
  qed
qed simp

text \<open>A bound on the number and the kind of the events.\<close>

definition quota :: "('s \<Rightarrow> bool) \<Rightarrow> ('s \<Rightarrow> 's \<Rightarrow> 'e list) \<Rightarrow> nat \<Rightarrow> 'e set \<Rightarrow> ('s, 'a) prog \<Rightarrow> bool" where
  "quota I ev n A p \<longleftrightarrow> emits I ev p \<subseteq> {(a, es). length es \<le> n \<and> set es \<subseteq> A}"

lemma quota_ret: "quota I ev n A (Ret a)"
  by (simp add: quota_def)

lemma quota_bindp:
  assumes "quota I ev m A p" "\<And>a. quota I ev n A (k a)"
  shows "quota I ev (m + n) A (bindp p k)"
  unfolding quota_def
proof clarify
  fix b es
  assume "(b, es) \<in> emits I ev (bindp p k)"
  then obtain a es1 es2 where e: "(a, es1) \<in> emits I ev p" "(b, es2) \<in> emits I ev (k a)" "es = es1 @ es2"
    by (rule emits_bindp)
  from assms(1) e(1) have "length es1 \<le> m" "set es1 \<subseteq> A" by (auto simp: quota_def)
  moreover from assms(2) e(2) have "length es2 \<le> n" "set es2 \<subseteq> A" by (auto simp: quota_def)
  ultimately show "length es \<le> m + n \<and> set es \<subseteq> A" using e(3) by auto
qed

lemma quota_bindp_left:
  "quota I ev m A p \<Longrightarrow> m \<le> n \<Longrightarrow> (\<And>a. quota I ev (n - m) A (k a)) \<Longrightarrow> quota I ev n A (bindp p k)"
  using quota_bindp [of I ev m A p "n - m" k] by simp

lemma quota_atom:
  "(\<And>s a s'. I s \<Longrightarrow> opn s = (a, s') \<Longrightarrow> length (ev s s') \<le> n \<and> set (ev s s') \<subseteq> A) \<Longrightarrow> quota I ev n A (atom opn)"
  unfolding quota_def by (blast elim!: emits_atom)

text \<open>The quotas of goroutines that run in any order add up.\<close>

lemma quota_stepp:
  assumes "quota (\<lambda>_. True) ev n A p" "stepp p s = (p', s')" "\<And>s. length (ev s s) = 0"
  shows "length (ev s s') \<le> n \<and> quota (\<lambda>_. True) ev (n - length (ev s s')) A p'"
proof (cases p)
  case (Act f g)
  have r: "quota (\<lambda>_. True) ev (n - length (ev s (f s))) A (g s)"
  proof (unfold quota_def, clarify)
    fix a es
    assume "(a, es) \<in> emits (\<lambda>_. True) ev (g s)"
    then have "(a, ev s (f s) @ es) \<in> emits (\<lambda>_. True) ev p" unfolding Act by (intro emits_step) simp_all
    with assms(1) have "length (ev s (f s) @ es) \<le> n \<and> set (ev s (f s) @ es) \<subseteq> A" unfolding quota_def by blast
    then show "length es \<le> n - length (ev s (f s)) \<and> set es \<subseteq> A" by auto
  qed
  obtain a where "a \<in> emits (\<lambda>_. True) ev (g s)" using emits_nonempty by blast
  then have "(fst a, ev s (f s) @ snd a) \<in> emits (\<lambda>_. True) ev p" unfolding Act by (intro emits_step) simp_all
  with assms(1) have "length (ev s (f s)) \<le> n" unfolding quota_def by fastforce
  with r assms(2) Act show ?thesis by simp
qed (use assms in simp)

lemma sched_quota:
  assumes "\<And>s s'. cnt s' \<le> cnt s + length (ev s s')" "\<And>s. length (ev s s) = 0"
  shows "sched is ps s = (ps', s') \<Longrightarrow> list_all2 (\<lambda>n p. quota (\<lambda>_. True) ev n A p) ns ps \<Longrightarrow> cnt s' \<le> cnt s + sum_list ns"
proof (induction "is" ps s arbitrary: ns rule: sched.induct)
  case (2 i "is" ps s)
  show ?case
  proof (cases "i < length ps")
    case True
    obtain p s1 where st: "stepp (ps ! i) s = (p, s1)" by fastforce
    let ?k = "length (ev s s1)"
    have i: "i < length ns" "quota (\<lambda>_. True) ev (ns ! i) A (ps ! i)" using 2(4) True by (auto simp: list_all2_conv_all_nth)
    from quota_stepp [OF i(2) st assms(2)] have q: "?k \<le> ns ! i" "quota (\<lambda>_. True) ev (ns ! i - ?k) A p" by simp_all
    have "list_all2 (\<lambda>n p. quota (\<lambda>_. True) ev n A p) (ns[i := ns ! i - ?k]) (ps[i := p])"
      by (rule list_all2_upd [OF 2(4) True]) (use q(2) in simp_all)
    with 2(1) [OF True st [symmetric]] 2(3) True st have "cnt s' \<le> cnt s1 + sum_list (ns[i := ns ! i - ?k])" by simp
    moreover have "sum_list (ns[i := ns ! i - ?k]) + ?k = sum_list ns"
      using q(1) i(1) elem_le_sum_list [OF i(1)] by (simp add: sum_list_update)
    ultimately show ?thesis using assms(1) [of s1 s] by linarith
  qed (use 2 in simp)
qed simp

text \<open>The elements by which a list has grown; all of them when it has not just grown.\<close>

definition appended :: "'e list \<Rightarrow> 'e list \<Rightarrow> 'e list" where
  "appended xs ys = (if take (length xs) ys = xs then drop (length xs) ys else ys)"

lemma appended_simps [simp]: "appended xs (xs @ ys) = ys" "appended xs xs = []"
  by (simp_all add: appended_def)

lemma count_appended: "length (filter P ys) \<le> length (filter P xs) + length (filter P (appended xs ys))"
proof (cases "take (length xs) ys = xs")
  case True
  then have "ys = xs @ appended xs ys" by (metis append_take_drop_id appended_def)
  then show ?thesis by (metis filter_append length_append order_refl)
qed (simp add: appended_def)

end
