(* ===== verification/Registry_Locks.thy ===== *)
theory Registry_Locks
  imports Registry Goroutine
begin

text \<open>
  The registry client at the granularity of its mutex. \<open>paapeli.go\<close> holds the mutex only while
  it reads or writes the token or the cache, never during a request, so several lookups can be
  under way at once and their steps interleave in any order. Each definition is the goroutine
  of the function of the same name; \<open>cfg\<close> is the configuration, which nobody changes.

  Run without interference, these are the functions of the theory \<open>Registry\<close>. Under
  interference they still fail closed, and still make at most four requests each.
\<close>

section \<open>Goroutines\<close>

type_synonym client = "paapeli \<times> io"

definition do_request :: "env \<Rightarrow> http_request \<Rightarrow> (client, string + http_response) prog" where
  "do_request env req = atom (\<lambda>(p, io). let (resp, io) = http_Do env req io in (resp, p, io))"

definition set_token :: "string \<Rightarrow> (client, unit) prog" where
  "set_token t = modify (\<lambda>(p, io). (p\<lparr>Token := t\<rparr>, io))"

definition login_p :: "env \<Rightarrow> paapeli_config \<Rightarrow> (client, reg_error + string) prog" where
  "login_p env cfg =
     (if \<not> url_ok env (login_endpoint cfg) then Ret (Inl (BadURL (login_endpoint cfg)))
      else
        bindp (do_request env (login_request cfg)) (\<lambda>resp.
          case resp of
            Inl err \<Rightarrow> Ret (Inl (HttpFailed err))
          | Inr r \<Rightarrow>
              (case login_answer r of
                 Inl err \<Rightarrow> Ret (Inl err)
               | Inr token \<Rightarrow> bindp (set_token token) (\<lambda>_. Ret (Inr token)))))"

definition ensureToken_p :: "env \<Rightarrow> paapeli_config \<Rightarrow> (client, reg_error + string) prog" where
  "ensureToken_p env cfg =
     bindp (peek (\<lambda>(p, io). Token p)) (\<lambda>t. if t \<noteq> '''' then Ret (Inr t) else login_p env cfg)"

definition invalidateToken_p :: "(client, unit) prog" where
  "invalidateToken_p = modify (\<lambda>(p, io). (invalidateToken p, io))"

function fetch_p :: "env \<Rightarrow> paapeli_config \<Rightarrow> string \<Rightarrow> bool \<Rightarrow> (client, reg_error + bool) prog" where
  "fetch_p env cfg imei allowRetry =
     bindp (ensureToken_p env cfg) (\<lambda>tok.
       case tok of
         Inl err \<Rightarrow> Ret (Inl err)
       | Inr token \<Rightarrow>
           (if \<not> url_ok env (tracker_endpoint cfg imei) then Ret (Inl (BadURL (tracker_endpoint cfg imei)))
            else
              bindp (do_request env (tracker_request cfg imei token)) (\<lambda>resp.
                case resp of
                  Inl err \<Rightarrow> Ret (Inl (HttpFailed err))
                | Inr r \<Rightarrow>
                    (if StatusCode r = 401 \<and> allowRetry
                     then bindp invalidateToken_p (\<lambda>_. fetch_p env cfg imei False)
                     else Ret (tracker_answer r)))))"
  by pat_completeness auto
termination
  by (relation "measure (\<lambda>(env, cfg, imei, allowRetry). if allowRetry then 1 else 0)") auto

declare fetch_p.simps [simp del]

definition cacheGet_p :: "env \<Rightarrow> string \<Rightarrow> (client, bool \<times> bool) prog" where
  "cacheGet_p env imei = atom (\<lambda>(p, io). let (x, io) = cacheGet env imei p io in (x, p, io))"

definition cacheSet_p :: "env \<Rightarrow> string \<Rightarrow> bool \<Rightarrow> (client, unit) prog" where
  "cacheSet_p env imei reg = modify (\<lambda>(p, io). cacheSet env imei reg p io)"

definition paapeli_IsRegistered_p :: "env \<Rightarrow> paapeli_config \<Rightarrow> string \<Rightarrow> (client, bool) prog" where
  "paapeli_IsRegistered_p env cfg imei =
     (if imei = '''' then Ret False
      else
        bindp (cacheGet_p env imei) (\<lambda>(reg, found).
          if found then Ret reg
          else
            bindp (fetch_p env cfg imei True) (\<lambda>res.
              case res of
                Inl err \<Rightarrow> Ret False
              | Inr reg \<Rightarrow> bindp (cacheSet_p env imei reg) (\<lambda>_. Ret reg))))"

section \<open>Without interference\<close>

lemma login_run: "runp (login_p env (PCfg p)) (p, io) = login env p io"
  by (simp add: login_p_def login_def login_url_def do_request_def set_token_def split: prod.split sum.split)

lemma ensureToken_run: "runp (ensureToken_p env (PCfg p)) (p, io) = ensureToken env p io"
  by (simp add: ensureToken_p_def ensureToken_def login_run)

lemma fetch_run: "runp (fetch_p env (PCfg p) imei allowRetry) (p, io) = fetch env imei allowRetry p io"
proof (induction env imei allowRetry p io rule: fetch.induct)
  case (1 env imei allowRetry p io)
  obtain tok p1 io1 where t: "ensureToken env p io = (tok, p1, io1)" by (cases "ensureToken env p io")
  then have cfg: "PCfg p1 = PCfg p" "PCfg (invalidateToken q) = PCfg q" for q
    using ensureToken_facts [OF t] by (simp_all add: same_cfg_def invalidateToken_def)
  show ?case
    using 1 [OF t [symmetric]] cfg t
    by (subst fetch_p.simps, subst fetch_cases [OF t])
      (auto simp: ensureToken_run do_request_def invalidateToken_p_def tracker_url_def eq_commute [of "(_, _)" "http_Do _ _ _"]
        split: sum.split prod.split)
qed

lemma paapeli_IsRegistered_run:
  "runp (paapeli_IsRegistered_p env (PCfg p) imei) (p, io) = paapeli_IsRegistered env imei p io"
  by (simp add: paapeli_IsRegistered_p_def cacheGet_p_def cacheSet_p_def paapeli_IsRegistered_def fetch_run
      split: prod.split sum.split)

section \<open>Under interference\<close>

text \<open>
  The invariant of the client is that its configuration is \<open>cfg\<close> and that the cache holds
  only confirmed answers; others may do anything that keeps it.
\<close>

definition client_ok :: "env \<Rightarrow> paapeli_config \<Rightarrow> client \<Rightarrow> bool" where
  "client_ok env cfg c \<longleftrightarrow> PCfg (fst c) = cfg \<and> trusted env (Paapeli (fst c))"

definition asking :: "client \<Rightarrow> client \<Rightarrow> bool" where
  "asking c c' \<longleftrightarrow> extends is_request (snd c) (snd c')"

interpretation client: rely_guarantee "client_ok env cfg" "\<lambda>_ _. True" asking for env cfg
  by unfold_locales simp_all

lemma asking_refl [simp]: "asking c c" "asking (p, io) (p', io)"
  by (simp_all add: asking_def)

lemma client_ok_token [simp]: "client_ok env cfg (p\<lparr>Token := t\<rparr>, io) = client_ok env cfg (p, io)"
  by (simp add: client_ok_def trusted_def tracker_url_def)

lemma do_request_safe:
  "sentence (client_ok env cfg) (\<lambda>_ _. True) asking (\<lambda>_. True) (do_request env req)
     (\<lambda>resp _. \<forall>r. resp = Inr r \<longrightarrow> (\<exists>k. http_do env k req = Inr r))"
  unfolding do_request_def
  by (rule client.atom_rule) (auto simp: http_Do_def client_ok_def asking_def extends_log_tick)

abbreviation claim :: "env \<Rightarrow> paapeli_config \<Rightarrow> (client, 'a) prog \<Rightarrow> ('a \<Rightarrow> bool) \<Rightarrow> bool" where
  "claim env cfg p Q \<equiv> sentence (client_ok env cfg) (\<lambda>_ _. True) asking (\<lambda>_. True) p (\<lambda>a _. Q a)"

lemma claim_ret: "Q a \<Longrightarrow> claim env cfg (Ret a) Q"
  by (rule client.ret_rule) simp_all

lemma claim_bind:
  assumes "claim env cfg p Q'" "\<And>a. Q' a \<Longrightarrow> claim env cfg (k a) Q"
  shows "claim env cfg (bindp p k) Q"
proof (rule client.bind_rule [OF assms(1)])
  show "sentence (client_ok env cfg) (\<lambda>_ _. True) asking (\<lambda>_. Q' a) (k a) (\<lambda>b _. Q b)" for a
    using assms(2) [of a] by (auto simp: sentence_def)
qed

lemma login_safe: "claim env cfg (login_p env cfg) (\<lambda>_. True)"
  unfolding login_p_def set_token_def
  by (auto intro!: claim_ret claim_bind [OF do_request_safe] claim_bind [where Q' = "\<lambda>_. True"] client.modify_rule
      split: sum.split)

lemma ensureToken_safe: "claim env cfg (ensureToken_p env cfg) (\<lambda>_. True)"
  unfolding ensureToken_p_def
  by (auto intro!: claim_ret login_safe claim_bind [where Q' = "\<lambda>_. True"] client.peek_rule)

lemma fetch_safe:
  "claim env cfg (fetch_p env cfg imei allowRetry) (\<lambda>res. res = Inr True \<longrightarrow> confirmed env (tracker_endpoint cfg imei))"
proof (induction env cfg imei allowRetry rule: fetch_p.induct)
  case (1 env cfg imei allowRetry)
  have "confirmed env (tracker_endpoint cfg imei)"
    if "\<exists>k. http_do env k (tracker_request cfg imei token) = Inr r" "tracker_answer r = Inr True" for token r
    using that unfolding confirmed_def tracker_answer_confirms by (metis tracker_request_def http_request.select_convs(2))
  with 1 show ?case
    by (subst fetch_p.simps)
      (auto simp: invalidateToken_p_def invalidateToken_def intro!: claim_ret claim_bind [OF ensureToken_safe]
        claim_bind [OF do_request_safe] claim_bind [where Q' = "\<lambda>_. True" and p = "modify f" for f] client.modify_rule
        split: sum.split)
qed

lemma asks_asking: "asks n io io' \<Longrightarrow> asking (p, io) (p', io')"
  by (simp add: asks_def asking_def)

lemma IsRegistered_safe:
  "claim env cfg (paapeli_IsRegistered_p env cfg imei) (\<lambda>b. b \<longrightarrow> imei \<noteq> '''' \<and> confirmed env (tracker_endpoint cfg imei))"
proof (cases "imei = ''''")
  case False
  have get: "claim env cfg (cacheGet_p env imei)
      (\<lambda>(reg, found). found \<and> reg \<longrightarrow> confirmed env (tracker_endpoint cfg imei))"
    unfolding cacheGet_p_def
  proof (rule client.atom_rule)
    fix c x c'
    assume c: "client_ok env cfg c" and "(case c of (p, io) \<Rightarrow> let (x, io) = cacheGet env imei p io in (x, p, io)) = (x, c')"
    then obtain p io io' where "c = (p, io)" "cacheGet env imei p io = (x, io')" "c' = (p, io')"
      by (auto split: prod.splits)
    with c show "client_ok env cfg c' \<and> asking c c' \<and>
        (case x of (reg, found) \<Rightarrow> found \<and> reg \<longrightarrow> confirmed env (tracker_endpoint cfg imei))"
      by (cases x) (auto simp: client_ok_def trusted_def tracker_url_def dest: cacheGet_facts asks_asking)
  qed simp_all
  have set: "claim env cfg (cacheSet_p env imei reg) (\<lambda>_. True)"
    if "reg \<longrightarrow> confirmed env (tracker_endpoint cfg imei)" for reg
    unfolding cacheSet_p_def
  proof (rule client.modify_rule)
    fix c assume c: "client_ok env cfg c"
    obtain p io p' io' where e: "c = (p, io)" "cacheSet env imei reg p io = (p', io')" by (metis prod.exhaust)
    from cacheSet_facts(2,4) [OF e(2)] asks_asking [OF cacheSet_facts(1) [OF e(2)]] c e that
    show "client_ok env cfg (case c of (p, io) \<Rightarrow> cacheSet env imei reg p io) \<and>
        asking c (case c of (p, io) \<Rightarrow> cacheSet env imei reg p io) \<and> True"
      by (auto simp: client_ok_def trusted_def tracker_url_def)
  qed simp_all
  have rest: "claim env cfg (if found then Ret reg else bindp (fetch_p env cfg imei True) (\<lambda>res.
      case res of Inl err \<Rightarrow> Ret False | Inr reg \<Rightarrow> bindp (cacheSet_p env imei reg) (\<lambda>_. Ret reg)))
      (\<lambda>b. b \<longrightarrow> imei \<noteq> '''' \<and> confirmed env (tracker_endpoint cfg imei))"
    if "found \<and> reg \<longrightarrow> confirmed env (tracker_endpoint cfg imei)" for reg found
    using that False by (auto intro!: claim_ret claim_bind [OF fetch_safe] claim_bind [OF set] split: sum.split)
  show ?thesis
    unfolding paapeli_IsRegistered_p_def if_not_P [OF False]
  proof (rule claim_bind [OF get])
    fix a :: "bool \<times> bool"
    obtain reg found where a: "a = (reg, found)" by fastforce
    assume "case a of (reg, found) \<Rightarrow> found \<and> reg \<longrightarrow> confirmed env (tracker_endpoint cfg imei)"
    then show "claim env cfg (case a of (reg, found) \<Rightarrow> if found then Ret reg
        else bindp (fetch_p env cfg imei True) (\<lambda>res.
          case res of Inl err \<Rightarrow> Ret False | Inr reg \<Rightarrow> bindp (cacheSet_p env imei reg) (\<lambda>_. Ret reg)))
      (\<lambda>b. b \<longrightarrow> imei \<noteq> '''' \<and> confirmed env (tracker_endpoint cfg imei))"
      unfolding a prod.case by (rule rest)
  qed
qed (simp add: paapeli_IsRegistered_p_def claim_ret)

text \<open>The events of a lookup: at most four requests, each a login or a query for the IMEI.\<close>

definition requests :: "client \<Rightarrow> client \<Rightarrow> event list" where
  "requests c c' = appended (Trace (snd c)) (Trace (snd c'))"

definition lookup_requests :: "paapeli_config \<Rightarrow> string \<Rightarrow> event set" where
  "lookup_requests cfg imei =
     insert (Requested (login_request cfg)) (range (\<lambda>token. Requested (tracker_request cfg imei token)))"

lemma quota_request:
  "Requested req \<in> A \<Longrightarrow> quota I requests 1 A (do_request env req)"
  unfolding do_request_def
  by (rule quota_atom) (auto simp: requests_def http_Do_def log_def tick_def)

lemma quota_quiet: "(\<And>c x c'. opn c = (x, c') \<Longrightarrow> Trace (snd c') = Trace (snd c)) \<Longrightarrow> quota I requests 0 A (atom opn)"
  by (rule quota_atom) (auto simp: requests_def)

lemma login_quota: "quota I requests 1 (lookup_requests cfg imei) (login_p env cfg)"
proof -
  have r: "quota I requests 1 (lookup_requests cfg imei) (do_request env (login_request cfg))"
    by (rule quota_request) (simp add: lookup_requests_def)
  have s: "quota I requests 0 (lookup_requests cfg imei) (set_token t)" for t
    unfolding set_token_def modify_def by (rule quota_quiet) auto
  show ?thesis
    unfolding login_p_def
    by (auto intro!: quota_ret quota_bindp_left [OF r] quota_bindp_left [OF s] split: sum.split)
qed

lemma ensureToken_quota: "quota I requests 1 (lookup_requests cfg imei) (ensureToken_p env cfg)"
proof -
  have r: "quota I requests 0 (lookup_requests cfg imei) (peek (\<lambda>(p, io). Token p))"
    unfolding peek_def by (rule quota_quiet) auto
  show ?thesis
    unfolding ensureToken_p_def using login_quota
    by (auto intro!: quota_ret quota_bindp_left [OF r])
qed

lemma fetch_quota: "quota I requests (if allowRetry then 4 else 2) (lookup_requests cfg imei) (fetch_p env cfg imei allowRetry)"
proof (induction env cfg imei allowRetry rule: fetch_p.induct)
  case (1 env cfg imei allowRetry)
  have r: "quota I requests 1 (lookup_requests cfg imei) (do_request env (tracker_request cfg imei token))" for token
    by (rule quota_request) (simp add: lookup_requests_def)
  have i: "quota I requests 0 (lookup_requests cfg imei) invalidateToken_p"
    unfolding invalidateToken_p_def modify_def by (rule quota_quiet) auto
  have again: "quota I requests 2 (lookup_requests cfg imei) (fetch_p env cfg imei False)"
    if "url_ok env (tracker_endpoint cfg imei)" "StatusCode r = 401" allowRetry for r :: http_response
    using 1 [of r] that by simp
  show ?case
    by (subst fetch_p.simps)
      (auto intro!: quota_ret again quota_bindp_left [OF ensureToken_quota] quota_bindp_left [OF r] quota_bindp_left [OF i]
        split: sum.split)
qed

lemma IsRegistered_quota: "quota I requests 4 (lookup_requests cfg imei) (paapeli_IsRegistered_p env cfg imei)"
proof -
  have g: "quota I requests 0 (lookup_requests cfg imei) (cacheGet_p env imei)"
    unfolding cacheGet_p_def
    by (rule quota_quiet) (auto simp: cacheGet_def time_Now_def tick_def Let_def split: prod.splits option.splits if_splits)
  have s: "quota I requests 0 (lookup_requests cfg imei) (cacheSet_p env imei reg)" for reg
    unfolding cacheSet_p_def modify_def by (rule quota_quiet) (auto simp: cacheSet_def time_Now_def tick_def Let_def)
  have f: "quota I requests 4 (lookup_requests cfg imei) (fetch_p env cfg imei True)"
    using fetch_quota [of I True] by simp
  show ?thesis
    unfolding paapeli_IsRegistered_p_def
    by (auto intro!: quota_ret quota_bindp_left [OF g] quota_bindp_left [OF f] quota_bindp_left [OF s] split: sum.split)
qed

section \<open>Properties\<close>

text \<open>C14. Lookups that run at the same time, in any number and interleaved in any way at the
  granularity of the mutex, fail closed: those that have returned and said yes were each for an
  IMEI that the back end has confirmed, the cache holds only confirmed answers at every moment,
  and together they have made at most four requests each.\<close>

theorem concurrent_lookups_fail_closed:
  "case sched turns (map (paapeli_IsRegistered_p env cfg) imeis) (\<lparr>PCfg = cfg, Token = t, Cache = (\<lambda>_. None)\<rparr>, io) of
     (ps, p, io') \<Rightarrow>
       list_all2 (\<lambda>imei q. case result q of None \<Rightarrow> True
         | Some b \<Rightarrow> (if b then imei \<noteq> '''' \<and> confirmed env (tracker_endpoint cfg imei) else True)) imeis ps \<and>
       trusted env (Paapeli p) \<and>
       count_events is_request io' \<le> count_events is_request io + 4 * length imeis"
proof -
  let ?c = "(\<lparr>PCfg = cfg, Token = t, Cache = (\<lambda>_. None)\<rparr>, io)" and ?ps = "map (paapeli_IsRegistered_p env cfg) imeis"
  let ?Q = "\<lambda>imei b _. b \<longrightarrow> imei \<noteq> '''' \<and> confirmed env (tracker_endpoint cfg imei)"
  obtain ps p io' where s: "sched turns ?ps ?c = (ps, p, io')" by (metis prod.exhaust)
  have i: "client_ok env cfg ?c" by (simp add: client_ok_def trusted_def)
  have "safe (client_ok env cfg) (\<lambda>_ _. True) asking (?Q imei) (paapeli_IsRegistered_p env cfg imei) ?c" for imei
    using IsRegistered_safe [of env cfg imei] i by (simp add: sentence_def)
  then have "list_all2 (\<lambda>Q q. safe (client_ok env cfg) (\<lambda>_ _. True) asking Q q ?c) (map ?Q imeis) ?ps"
    by (simp add: list_all2_conv_all_nth)
  from client.sched_safe [OF _ s i this]
  have c: "client_ok env cfg (p, io')"
    and q: "list_all2 (\<lambda>Q q. safe (client_ok env cfg) (\<lambda>_ _. True) asking Q q (p, io')) (map ?Q imeis) ps" by auto
  have "list_all2 (\<lambda>imei q. case result q of None \<Rightarrow> True
      | Some b \<Rightarrow> (if b then imei \<noteq> '''' \<and> confirmed env (tracker_endpoint cfg imei) else True)) imeis ps"
    using q unfolding list_all2_map1
  proof (rule list_all2_mono)
    fix imei r assume "safe (client_ok env cfg) (\<lambda>_ _. True) asking (?Q imei) r (p, io')"
    then show "case result r of None \<Rightarrow> True
        | Some b \<Rightarrow> (if b then imei \<noteq> '''' \<and> confirmed env (tracker_endpoint cfg imei) else True)"
      using c by (cases r) auto
  qed
  moreover have "count_events is_request (snd (p, io')) \<le> count_events is_request (snd ?c) + sum_list (map (\<lambda>_. 4) imeis)"
  proof (rule sched_quota [OF _ _ s])
    show "count_events is_request (snd c') \<le> count_events is_request (snd c) + length (requests c c')" for c c' :: client
      unfolding count_events_def requests_def
      by (rule order_trans [OF count_appended [where xs = "Trace (snd c)"]]) simp
    show "length (requests c c) = 0" for c by (simp add: requests_def)
    show "list_all2 (\<lambda>n q. quota (\<lambda>_. True) requests n UNIV q) (map (\<lambda>_. 4) imeis) ?ps"
      using IsRegistered_quota [of "\<lambda>_. True" cfg _ env]
      by (fastforce simp: list_all2_conv_all_nth quota_def)
  qed
  ultimately show ?thesis using s c by (simp add: client_ok_def sum_list_triv mult.commute)
qed

text \<open>The mutex does not order the answers. Of two lookups for one IMEI, the one that was answered first
  may write its answer last: the tracker has been taken out of the back end, the second
  lookup has seen it, and still the cache says registered for the full positive time to live.\<close>

definition revoking_env :: env where
  "revoking_env = demo_env\<lparr>http_do := (\<lambda>k req. Inr \<lparr>StatusCode = 200, RespBody =
     json_text ''registered'' (if k = 0 then ''true'' else ''false'')\<rparr>)\<rparr>"

theorem stale_answer_overwrites:
  "case sched [0, 0, 0, 1, 1, 1, 1, 0] (replicate 2 (paapeli_IsRegistered_p revoking_env demo_cfg ''7'')) (demo_client, demo_io) of
     (ps, p, io) \<Rightarrow> map result ps = [Some True, Some False] \<and> now revoking_env (Tick io) = 4 * second \<and>
       Cache p ''7'' = Some \<lparr>registered = True, expires = 3 * second + 30 * minute\<rparr>"
  by code_simp

end
