(* ===== verification/Server_Locks.thy ===== *)
theory Server_Locks
  imports Server Registry_Locks
begin

text \<open>
  The TCP server at the granularity of its locks. \<open>server.go\<close> takes the lock of the server, of a
  session or of a connection for one access at a time and calls the clients of the registry,
  of the uplink and of the geolocation service without any lock, so that between two accesses
  of a handler every other goroutine may run. Each definition is the goroutine of the function
  of the same name in the theory \<open>Server\<close>; its steps are the sections under a lock, the
  interactions with the outside world and the readings of the clock.
\<close>

section \<open>The registry as part of the server\<close>

text \<open>
  A server whose registry is a Paapeli client has that client as a part. The field \<open>reg\<close> never
  changes after \<open>New\<close>; \<open>p\<close> is what it held when the call was made.
\<close>

definition has_client :: "server \<Rightarrow> bool" where
  "has_client s \<longleftrightarrow> (case Reg s of AllowAll \<Rightarrow> False | Paapeli p \<Rightarrow> True)"

definition get_client :: "paapeli \<Rightarrow> server \<Rightarrow> client" where
  "get_client p s = ((case Reg s of AllowAll \<Rightarrow> p | Paapeli p' \<Rightarrow> p'), IO s)"

definition put_client :: "client \<Rightarrow> server \<Rightarrow> server" where
  "put_client c s = s\<lparr>Reg := Paapeli (fst c), IO := snd c\<rparr>"

interpretation client_part: part has_client "get_client p" put_client for p
  by unfold_locales (auto simp: has_client_def get_client_def put_client_def split: registry.splits)

definition reg_IsRegistered_p :: "env \<Rightarrow> string \<Rightarrow> registry \<Rightarrow> (server, bool) prog" where
  "reg_IsRegistered_p env imei r =
     (case r of
        AllowAll \<Rightarrow> Ret True
      | Paapeli p \<Rightarrow> focus (get_client p) put_client (paapeli_IsRegistered_p env (PCfg p) imei))"

section \<open>Uplink\<close>

definition uplinkAllowed_p :: "deps \<Rightarrow> string \<Rightarrow> (server, bool) prog" where
  "uplinkAllowed_p d imei =
     (if imei = '''' then Ret False
      else
        bindp (peek Reg) (\<lambda>r.
          if \<not> reg_Enabled r then Ret True else reg_IsRegistered_p (Env d) imei r))"

definition tbConnectedLocked :: "nat \<Rightarrow> server \<Rightarrow> bool" where
  "tbConnectedLocked sid s = tbConnected (Heap s ! sid)"

text \<open>\<open>sess != nil && sess.tbConnectedLocked()\<close>\<close>

definition is_connected_p :: "nat option \<Rightarrow> (server, bool) prog" where
  "is_connected_p sess = (case sess of None \<Rightarrow> Ret False | Some sid \<Rightarrow> peek (tbConnectedLocked sid))"

definition ensureTBConnected_p :: "deps \<Rightarrow> string \<Rightarrow> (server, bool) prog" where
  "ensureTBConnected_p d imei =
     bindp (uplinkAllowed_p d imei) (\<lambda>ok.
       if \<not> ok then Ret False
       else
         bindp (peek (\<lambda>s. map_of (Sessions s) imei)) (\<lambda>sess.
         bindp (is_connected_p sess) (\<lambda>conn.
           if conn then Ret True
           else
             bindp (atom (with_io (tb_ConnectDevice (Env d) (TB d) imei))) (\<lambda>err.
               if err \<noteq> None then Ret False
               else bindp (modify (set_tbConnected sess)) (\<lambda>_. Ret True)))))"

definition publishTelemetry_p :: "deps \<Rightarrow> string \<Rightarrow> instant \<Rightarrow> (string \<times> any) list \<Rightarrow> (server, unit) prog" where
  "publishTelemetry_p d imei ts values =
     (if imei = '''' then Ret ()
      else
        bindp (ensureTBConnected_p d imei) (\<lambda>ok.
          if \<not> ok then Ret ()
          else
            bindp (if time_IsZero ts then atom (srv_Now d) else Ret ts) (\<lambda>ts.
            bindp (atom (with_io (tb_PublishTelemetry (Env d) (TB d) imei ts values))) (\<lambda>_. Ret ()))))"

definition publishLocation_p :: "deps \<Rightarrow> string \<Rightarrow> instant \<Rightarrow> (string \<times> any) list \<Rightarrow> (server, unit) prog" where
  "publishLocation_p d imei ts values =
     (if imei = '''' then Ret ()
      else
        bindp (ensureTBConnected_p d imei) (\<lambda>ok.
          if \<not> ok then Ret ()
          else
            bindp (if time_IsZero ts then atom (srv_Now d) else Ret ts) (\<lambda>ts.
            bindp (atom (with_io (tb_PublishTelemetry (Env d) (TB d) imei ts values))) (\<lambda>_. Ret ()))))"

definition maybeConnectTB_p :: "deps \<Rightarrow> nat option \<Rightarrow> string \<Rightarrow> (server, unit) prog" where
  "maybeConnectTB_p d sess imei =
     (if sess = None \<or> imei = '''' then Ret ()
      else
        bindp (uplinkAllowed_p d imei) (\<lambda>ok.
          if \<not> ok then Ret ()
          else
            bindp (atom (with_io (tb_ConnectDevice (Env d) (TB d) imei))) (\<lambda>err.
              if err \<noteq> None then Ret () else modify (set_tbConnected sess))))"

definition resolveAndPublishLBS_p :: "deps \<Rightarrow> string \<Rightarrow> wifi_lbs \<Rightarrow> (server, unit) prog" where
  "resolveAndPublishLBS_p d imei wl =
     bindp (atom (with_io (geo_Locate (Env d) (Geo d) (lbs_request wl)))) (\<lambda>res.
       case res of
         Inl err \<Rightarrow> Ret ()
       | Inr r \<Rightarrow> publishLocation_p d imei (LbsTime wl)
           [(''position_type'', AString ''lbs_wifi''), (''latitude'', AFloat (GLatitude r)),
            (''longitude'', AFloat (GLongitude r))])"

fun run_task_p :: "deps \<Rightarrow> task \<Rightarrow> (server, unit) prog" where
  "run_task_p d (MaybeConnectTB sess imei) = maybeConnectTB_p d sess imei"
| "run_task_p d (ResolveAndPublishLBS imei wl) = resolveAndPublishLBS_p d imei wl"

section \<open>The frame handler\<close>

text \<open>The result is the new value of \<open>imei\<close> and \<open>sess\<close>, or \<open>None\<close> for a panic.\<close>

type_synonym handler = "(server, conn_local go) prog"

definition must :: "'a go \<Rightarrow> ('a \<Rightarrow> handler) \<Rightarrow> handler" where
  "must x k = (case x of None \<Rightarrow> Ret None | Some a \<Rightarrow> k a)"

definition touch_p :: "deps \<Rightarrow> nat option \<Rightarrow> (server, unit) prog" where
  "touch_p d sess = (case sess of None \<Rightarrow> Ret () | Some sid \<Rightarrow> modify (touch d (Some sid)))"

definition writeFrame_p :: "deps \<Rightarrow> nat \<Rightarrow> byte list \<Rightarrow> (server, unit) prog" where
  "writeFrame_p d sc payload = modify (writeFrame d sc payload)"

definition go_p :: "task \<Rightarrow> (server, unit) prog" where
  "go_p t = modify (spawn t)"

definition handleLogin_p :: "deps \<Rightarrow> nat \<Rightarrow> string \<Rightarrow> frame \<Rightarrow> conn_local \<Rightarrow> handler" where
  "handleLogin_p d sc remote frame l =
     must (ParseLogin (Body frame)) (\<lambda>r.
       case r of
         Inl err \<Rightarrow> bindp (writeFrame_p d sc BuildLoginACK) (\<lambda>_. Ret (Some l))
       | Inr imei \<Rightarrow>
           bindp (atom (registerSession d imei sc remote)) (\<lambda>sid.
           bindp (writeFrame_p d sc BuildLoginACK) (\<lambda>_.
           bindp (go_p (MaybeConnectTB (Some sid) imei)) (\<lambda>_.
           Ret (Some \<lparr>LImei = imei, LSess = Some sid\<rparr>)))))"

definition handleTimeSync_p :: "deps \<Rightarrow> nat \<Rightarrow> conn_local \<Rightarrow> handler" where
  "handleTimeSync_p d sc l =
     bindp (touch_p d (LSess l)) (\<lambda>_.
     bindp (atom (srv_Now d)) (\<lambda>t.
     bindp (writeFrame_p d sc (BuildTimeSyncReply t)) (\<lambda>_. Ret (Some l))))"

definition handleParam_p :: "deps \<Rightarrow> nat \<Rightarrow> conn_local \<Rightarrow> handler" where
  "handleParam_p d sc l =
     bindp (touch_p d (LSess l)) (\<lambda>_.
     bindp (writeFrame_p d sc BuildDefaultSettings) (\<lambda>_. Ret (Some l)))"

definition handleICCID_p :: "deps \<Rightarrow> frame \<Rightarrow> conn_local \<Rightarrow> handler" where
  "handleICCID_p d frame l =
     bindp (touch_p d (LSess l)) (\<lambda>_.
       case ParseICCID (Body frame) of
         Inl err \<Rightarrow> Ret (Some l)
       | Inr iccid \<Rightarrow>
           bindp (atom (srv_Now d)) (\<lambda>t.
           bindp (publishTelemetry_p d (LImei l) t [(''iccid'', AString iccid)]) (\<lambda>_. Ret (Some l))))"

definition handleStatus_p :: "deps \<Rightarrow> nat \<Rightarrow> frame \<Rightarrow> conn_local \<Rightarrow> handler" where
  "handleStatus_p d sc frame l =
     bindp (touch_p d (LSess l)) (\<lambda>_.
     must (ParseStatus (Body frame)) (\<lambda>r.
     bindp (case r of
              Inl err \<Rightarrow> Ret ()
            | Inr st \<Rightarrow>
                if BatteryPercent st \<ge> 0 then
                  bindp (atom (srv_Now d)) (\<lambda>t.
                  publishTelemetry_p d (LImei l) t [(''battery'', AInt (BatteryPercent st))])
                else Ret ()) (\<lambda>_.
     bindp (writeFrame_p d sc (BuildStatusEcho (Raw frame))) (\<lambda>_. Ret (Some l)))))"

definition handleGPS_p :: "deps \<Rightarrow> nat \<Rightarrow> frame \<Rightarrow> conn_local \<Rightarrow> handler" where
  "handleGPS_p d sc frame l =
     (if LImei l = '''' then Ret (Some l)
      else
        bindp (touch_p d (LSess l)) (\<lambda>_.
        must (ParseGPS (Body frame)) (\<lambda>r.
        bindp (case r of
                 Inl err \<Rightarrow> Ret ()
               | Inr pos \<Rightarrow> publishLocation_p d (LImei l) (PosTime pos) (gps_values pos)) (\<lambda>_.
        must (DatetimeFromBody (Body frame)) (\<lambda>dt.
        must (BuildDatetimeACK (Proto frame) dt) (\<lambda>ack.
        bindp (writeFrame_p d sc ack) (\<lambda>_. Ret (Some l))))))))"

definition handleWifi_p :: "deps \<Rightarrow> nat \<Rightarrow> frame \<Rightarrow> conn_local \<Rightarrow> handler" where
  "handleWifi_p d sc frame l =
     bindp (touch_p d (LSess l)) (\<lambda>_.
     must (ParseWifiLBS (Body frame)) (\<lambda>r.
     bindp (case r of
              Inl err \<Rightarrow> Ret ()
            | Inr wl \<Rightarrow>
                if LImei l \<noteq> '''' \<and> geo_Enabled (Geo d) then go_p (ResolveAndPublishLBS (LImei l) wl)
                else Ret ()) (\<lambda>_.
     must (DatetimeFromBody (Body frame)) (\<lambda>dt.
     must (BuildDatetimeACK (Proto frame) dt) (\<lambda>ack.
     bindp (writeFrame_p d sc ack) (\<lambda>_. Ret (Some l)))))))"

definition handleOther_p :: "deps \<Rightarrow> conn_local \<Rightarrow> handler" where
  "handleOther_p d l = bindp (touch_p d (LSess l)) (\<lambda>_. Ret (Some l))"

definition handleFrame_p :: "deps \<Rightarrow> nat \<Rightarrow> string \<Rightarrow> frame \<Rightarrow> conn_local \<Rightarrow> handler" where
  "handleFrame_p d sc remote frame l =
     (let p = Proto frame in
      if p = MsgLogin then handleLogin_p d sc remote frame l
      else if p = MsgTimeSync then handleTimeSync_p d sc l
      else if p = MsgParam then handleParam_p d sc l
      else if p = MsgICCID then handleICCID_p d frame l
      else if p = MsgStatus then handleStatus_p d sc frame l
      else if p = MsgGPS \<or> p = MsgGPSLBS \<or> p = MsgGPS2 \<or> p = MsgGPSOffline then handleGPS_p d sc frame l
      else if p = MsgWifiLBS \<or> p = MsgWifiLBS2 \<or> p = MsgOfflineWifi \<or> p = MsgOnlineWifi then handleWifi_p d sc frame l
      else handleOther_p d l)"

section \<open>Ends of connections and commands\<close>

definition cleanup_p :: "deps \<Rightarrow> nat \<Rightarrow> conn_local \<Rightarrow> (server, unit) prog" where
  "cleanup_p d sc l =
     bindp
       (if LImei l \<noteq> '''' then
          bindp (modify (removeSession (LImei l) (LSess l))) (\<lambda>_.
          bindp (is_connected_p (LSess l)) (\<lambda>conn.
            if conn then bindp (atom (with_io (tb_DisconnectDevice (Env d) (TB d) (LImei l)))) (\<lambda>_. Ret ())
            else Ret ()))
        else Ret ())
       (\<lambda>_. modify (closeConn sc))"

definition SendToDevice_p :: "deps \<Rightarrow> string \<Rightarrow> byte list \<Rightarrow> (server, string option) prog" where
  "SendToDevice_p d imei payload =
     bindp (peek (\<lambda>s. map_option (\<lambda>sid. SConn (Heap s ! sid)) (map_of (Sessions s) imei))) (\<lambda>sc.
       case sc of
         None \<Rightarrow> Ret (Some (''device '' @ imei @ '' is offline''))
       | Some sc \<Rightarrow> atom (WriteWithDeadline d sc payload))"

section \<open>Without interference\<close>

lemma reg_IsRegistered_run:
  "runp (reg_IsRegistered_p env imei (Reg s)) s =
     (case reg_IsRegistered env imei (Reg s) (IO s) of (b, r, io) \<Rightarrow> (b, s\<lparr>Reg := r, IO := io\<rparr>))"
proof (cases "Reg s")
  case (Paapeli p)
  then have "has_client s" "get_client p s = (p, IO s)" by (simp_all add: has_client_def get_client_def)
  with Paapeli client_part.runp_focus [of s p "paapeli_IsRegistered_p env (PCfg p) imei"] show ?thesis
    by (simp add: reg_IsRegistered_p_def paapeli_IsRegistered_run put_client_def split: prod.split)
qed (simp add: reg_IsRegistered_p_def)

lemma uplinkAllowed_run [simp]: "runp (uplinkAllowed_p d imei) s = uplinkAllowed d imei s"
  by (simp add: uplinkAllowed_p_def uplinkAllowed_def gate_def reg_IsRegistered_run)

lemma is_connected_run [simp]:
  "runp (is_connected_p sess) s = ((case sess of None \<Rightarrow> False | Some sid \<Rightarrow> tbConnected (Heap s ! sid)), s)"
  by (simp add: is_connected_p_def tbConnectedLocked_def split: option.split)

lemma ensureTBConnected_run [simp]: "runp (ensureTBConnected_p d imei) s = ensureTBConnected d imei s"
  by (simp add: ensureTBConnected_p_def ensureTBConnected_def Let_def split: prod.split)

lemma publishTelemetry_run [simp]: "runp (publishTelemetry_p d imei ts values) s = ((), publishTelemetry d imei ts values s)"
  by (simp add: publishTelemetry_p_def publishTelemetry_def split: prod.split)

lemma publishLocation_run [simp]: "runp (publishLocation_p d imei ts values) s = ((), publishLocation d imei ts values s)"
  by (simp add: publishLocation_p_def publishLocation_def split: prod.split)

lemma maybeConnectTB_run: "runp (maybeConnectTB_p d sess imei) s = ((), maybeConnectTB d sess imei s)"
  by (simp add: maybeConnectTB_p_def maybeConnectTB_def split: prod.split)

lemma resolveAndPublishLBS_run: "runp (resolveAndPublishLBS_p d imei wl) s = ((), resolveAndPublishLBS d imei wl s)"
  by (simp add: resolveAndPublishLBS_p_def resolveAndPublishLBS_def split: prod.split sum.split)

lemma run_task_run: "runp (run_task_p d t) s = ((), run_task d t s)"
  by (cases t) (simp_all add: maybeConnectTB_run resolveAndPublishLBS_run)

lemma touch_run [simp]: "runp (touch_p d sess) s = ((), touch d sess s)"
  by (simp add: touch_p_def touch_def split: option.split)

lemma writeFrame_run [simp]: "runp (writeFrame_p d sc b) s = ((), writeFrame d sc b s)"
  by (simp add: writeFrame_p_def)

lemma go_run [simp]: "runp (go_p t) s = ((), spawn t s)"
  by (simp add: go_p_def)

lemma cleanup_run: "runp (cleanup_p d sc l) s = ((), cleanup d sc l s)"
  by (simp add: cleanup_p_def cleanup_def Let_def split: prod.split)

lemma SendToDevice_run: "runp (SendToDevice_p d imei payload) s = SendToDevice d imei payload s"
  by (simp add: SendToDevice_p_def SendToDevice_def split: option.split)

definition handled :: "conn_local go \<times> server \<Rightarrow> (conn_local \<times> server) go" where
  "handled r = map_option (\<lambda>l. (l, snd r)) (fst r)"

lemma handled_simps [simp]: "handled (Some l, s) = Some (l, s)" "handled (None, s) = None"
  by (simp_all add: handled_def)

lemma must_simps [simp]: "must None k = Ret None" "must (Some a) k = k a"
  by (simp_all add: must_def)

lemma handleFrame_run: "handled (runp (handleFrame_p d sc remote frame l) s) = handleFrame d sc remote frame (l, s)"
proof -
  have "handled (runp (handleLogin_p d sc remote frame l) s) = handleLogin d sc remote frame (l, s)"
    by (cases "ParseLogin (Body frame)") (simp_all add: handleLogin_p_def handleLogin_def split: sum.split prod.split)
  moreover have "handled (runp (handleTimeSync_p d sc l) s) = handleTimeSync d sc (l, s)"
    by (simp add: handleTimeSync_p_def handleTimeSync_def Let_def split: prod.split)
  moreover have "handled (runp (handleParam_p d sc l) s) = handleParam d sc (l, s)"
    by (simp add: handleParam_p_def handleParam_def Let_def)
  moreover have "handled (runp (handleICCID_p d frame l) s) = handleICCID d frame (l, s)"
    by (simp add: handleICCID_p_def handleICCID_def Let_def split: sum.split prod.split)
  moreover have "handled (runp (handleStatus_p d sc frame l) s) = handleStatus d sc frame (l, s)"
    by (cases "ParseStatus (Body frame)")
      (simp_all add: handleStatus_p_def handleStatus_def Let_def split: sum.split prod.split)
  moreover have "handled (runp (handleGPS_p d sc frame l) s) = handleGPS d sc frame (l, s)"
    by (cases "ParseGPS (Body frame)")
      (simp_all add: handleGPS_p_def handleGPS_def DatetimeFromBody_eq BuildDatetimeACK_eq Let_def split: sum.split prod.split)
  moreover have "handled (runp (handleWifi_p d sc frame l) s) = handleWifi d sc frame (l, s)"
    by (cases "ParseWifiLBS (Body frame)")
      (simp_all add: handleWifi_p_def handleWifi_def DatetimeFromBody_eq BuildDatetimeACK_eq Let_def split: sum.split prod.split)
  moreover have "handled (runp (handleOther_p d l) s) = handleOther d (l, s)"
    by (simp add: handleOther_p_def handleOther_def Let_def)
  ultimately show ?thesis by (simp add: handleFrame_p_def handleFrame_def Let_def)
qed

end
