(* ===== verification/Replies.thy ===== *)
theory Replies
  imports Server_Locks
begin

text \<open>
  What a handler writes while others interfere. Whatever happens to the server between two of
  its steps, a handler writes to no connection but its own, at most the replies that the
  protocol asks for or a torn part of them, and exactly those when its connection stays open and the network takes
  its writes.
\<close>

section \<open>What a goroutine writes\<close>

definition written :: "event list \<Rightarrow> (nat \<times> byte list) list" where
  "written es = concat (map (\<lambda>e. case e of Wrote c b \<Rightarrow> [(c, b)] | _ \<Rightarrow> []) es)"

lemma written_append [simp]: "written (es @ fs) = written es @ written fs"
  by (simp add: written_def)

lemma written_simps [simp]:
  "written [] = []" "written (Wrote c b # es) = (c, b) # written es" "written (ClosedConn c # es) = written es"
  "written (Requested r # es) = written es" "written (Published p # es) = written es"
  "written (Uplink u # es) = written es"
  by (simp_all add: written_def)

lemma written_none: "list_all (\<lambda>e. \<not> is_wrote e) es \<Longrightarrow> written es = []"
  by (induction es) (auto simp: written_def is_wrote_def split: event.splits)

text \<open>The events of a step; the writes of a goroutine, with its result.\<close>

definition news :: "server \<Rightarrow> server \<Rightarrow> event list" where
  "news s s' = appended (Trace (IO s)) (Trace (IO s'))"

definition writes :: "(server \<Rightarrow> bool) \<Rightarrow> (server, 'a) prog \<Rightarrow> ('a \<Rightarrow> (nat \<times> byte list) list \<Rightarrow> bool) \<Rightarrow> bool" where
  "writes I p P \<longleftrightarrow> emits I news p \<subseteq> {(a, es). P a (written es)}"

abbreviation silent :: "(server \<Rightarrow> bool) \<Rightarrow> (server, 'a) prog \<Rightarrow> bool" where
  "silent I p \<equiv> writes I p (\<lambda>_ ws. ws = [])"

lemma writes_ret: "P a [] \<Longrightarrow> writes I (Ret a) P"
  by (simp add: writes_def)

lemma writes_bind:
  assumes "writes I p P'" "\<And>a ws. P' a ws \<Longrightarrow> writes I (k a) (\<lambda>b ws'. P b (ws @ ws'))"
  shows "writes I (bindp p k) P"
  unfolding writes_def
proof clarify
  fix b es
  assume "(b, es) \<in> emits I news (bindp p k)"
  then obtain a es1 es2 where e: "(a, es1) \<in> emits I news p" "(b, es2) \<in> emits I news (k a)" "es = es1 @ es2"
    by (rule emits_bindp)
  with assms(1) have "P' a (written es1)" by (auto simp: writes_def)
  from assms(2) [OF this] e show "P b (written es)" by (auto simp: writes_def)
qed

lemma silent_then: "silent I p \<Longrightarrow> (\<And>a. writes I (k a) P) \<Longrightarrow> writes I (bindp p k) P"
  by (erule writes_bind) simp

lemma writes_last: "writes I p (\<lambda>_. W) \<Longrightarrow> (\<And>ws. W ws \<Longrightarrow> P a ws) \<Longrightarrow> writes I (bindp p (\<lambda>_. Ret a)) P"
  by (erule writes_bind) (simp add: writes_ret)

lemma writes_atom:
  assumes "\<And>s a s'. I s \<Longrightarrow> opn s = (a, s') \<Longrightarrow> \<exists>es. Trace (IO s') = Trace (IO s) @ es \<and> P a (written es)"
  shows "writes I (atom opn) P"
  unfolding writes_def
proof clarify
  fix a es
  assume "(a, es) \<in> emits I news (atom opn)"
  then obtain s s' where s: "I s" "opn s = (a, s')" "es = news s s'" by (rule emits_atom)
  with assms [OF s(1,2)] show "P a (written es)" by (auto simp: news_def)
qed

lemma silent_atom:
  "(\<And>s a s'. opn s = (a, s') \<Longrightarrow> extends (\<lambda>e. \<not> is_wrote e) (IO s) (IO s')) \<Longrightarrow> silent I (atom opn)"
  by (rule writes_atom) (fastforce simp: extends_def intro: written_none)

lemma silent_same: "(\<And>s a s'. opn s = (a, s') \<Longrightarrow> Trace (IO s') = Trace (IO s)) \<Longrightarrow> silent I (atom opn)"
  by (rule writes_atom) auto

lemma silent_peek: "silent I (peek f)"
  unfolding peek_def by (rule silent_same) simp

lemma silent_modify: "(\<And>s. Trace (IO (f s)) = Trace (IO s)) \<Longrightarrow> silent I (modify f)"
  unfolding modify_def by (rule silent_same) auto

section \<open>The silent goroutines\<close>

lemma silent_now: "silent I (atom (srv_Now d))"
  by (rule silent_same) (auto simp: srv_Now_def with_io_def time_Now_def tick_def)

lemma silent_touch: "silent I (touch_p d sess)"
  by (cases sess)
    (auto simp: touch_p_def touch_def srv_Now_def with_io_def time_Now_def tick_def Let_def
      intro!: writes_ret silent_modify split: prod.split)

lemma silent_go: "silent I (go_p t)"
  unfolding go_p_def by (rule silent_modify) (simp add: spawn_def)

lemma silent_with_io:
  assumes "\<And>io x io'. f io = (x, io') \<Longrightarrow> extends (\<lambda>e. \<not> is_wrote e) io io'"
  shows "silent I (atom (with_io f))"
  by (rule silent_atom) (use assms in \<open>auto simp: with_io_def split: prod.splits\<close>)

lemma silent_call: "(\<And>io x io'. f io = (x, io') \<Longrightarrow> calls u io io') \<Longrightarrow> silent I (atom (with_io f))"
proof (rule silent_with_io)
  fix io x io'
  assume "\<And>io x io'. f io = (x, io') \<Longrightarrow> calls u io io'" "f io = (x, io')"
  then have "extends (\<lambda>e. e = Uplink u \<or> is_publish e) io io'" by (blast intro: calls_extends)
  then show "extends (\<lambda>e. \<not> is_wrote e) io io'"
    by (rule extends_mono) (auto simp: is_wrote_def split: event.split)
qed

lemma silent_reg: "silent I (focus (get_client p) put_client (paapeli_IsRegistered_p env cfg imei))"
proof -
  have "emits I news (focus (get_client p) put_client (paapeli_IsRegistered_p env cfg imei))
      \<subseteq> emits (\<lambda>_. True) requests (paapeli_IsRegistered_p env cfg imei)"
    by (rule emits_focus) (simp add: news_def requests_def get_client_def put_client_def)
  moreover have "written es = []" if "(a, es) \<in> emits (\<lambda>_. True) requests (paapeli_IsRegistered_p env cfg imei)" for a es
    using that IsRegistered_quota [of "\<lambda>_. True" cfg imei env]
    by (intro written_none) (fastforce simp: quota_def lookup_requests_def list_all_iff is_wrote_def)
  ultimately show ?thesis by (auto simp: writes_def)
qed

lemma silent_allowed: "silent I (uplinkAllowed_p d imei)"
  unfolding uplinkAllowed_p_def reg_IsRegistered_p_def
  by (auto intro!: writes_ret silent_then silent_peek silent_reg split: registry.split)

lemma silent_ensure: "silent I (ensureTBConnected_p d imei)"
proof -
  have "silent I (is_connected_p sess)" for sess
    by (cases sess) (auto simp: is_connected_p_def intro: writes_ret silent_peek)
  moreover have "silent I (atom (with_io (tb_ConnectDevice (Env d) (TB d) imei)))"
    by (rule silent_call) (rule tb.connect_calls)
  moreover have "silent I (modify (set_tbConnected sess))" for sess
    by (rule silent_modify) (simp add: set_tbConnected_def split: option.split)
  ultimately show ?thesis
    unfolding ensureTBConnected_p_def
    by (auto intro!: writes_ret silent_then silent_peek silent_allowed)
qed

lemma silent_publish: "silent I (publishTelemetry_p d imei ts vs)" "silent I (publishLocation_p d imei ts vs)"
proof -
  have "silent I (atom (with_io (tb_PublishTelemetry (Env d) (TB d) imei ts vs)))" for ts
    by (rule silent_call) (rule tb.telemetry_calls)
  then show "silent I (publishTelemetry_p d imei ts vs)"
    unfolding publishTelemetry_p_def
    by (auto intro!: writes_ret silent_then [OF silent_ensure] silent_then [OF silent_now] silent_then)
  then show "silent I (publishLocation_p d imei ts vs)" by (simp add: publishLocation_p_def publishTelemetry_p_def)
qed

lemma silent_register: "silent I (atom (registerSession d imei c remote))"
  by (rule silent_atom)
    (auto simp: registerSession_def closeConn_def srv_Now_def with_io_def time_Now_def tick_def log_def extends_def
      is_wrote_def Let_def split: option.splits if_splits)

section \<open>The write of a handler\<close>

text \<open>
  \<open>cut_off packets ws\<close>: of one packet, nothing or a proper prefix was written. \<open>maybe sure\<close>: the
  packets were written, or, unless that is sure, the write failed.
\<close>

definition cut_off :: "(nat \<times> byte list) list \<Rightarrow> (nat \<times> byte list) list \<Rightarrow> bool" where
  "cut_off packets ws \<longleftrightarrow> ws = [] \<or> (\<exists>c b w. packets = [(c, b)] \<and> torn b w \<and> ws = [(c, w)])"

definition maybe :: "bool \<Rightarrow> (nat \<times> byte list) list \<Rightarrow> (nat \<times> byte list) list \<Rightarrow> bool" where
  "maybe sure packets ws \<longleftrightarrow> ws = packets \<or> \<not> sure \<and> cut_off packets ws"

lemma maybe_Nil [simp]: "maybe sure [] ws \<longleftrightarrow> ws = []"
  by (auto simp: maybe_def cut_off_def)

lemma write_writes:
  assumes "\<And>s. I s \<Longrightarrow> sure \<Longrightarrow> writable d c s" "b \<noteq> []"
  shows "writes I (writeFrame_p d c b) (\<lambda>_. maybe sure [(c, b)])"
  unfolding writeFrame_p_def modify_def
proof (rule writes_atom)
  fix s a s'
  assume s: "I s" and "((), writeFrame d c b s) = (a, s')"
  then have s': "s' = writeFrame d c b s" by simp
  have w: "\<not> sure" if "c \<in> Closed s \<or> conn_write (Env d) (Tick (IO s)) c b \<noteq> None"
    using that assms(1) [OF s] by (auto simp: writable_def)
  consider "c \<in> Closed s" | err n where "c \<notin> Closed s" "conn_write (Env d) (Tick (IO s)) c b = Some (err, n)"
    | "c \<notin> Closed s" "conn_write (Env d) (Tick (IO s)) c b = None" by fastforce
  then show "\<exists>es. Trace (IO s') = Trace (IO s) @ es \<and> maybe sure [(c, b)] (written es)"
  proof cases
    case 1
    with w show ?thesis
      by (intro exI [of _ "[]"]) (simp add: s' writeFrame_def WriteWithDeadline_def maybe_def cut_off_def)
  next
    case 2
    with w sent_part_torn [OF assms(2), of n] show ?thesis
      by (intro exI [of _ "[Wrote c (sent_part n b)]"])
        (simp add: s' writeFrame_def WriteWithDeadline_def tick_def log_def maybe_def cut_off_def)
  next
    case 3
    then show ?thesis
      by (intro exI [of _ "[Wrote c b]"]) (simp add: s' writeFrame_def WriteWithDeadline_def tick_def log_def maybe_def)
  qed
qed

lemma reply_nonempty:
  "BuildLoginACK \<noteq> []" "BuildTimeSyncReply t \<noteq> []" "BuildDefaultSettings \<noteq> []" "BuildStatusEcho raw \<noteq> []" "datetime_ack f \<noteq> []"
  by (auto simp: BuildLoginACK_def BuildTimeSyncReply_def BuildDefaultSettings_def BuildStatusEcho_def BuildSimpleACK_def
      datetime_ack_def)

lemma handleFrame_writes:
  assumes w: "\<And>s. I s \<Longrightarrow> sure \<Longrightarrow> writable d c s"
  shows "writes I (handleFrame_p d c remote f l) (\<lambda>r ws. r \<noteq> None \<and> (\<exists>t. maybe sure (map (Pair c) (replies l f t)) ws))"
    (is "writes I _ ?P")
proof -
  have wr: "writes I (writeFrame_p d c b) (\<lambda>_. maybe sure [(c, b)])" if "b \<noteq> []" for b
    using w that by (rule write_writes)
  note [simp] = reply_nonempty
  note parts = silent_then [OF silent_touch] silent_then [OF silent_now] silent_then [OF silent_publish(1)]
    silent_then [OF silent_publish(2)] silent_then [OF silent_go] writes_last [OF wr] writes_ret
  obtain lg where lg: "ParseLogin (Body f) = Some lg" by (simp add: ParseLogin_eq)
  obtain st where st: "ParseStatus (Body f) = Some st" by (simp add: ParseStatus_eq)
  obtain g where g: "ParseGPS (Body f) = Some g" using ParseGPS_total by blast
  obtain wl where wl: "ParseWifiLBS (Body f) = Some wl" using ParseWifiLBS_total by blast
  have login: "writes I (handleLogin_p d c remote f l) ?P" if "Proto f = MsgLogin"
  proof -
    have "writes I (bindp (go_p (MaybeConnectTB (Some sid) imei)) (\<lambda>_. Ret (Some l')))
        (\<lambda>r ws'. r \<noteq> None \<and> (\<exists>t. maybe sure (map (Pair c) (replies l f t)) (ws @ ws')))"
      if "maybe sure [(c, BuildLoginACK)] ws" for sid imei l' ws
      using that \<open>Proto f = MsgLogin\<close> by (auto intro!: silent_then [OF silent_go] writes_ret simp: replies_def)
    then show ?thesis
      unfolding handleLogin_p_def lg must_simps using that
      by (auto intro!: silent_then [OF silent_register] writes_bind [OF wr] writes_ret simp: replies_def split: sum.split)
  qed
  have time: "writes I (handleTimeSync_p d c l) ?P" if "Proto f = MsgTimeSync"
    unfolding handleTimeSync_p_def using that by (intro parts) (auto simp: replies_def msg_defs)
  have param: "writes I (handleParam_p d c l) ?P" if "Proto f = MsgParam"
    unfolding handleParam_p_def using that by (intro parts) (auto simp: replies_def msg_defs)
  have iccid: "writes I (handleICCID_p d f l) ?P" if "Proto f = MsgICCID"
    unfolding handleICCID_p_def using that proto_disjoint(3) [of "Proto f"]
    by (auto intro!: parts simp: replies_def msg_defs maybe_def split: sum.split)
  have status: "writes I (handleStatus_p d c f l) ?P" if "Proto f = MsgStatus"
  proof -
    have mid: "silent I (case st of Inl err \<Rightarrow> Ret () | Inr st \<Rightarrow>
        if BatteryPercent st \<ge> 0 then bindp (atom (srv_Now d)) (\<lambda>t.
          publishTelemetry_p d (LImei l) t [(''battery'', AInt (BatteryPercent st))]) else Ret ())"
      by (auto intro!: silent_then [OF silent_now] silent_publish writes_ret split: sum.split)
    show ?thesis
      using that unfolding handleStatus_p_def st must_simps
      by (auto intro!: silent_then [OF silent_touch] silent_then [OF mid] writes_last [OF wr] simp: replies_def msg_defs)
  qed
  have gps: "writes I (handleGPS_p d c f l) ?P" if "is_gps (Proto f)"
  proof -
    have mid: "silent I (case g of Inl err \<Rightarrow> Ret () | Inr pos \<Rightarrow> publishLocation_p d (LImei l) (PosTime pos) (gps_values pos))"
      by (auto intro!: silent_publish writes_ret split: sum.split)
    show ?thesis
      using that proto_disjoint(1) [OF that] unfolding handleGPS_p_def g must_simps
      by (auto intro!: silent_then [OF silent_touch] silent_then [OF mid] writes_last [OF wr] writes_ret
          simp: replies_def maybe_def DatetimeFromBody_eq BuildDatetimeACK_eq datetime_ack_def)
  qed
  have wifi: "writes I (handleWifi_p d c f l) ?P" if "is_wifi (Proto f)"
  proof -
    have mid: "silent I (case wl of Inl err \<Rightarrow> Ret () | Inr wl \<Rightarrow>
        if LImei l \<noteq> '''' \<and> geo_Enabled (Geo d) then go_p (ResolveAndPublishLBS (LImei l) wl) else Ret ())"
      by (auto intro!: silent_go writes_ret split: sum.split)
    show ?thesis
      using that proto_disjoint(2) [OF that] unfolding handleWifi_p_def wl must_simps
      by (auto intro!: silent_then [OF silent_touch] silent_then [OF mid] writes_last [OF wr]
          simp: replies_def maybe_def DatetimeFromBody_eq BuildDatetimeACK_eq datetime_ack_def)
  qed
  have other: "writes I (handleOther_p d l) ?P"
    if "Proto f \<notin> {MsgLogin, MsgTimeSync, MsgParam, MsgStatus}" "\<not> is_gps (Proto f)" "\<not> is_wifi (Proto f)"
    unfolding handleOther_p_def using that by (intro parts) (auto simp: replies_def maybe_def)
  show ?thesis
    using login time param iccid status gps wifi other
    unfolding handleFrame_p_def Let_def is_gps_def [symmetric] is_wifi_def [symmetric] by auto
qed

section \<open>Properties\<close>

text \<open>
  The frames that get a reply, by the numbers of the table in \<open>README.md\<close>: login, status, the
  Wi-Fi packets, time sync and settings; GPS packets on a connection that has logged in.
\<close>

definition gets_reply :: "conn_local \<Rightarrow> byte \<Rightarrow> bool" where
  "gets_reply l p \<longleftrightarrow> p \<in> {0x01, 0x13, 0x17, 0x1A, 0x1B, 0x30, 0x57, 0x69} \<or>
     p \<in> {0x10, 0x11, 0x12, 0x22} \<and> LImei l \<noteq> ''''"

lemma gets_reply_iff: "replies l f t \<noteq> [] \<longleftrightarrow> gets_reply l (Proto f)"
  by (simp add: replies_def gets_reply_def is_wifi_def is_gps_def msg_defs Let_def)
    (cases "LImei l = ''''"; force)

text \<open>C7. The replies of the gateway, under interference. Whatever the other goroutines do between
  the steps of a handler, it never panics, and writes to its own connection only: exactly the
  packets that the code has for the frame (the ACK of a login, the time, the settings, the echo
  of a status, the datetime of a GPS or Wi-Fi packet), or, when the connection is closed or the
  write stops in the middle, nothing or a proper prefix of the one packet. While the connection
  is open and the network takes its writes, it is exactly those packets, and the frames that
  get one are those of \<open>gets_reply\<close>: every type on the must-reply list of \<open>README.md\<close>, with the
  exception, a divergence from that list, of GPS packets before login.\<close>

theorem replies_under_interference:
  "emits (\<lambda>_. True) news (handleFrame_p d c remote f l) \<subseteq>
     {(r, es). r \<noteq> None \<and> (\<exists>t. written es = map (Pair c) (replies l f t) \<or>
        cut_off (map (Pair c) (replies l f t)) (written es))} \<and>
   emits (writable d c) news (handleFrame_p d c remote f l) \<subseteq>
     {(r, es). r \<noteq> None \<and> (\<exists>t. written es = map (Pair c) (replies l f t)) \<and>
        (written es \<noteq> [] \<longleftrightarrow> gets_reply l (Proto f))}"
proof
  have "writes (\<lambda>_. True) (handleFrame_p d c remote f l)
      (\<lambda>r ws. r \<noteq> None \<and> (\<exists>t. maybe False (map (Pair c) (replies l f t)) ws))"
    by (rule handleFrame_writes) simp
  then show "emits (\<lambda>_. True) news (handleFrame_p d c remote f l) \<subseteq>
     {(r, es). r \<noteq> None \<and> (\<exists>t. written es = map (Pair c) (replies l f t) \<or>
        cut_off (map (Pair c) (replies l f t)) (written es))}"
    by (simp add: writes_def maybe_def)
  have "writes (writable d c) (handleFrame_p d c remote f l)
      (\<lambda>r ws. r \<noteq> None \<and> (\<exists>t. maybe True (map (Pair c) (replies l f t)) ws))"
    by (rule handleFrame_writes)
  then show "emits (writable d c) news (handleFrame_p d c remote f l) \<subseteq>
     {(r, es). r \<noteq> None \<and> (\<exists>t. written es = map (Pair c) (replies l f t)) \<and>
        (written es \<noteq> [] \<longleftrightarrow> gets_reply l (Proto f))}"
    using gets_reply_iff [of l f] by (fastforce simp: writes_def maybe_def)
qed

text \<open>
  The list in \<open>README.md\<close> of packets that a device must get a reply to has \<open>0x10\<close> and \<open>0x11\<close>
  without a condition. Before login they get none.
\<close>

theorem gps_before_login_unanswered:
  assumes "Proto f = 0x10 \<or> Proto f = 0x11" "LImei l = ''''"
  shows "emits (\<lambda>_. True) news (handleFrame_p d c remote f l) \<subseteq> {(r, es). r \<noteq> None \<and> written es = []}"
proof -
  have "replies l f t = []" for t
    using assms gets_reply_iff [of l f t] by (auto simp: gets_reply_def)
  moreover have "writes (\<lambda>_. True) (handleFrame_p d c remote f l)
      (\<lambda>r ws. r \<noteq> None \<and> (\<exists>t. maybe False (map (Pair c) (replies l f t)) ws))"
    by (rule handleFrame_writes) simp
  ultimately show ?thesis by (simp add: writes_def)
qed

end
