(* ===== verification/Server_Contracts.thy ===== *)
theory Server_Contracts
  imports Server_Locks
begin

text \<open>
  What the goroutines of the server promise each other. Every goroutine relies on the others
  not to move or rename sessions, to only add to the trace and to the closed connections; the
  goroutine of a connection relies on more: that nobody takes an IMEI from its connection
  without closing it. Every step of every goroutine guarantees this, for all connections but
  the one that is just ending, and keeps the invariant of the server.
\<close>

section \<open>Invariant, rely, guarantee\<close>

definition sinv :: "deps \<Rightarrow> registry \<Rightarrow> server \<Rightarrow> bool" where
  "sinv d r0 s \<longleftrightarrow> inv d r0 s \<and> (\<forall>t \<in> set (Tasks s). task_ok s t)"

definition adds :: "server \<Rightarrow> server \<Rightarrow> bool" where
  "adds s s' \<longleftrightarrow> set (Trace (IO s)) \<subseteq> set (Trace (IO s'))"

definition evolves :: "server \<Rightarrow> server \<Rightarrow> bool" where
  "evolves s s' \<longleftrightarrow> grows s s' \<and> adds s s' \<and> Closed s \<subseteq> Closed s'"

definition keeps_peer :: "nat \<Rightarrow> server \<Rightarrow> server \<Rightarrow> bool" where
  "keeps_peer c s s' \<longleftrightarrow> (\<forall>i. peer i s = Some c \<and> c \<notin> Closed s' \<longrightarrow> peer i s' = Some c)"

definition relies :: "nat \<Rightarrow> server \<Rightarrow> server \<Rightarrow> bool" where
  "relies c s s' \<longleftrightarrow> evolves s s' \<and> keeps_peer c s s'"

text \<open>
  \<open>own\<close> are the connections for which the goroutine may create sessions or which it may close,
  beyond those of existing sessions; \<open>ending\<close> those whose sessions it may take out.
\<close>

definition grants :: "nat set \<Rightarrow> nat set \<Rightarrow> server \<Rightarrow> server \<Rightarrow> bool" where
  "grants own ending s s' \<longleftrightarrow> evolves s s' \<and> (\<forall>c. c \<notin> ending \<longrightarrow> keeps_peer c s s') \<and>
     (\<forall>sid. length (Heap s) \<le> sid \<and> sid < length (Heap s') \<longrightarrow> SConn (Heap s' ! sid) \<in> own) \<and>
     Closed s' \<subseteq> Closed s \<union> own \<union> SConn ` set (Heap s)"

lemma adds_refl [simp]: "adds s s"
  by (simp add: adds_def)

lemma evolves_refl [simp]: "evolves s s"
  by (simp add: evolves_def)

lemma evolves_trans: "evolves a b \<Longrightarrow> evolves b c \<Longrightarrow> evolves a c"
  by (auto simp: evolves_def adds_def intro: grows_trans)

lemma relies_refl [simp]: "relies c s s"
  by (simp add: relies_def keeps_peer_def)

lemma relies_trans: "relies k a b \<Longrightarrow> relies k b c \<Longrightarrow> relies k a c"
  using evolves_trans [of a b c] by (fastforce simp: relies_def keeps_peer_def evolves_def)

lemma grants_refl [simp]: "grants own ending s s"
  by (auto simp: grants_def keeps_peer_def)

lemma grants_mono: "grants own ending s s' \<Longrightarrow> own \<subseteq> own' \<Longrightarrow> ending \<subseteq> ending' \<Longrightarrow> grants own' ending' s s'"
  unfolding grants_def by blast

lemma grants_relies: "grants own ending s s' \<Longrightarrow> c \<notin> ending \<Longrightarrow> relies c s s'"
  by (simp add: grants_def relies_def)

text \<open>The two logics: for goroutines without a connection, and for that of a connection.\<close>

interpretation free: rely_guarantee "sinv d r0" evolves "grants {} {}" for d r0
  by unfold_locales (auto intro: evolves_trans)

interpretation conn: rely_guarantee "sinv d r0" "relies c" "grants {c} ending" for d r0 c ending
  by unfold_locales (auto intro: relies_trans)

section \<open>Atomic steps\<close>

lemma task_ok_calm: "calm s s' \<Longrightarrow> task_ok s t \<Longrightarrow> task_ok s' t"
  by (rule task_ok_grows [OF calm_grows])

lemma peer_calm: "table_ok s \<Longrightarrow> calm s s' \<Longrightarrow> peer i s' = peer i s"
  unfolding peer_def by (cases "map_of (Sessions s) i") (simp_all add: calm_def table_ok_def del: map_of_eq_Some_iff)

lemma quiet_step:
  assumes "sinv d r0 s" "calm s s'" "inv d r0 s'" "adds s s'"
  shows "sinv d r0 s' \<and> grants own ending s s'"
proof -
  have "sinv d r0 s'" using assms task_ok_calm by (auto simp: sinv_def calm_def)
  moreover have "peer i s' = peer i s" for i
    using assms peer_calm by (auto simp: sinv_def inv_def)
  ultimately show ?thesis
    using assms calm_grows [of s s'] by (auto simp: grants_def evolves_def keeps_peer_def calm_def)
qed

lemma ok_step: "sinv d r0 s \<Longrightarrow> ok d r0 s s' \<Longrightarrow> adds s s' \<Longrightarrow> sinv d r0 s' \<and> grants own ending s s'"
  by (rule quiet_step) (simp_all add: sinv_def ok_def)

lemma adds_extends: "extends P (IO s) (IO s') \<Longrightarrow> adds s s'"
  by (auto simp: adds_def extends_def)

lemma adds_same: "IO s' = IO s \<Longrightarrow> adds s s'"
  by (simp add: adds_def)

lemma Now_adds: "srv_Now d s = (t, s') \<Longrightarrow> adds s s'"
  by (rule adds_extends [where P = "\<lambda>_. True"]) (auto simp: srv_Now_def with_io_def time_Now_def extends_tick)

lemma touch_adds: "adds s (touch d sess s)"
proof (cases sess)
  case (Some sid)
  obtain t s1 where n: "srv_Now d s = (t, s1)" by fastforce
  with Now_adds [OF n] Some show ?thesis by (simp add: touch_def adds_def)
qed (simp add: touch_def)

lemma Write_adds: "WriteWithDeadline d sc b s = (e, s') \<Longrightarrow> adds s s'"
  by (auto simp: WriteWithDeadline_def adds_def log_def tick_def split: if_splits option.splits)

lemma writeFrame_adds: "adds s (writeFrame d sc b s)"
  using Write_adds [of d sc b s "fst (WriteWithDeadline d sc b s)"] by (simp add: writeFrame_def)

lemma with_io_adds: "with_io f s = (x, s') \<Longrightarrow> (\<And>io'. f (IO s) = (x, io') \<Longrightarrow> extends P (IO s) io') \<Longrightarrow> adds s s'"
  by (rule adds_extends) (auto simp: with_io_def split: prod.splits)

lemma spawn_step: "sinv d r0 s \<Longrightarrow> task_ok s t \<Longrightarrow> sinv d r0 (spawn t s) \<and> grants own ending s (spawn t s)"
  by (auto simp: sinv_def spawn_def grants_def evolves_def keeps_peer_def peer_def grows_def adds_def
      elim!: task_ok_grows [rotated])

section \<open>Uplink\<close>

text \<open>The session, if there is one, is of the IMEI.\<close>

definition names :: "nat option \<Rightarrow> string \<Rightarrow> server \<Rightarrow> bool" where
  "names sess imei s \<longleftrightarrow> (\<forall>sid. sess = Some sid \<longrightarrow> sid < length (Heap s) \<and> IMEI (Heap s ! sid) = imei)"

lemma stable_evolves [stable_intros]:
  "stable I evolves (\<lambda>s. e \<in> set (Trace (IO s)))"
  "stable I evolves (names sess imei)"
  by (auto simp: stable_def evolves_def adds_def grows_def names_def)

lemma safe_reg:
  assumes "same_reg r0 (Paapeli p)" "sinv d r0 s"
  shows "safe (sinv d r0) evolves (grants {} {}) (\<lambda>b _. b \<longrightarrow> imei \<noteq> '''' \<and> confirmed (Env d) (tracker_endpoint (PCfg p) imei))
    (focus (get_client p) put_client (paapeli_IsRegistered_p (Env d) (PCfg p) imei)) s"
proof (rule safe_focus [where I = "client_ok (Env d) (PCfg p)" and R = "\<lambda>_ _. True" and G = asking])
  have reg: "\<exists>p'. Reg s = Paapeli p' \<and> PCfg p' = PCfg p" if "sinv d r0 s" for s
    using that assms(1) by (cases r0) (auto simp: sinv_def inv_def)
  show ci: "client_ok (Env d) (PCfg p) (get_client p s)" if s: "sinv d r0 s" for s
  proof -
    have "trusted (Env d) (Reg s)" using s by (simp add: sinv_def inv_def)
    with reg [OF s] show ?thesis by (auto simp: client_ok_def get_client_def)
  qed
  show "safe (client_ok (Env d) (PCfg p)) (\<lambda>_ _. True) asking
      (\<lambda>b _. b \<longrightarrow> imei \<noteq> '''' \<and> confirmed (Env d) (tracker_endpoint (PCfg p) imei))
      (paapeli_IsRegistered_p (Env d) (PCfg p) imei) (get_client p s)"
    using IsRegistered_safe [of "Env d" "PCfg p" imei] ci [OF assms(2)] unfolding sentence_def by blast
  fix s x
  assume s: "sinv d r0 s" and x: "client_ok (Env d) (PCfg p) x" and a: "asking (get_client p s) x"
  obtain p' where p': "Reg s = Paapeli p'" "PCfg p' = PCfg p" using reg [OF s] by blast
  have e: "extends is_request (IO s) (snd x)" using a by (simp add: asking_def get_client_def)
  have i: "inv d r0 s" using s by (simp add: sinv_def)
  have "inv d r0 (s\<lparr>IO := snd x\<rparr>)" by (rule inv_events [OF i extends_mono [OF e]]) auto
  moreover have "same_reg r0 (Paapeli (fst x))"
    using assms(1) x by (cases r0) (auto simp: client_ok_def)
  ultimately have "inv d r0 (put_client x s)"
    using x by (simp add: put_client_def inv_def table_ok_def connected_ok_def client_ok_def)
  moreover have "calm s (put_client x s)" by (simp add: calm_def put_client_def)
  moreover have "adds s (put_client x s)" by (rule adds_extends) (use e in \<open>simp add: put_client_def\<close>)
  moreover have "get_client p (put_client x s) = x"
    by (rule client_part.get_put) (simp add: has_client_def p')
  ultimately show "sinv d r0 (put_client x s) \<and> grants {} {} s (put_client x s) \<and> get_client p (put_client x s) = x"
    using quiet_step [OF s] by blast
qed (use assms in simp_all)

abbreviation anyone :: "deps \<Rightarrow> registry \<Rightarrow> (server \<Rightarrow> bool) \<Rightarrow> (server, 'a) prog \<Rightarrow> ('a \<Rightarrow> server \<Rightarrow> bool) \<Rightarrow> bool" where
  "anyone d r0 \<equiv> sentence (sinv d r0) evolves (grants {} {})"

lemma uplinkAllowed_safe:
  "anyone d r0 (\<lambda>_. True) (uplinkAllowed_p d imei) (\<lambda>b _. b \<longrightarrow> licensed (Env d) r0 imei)"
proof (cases "imei = ''''")
  case False
  have k: "anyone d r0 (\<lambda>_. same_reg r0 r) (if \<not> reg_Enabled r then Ret True else reg_IsRegistered_p (Env d) imei r)
      (\<lambda>b _. b \<longrightarrow> licensed (Env d) r0 imei)" for r
  proof (cases r)
    case AllowAll
    with False show ?thesis
      by (cases r0) (auto intro!: free.ret_rule simp: licensed_def)
  next
    case (Paapeli p)
    have "licensed (Env d) r0 imei"
      if "same_reg r0 r" "imei \<noteq> ''''" "confirmed (Env d) (tracker_endpoint (PCfg p) imei)"
      using that Paapeli by (cases r0) (auto simp: licensed_def tracker_url_def)
    with Paapeli show ?thesis
      by (auto simp: sentence_def reg_IsRegistered_p_def intro: free.safe_weaken [OF safe_reg])
  qed
  show ?thesis
    unfolding uplinkAllowed_p_def if_not_P [OF False]
    by (rule free.bind_rule [OF free.peek_rule k]) (auto simp: sinv_def inv_def)
qed (simp add: uplinkAllowed_p_def free.ret_rule)

lemma is_connected_safe:
  "anyone d r0 (names sess imei) (is_connected_p sess)
     (\<lambda>b s. names sess imei s \<and> (b \<longrightarrow> Uplink (ConnectCall imei) \<in> set (Trace (IO s))))"
proof (cases sess)
  case (Some sid)
  show ?thesis
    unfolding is_connected_p_def Some option.case
  proof (rule free.peek_rule)
    show "names (Some sid) imei s \<and> (tbConnectedLocked sid s \<longrightarrow> Uplink (ConnectCall imei) \<in> set (Trace (IO s)))"
      if "sinv d r0 s" "names (Some sid) imei s" for s
      using that by (auto simp: tbConnectedLocked_def sinv_def inv_def connected_ok_def names_def)
  qed (auto intro!: stable_intros)
qed (auto simp: is_connected_p_def intro!: free.ret_rule stable_intros)

lemma connect_safe:
  assumes "licensed (Env d) r0 imei"
  shows "anyone d r0 (names sess imei) (atom (with_io (tb_ConnectDevice (Env d) (TB d) imei)))
    (\<lambda>err s. names sess imei s \<and> Uplink (ConnectCall imei) \<in> set (Trace (IO s)))"
proof (rule free.atom_rule)
  fix s err s'
  assume s: "sinv d r0 s" and n: "names sess imei s" and c: "with_io (tb_ConnectDevice (Env d) (TB d) imei) s = (err, s')"
  have "inv d r0 s'" "Uplink (ConnectCall imei) \<in> set (Trace (IO s'))" "Heap s' = Heap s"
    using connect_inv [OF c _ assms] s by (simp_all add: sinv_def)
  moreover have "adds s s'" by (rule with_io_adds [OF c]) (rule calls_extends [OF tb.connect_calls])
  ultimately show "sinv d r0 s' \<and> grants {} {} s s' \<and> names sess imei s' \<and> Uplink (ConnectCall imei) \<in> set (Trace (IO s'))"
    using quiet_step [OF s] with_io_calm [OF c] n by (auto simp: names_def)
qed (auto intro!: stable_intros)

lemma mark_safe:
  "anyone d r0 (\<lambda>s. names sess imei s \<and> Uplink (ConnectCall imei) \<in> set (Trace (IO s))) (modify (set_tbConnected sess))
    (\<lambda>_ s. Uplink (ConnectCall imei) \<in> set (Trace (IO s)))"
proof (rule free.modify_rule)
  fix s
  assume s: "sinv d r0 s" and n: "names sess imei s \<and> Uplink (ConnectCall imei) \<in> set (Trace (IO s))"
  have "inv d r0 (set_tbConnected sess s)"
    by (rule set_tbConnected_inv) (use s n in \<open>auto simp: sinv_def names_def\<close>)
  moreover have io: "IO (set_tbConnected sess s) = IO s"
    by (simp add: set_tbConnected_def split: option.split)
  ultimately show "sinv d r0 (set_tbConnected sess s) \<and> grants {} {} s (set_tbConnected sess s) \<and>
      Uplink (ConnectCall imei) \<in> set (Trace (IO (set_tbConnected sess s)))"
    using quiet_step [OF s set_tbConnected_calm _ adds_same [OF io]] n io by simp
qed (auto intro!: stable_intros)

lemma lookup_session_safe:
  "anyone d r0 (\<lambda>_. True) (peek (\<lambda>s. map_of (Sessions s) imei)) (\<lambda>sess. names sess imei)"
  by (rule free.peek_rule) (auto intro!: stable_intros simp: names_def sinv_def inv_def table_ok_def)

lemma ensureTBConnected_safe:
  "anyone d r0 (\<lambda>_. True) (ensureTBConnected_p d imei)
     (\<lambda>b s. b \<longrightarrow> licensed (Env d) r0 imei \<and> Uplink (ConnectCall imei) \<in> set (Trace (IO s)))"
proof -
  let ?c = "\<lambda>s. Uplink (ConnectCall imei) \<in> set (Trace (IO s))"
  have connect: "anyone d r0 (names sess imei)
      (bindp (atom (with_io (tb_ConnectDevice (Env d) (TB d) imei))) (\<lambda>err.
         if err \<noteq> None then Ret False else bindp (modify (set_tbConnected sess)) (\<lambda>_. Ret True)))
      (\<lambda>b s. b \<longrightarrow> ?c s)"
    if "licensed (Env d) r0 imei" for sess
    using that
    by (auto intro!: free.bind_rule [OF connect_safe] free.bind_rule [OF mark_safe] free.ret_rule stable_intros)
  have rest: "anyone d r0 (\<lambda>_. True)
      (bindp (peek (\<lambda>s. map_of (Sessions s) imei)) (\<lambda>sess. bindp (is_connected_p sess) (\<lambda>conn.
         if conn then Ret True
         else bindp (atom (with_io (tb_ConnectDevice (Env d) (TB d) imei))) (\<lambda>err.
           if err \<noteq> None then Ret False else bindp (modify (set_tbConnected sess)) (\<lambda>_. Ret True)))))
      (\<lambda>b s. b \<longrightarrow> ?c s)"
    if "licensed (Env d) r0 imei"
    by (intro free.bind_rule [OF lookup_session_safe] free.bind_rule [OF is_connected_safe] free.cond_rule)
      (use that in \<open>auto intro!: free.ret_rule stable_intros intro: free.weaken_pre [OF connect] simp del: not_None_eq\<close>)
  show ?thesis
    unfolding ensureTBConnected_p_def
    by (rule free.bind_rule [OF uplinkAllowed_safe])
      (auto simp: sentence_def dest: rest [unfolded sentence_def])
qed

text \<open>Steps that need to know nothing.\<close>

abbreviation harmless :: "deps \<Rightarrow> registry \<Rightarrow> (server, 'a) prog \<Rightarrow> ('a \<Rightarrow> bool) \<Rightarrow> bool" where
  "harmless d r0 p Q \<equiv> anyone d r0 (\<lambda>_. True) p (\<lambda>a _. Q a)"

lemma harmless_ret: "Q a \<Longrightarrow> harmless d r0 (Ret a) Q"
  by (rule free.ret_rule) simp_all

lemma harmless_bind:
  "harmless d r0 p (\<lambda>_. True) \<Longrightarrow> (\<And>a. harmless d r0 (k a) Q) \<Longrightarrow> harmless d r0 (bindp p k) Q"
  by (rule free.bind_rule)

lemma harmless_atom:
  "(\<And>s x s'. opn s = (x, s') \<Longrightarrow> ok d r0 s s' \<and> adds s s') \<Longrightarrow> harmless d r0 (atom opn) (\<lambda>_. True)"
  by (rule free.atom_rule) (auto dest: ok_step)

lemma harmless_modify: "(\<And>s. ok d r0 s (f s) \<and> adds s (f s)) \<Longrightarrow> harmless d r0 (modify f) (\<lambda>_. True)"
  unfolding modify_def by (rule harmless_atom) auto

lemma now_safe: "harmless d r0 (atom (srv_Now d)) (\<lambda>_. True)"
  by (rule harmless_atom) (auto intro: srv_Now_ok Now_adds)

lemma touch_safe: "harmless d r0 (touch_p d sess) (\<lambda>_. True)"
  by (cases sess) (auto simp: touch_p_def intro!: harmless_ret harmless_modify touch_ok touch_adds)

lemma write_safe: "harmless d r0 (writeFrame_p d sc b) (\<lambda>_. True)"
  unfolding writeFrame_p_def by (auto intro!: harmless_modify writeFrame_ok writeFrame_adds)

text \<open>Interactions with the outside world that do not call the uplink client.\<close>

lemma io_safe:
  assumes "\<And>io x io'. f io = (x, io') \<Longrightarrow> extends (\<lambda>e. \<forall>u. e \<noteq> Uplink u) io io'"
  shows "harmless d r0 (atom (with_io f)) (\<lambda>_. True)"
proof (rule harmless_atom)
  fix s x s'
  assume "with_io f s = (x, s')"
  then obtain io where "f (IO s) = (x, io)" "s' = s\<lparr>IO := io\<rparr>"
    by (auto simp: with_io_def split: prod.splits)
  then have "extends (\<lambda>e. \<forall>u. e \<noteq> Uplink u) (IO s) (IO s')" "s' = s\<lparr>IO := IO s'\<rparr>" using assms by auto
  then show "ok d r0 s s' \<and> adds s s'" using ok_events [of s "IO s'" d r0] adds_extends by metis
qed

lemma locate_safe: "harmless d r0 (atom (with_io (geo_Locate (Env d) (Geo d) req))) (\<lambda>_. True)"
  by (rule io_safe) (rule asks_quiet [OF http_geolocation.geo_cost])

lemma peek_safe: "harmless d r0 (peek f) (\<lambda>_. True)"
  by (rule free.peek_rule) simp_all

lemma go_lbs_safe: "harmless d r0 (go_p (ResolveAndPublishLBS imei wl)) (\<lambda>_. True)"
  unfolding go_p_def by (rule free.modify_rule) (auto dest: spawn_step [where t = "ResolveAndPublishLBS imei wl"])

lemma send_safe: "harmless d r0 (SendToDevice_p d imei payload) (\<lambda>_. True)"
proof -
  have "harmless d r0 (atom (WriteWithDeadline d sc payload)) (\<lambda>_. True)" for sc
    by (rule harmless_atom) (auto intro: Write_ok Write_adds)
  then show ?thesis
    unfolding SendToDevice_p_def by (auto intro!: harmless_bind harmless_ret peek_safe split: option.split)
qed

lemma telemetry_safe:
  assumes "licensed (Env d) r0 imei"
  shows "anyone d r0 (\<lambda>s. Uplink (ConnectCall imei) \<in> set (Trace (IO s)))
    (atom (with_io (tb_PublishTelemetry (Env d) (TB d) imei ts values))) (\<lambda>_ _. True)"
proof (rule free.atom_rule)
  fix s x s'
  assume s: "sinv d r0 s" "Uplink (ConnectCall imei) \<in> set (Trace (IO s))"
    and w: "with_io (tb_PublishTelemetry (Env d) (TB d) imei ts values) s = (x, s')"
  have "ok d r0 s s'" by (rule telemetry_ok [OF w]) (use s assms in simp)
  moreover have "adds s s'" by (rule with_io_adds [OF w]) (rule calls_extends [OF tb.telemetry_calls])
  ultimately show "sinv d r0 s' \<and> grants {} {} s s' \<and> True" using ok_step [OF s(1)] by simp
qed (auto intro!: stable_intros)

lemma publishTelemetry_safe: "harmless d r0 (publishTelemetry_p d imei ts values) (\<lambda>_. True)"
proof -
  let ?c = "\<lambda>s. Uplink (ConnectCall imei) \<in> set (Trace (IO s))"
  have now: "anyone d r0 ?c (if time_IsZero ts then atom (srv_Now d) else Ret ts) (\<lambda>_. ?c)"
  proof (rule free.cond_rule)
    have "stable (sinv d r0) (grants {} {}) ?c" by (auto simp: stable_def grants_def evolves_def adds_def)
    from free.frame_rule [OF now_safe stable_evolves(1) this] show "anyone d r0 ?c (atom (srv_Now d)) (\<lambda>_. ?c)" by simp
  qed (rule free.ret_rule, auto intro!: stable_intros)
  have "anyone d r0 (\<lambda>s. licensed (Env d) r0 imei \<and> ?c s)
      (bindp (if time_IsZero ts then atom (srv_Now d) else Ret ts) (\<lambda>ts.
       bindp (atom (with_io (tb_PublishTelemetry (Env d) (TB d) imei ts values))) (\<lambda>_. Ret ()))) (\<lambda>_ _. True)"
    by (rule free.assume_rule, rule free.bind_rule [OF now], rule free.bind_rule [OF telemetry_safe])
      (auto intro!: free.ret_rule)
  then have rest: "anyone d r0 (\<lambda>s. ok \<longrightarrow> licensed (Env d) r0 imei \<and> ?c s)
      (if \<not> ok then Ret () else (bindp (if time_IsZero ts then atom (srv_Now d) else Ret ts) (\<lambda>ts.
       bindp (atom (with_io (tb_PublishTelemetry (Env d) (TB d) imei ts values))) (\<lambda>_. Ret ())))) (\<lambda>_ _. True)" for ok
    by (cases ok) (auto intro!: free.ret_rule)
  show ?thesis
    unfolding publishTelemetry_p_def
    by (rule free.cond_rule, simp add: harmless_ret, rule free.bind_rule [OF ensureTBConnected_safe], rule rest)
qed

lemma publishLocation_safe: "harmless d r0 (publishLocation_p d imei ts values) (\<lambda>_. True)"
  using publishTelemetry_safe by (simp add: publishLocation_p_def publishTelemetry_p_def)

lemma maybeConnectTB_safe:
  "anyone d r0 (names sess imei) (maybeConnectTB_p d sess imei) (\<lambda>_ _. True)"
proof -
  let ?p = "bindp (atom (with_io (tb_ConnectDevice (Env d) (TB d) imei))) (\<lambda>err.
              if err \<noteq> None then Ret () else modify (set_tbConnected sess))"
  have mark: "anyone d r0 (\<lambda>s. names sess imei s \<and> Uplink (ConnectCall imei) \<in> set (Trace (IO s)))
      (modify (set_tbConnected sess)) (\<lambda>_ _. True)"
    by (rule free.weaken_post [OF mark_safe]) simp
  have p: "anyone d r0 (names sess imei) ?p (\<lambda>_ _. True)" if "licensed (Env d) r0 imei"
    by (rule free.bind_rule [OF connect_safe [OF that]], rule free.cond_rule, rule free.ret_rule)
      (auto intro!: stable_intros mark)
  have rest: "anyone d r0 (\<lambda>s. (ok \<longrightarrow> licensed (Env d) r0 imei) \<and> names sess imei s) (if \<not> ok then Ret () else ?p) (\<lambda>_ _. True)" for ok
    by (rule free.assume_rule, rule free.cond_rule, rule free.ret_rule) (simp_all add: stable_evolves p del: not_None_eq)
  have "stable (sinv d r0) (grants {} {}) (names sess imei)"
    by (auto simp: stable_def grants_def evolves_def names_def grows_def)
  from free.frame_rule [OF uplinkAllowed_safe stable_evolves(2) this]
  have allowed: "anyone d r0 (names sess imei) (uplinkAllowed_p d imei)
      (\<lambda>ok s. (ok \<longrightarrow> licensed (Env d) r0 imei) \<and> names sess imei s)" by simp
  show ?thesis
    unfolding maybeConnectTB_p_def
    by (rule free.cond_rule, rule free.ret_rule, simp, rule stable_evolves, rule free.bind_rule [OF allowed rest])
qed

lemma resolveAndPublishLBS_safe: "harmless d r0 (resolveAndPublishLBS_p d imei wl) (\<lambda>_. True)"
  unfolding resolveAndPublishLBS_p_def
  by (auto intro!: harmless_bind locate_safe harmless_ret publishLocation_safe split: sum.split)

lemma run_task_safe: "anyone d r0 (\<lambda>s. task_ok s t) (run_task_p d t) (\<lambda>_ _. True)"
  by (cases t) (auto intro: free.weaken_pre [OF maybeConnectTB_safe] simp: names_def resolveAndPublishLBS_safe)

section \<open>The frame handler\<close>

text \<open>Every frame but a login leaves the variables of the connection alone.\<close>

lemma no_login_safe:
  assumes "Proto f \<noteq> MsgLogin"
  shows "harmless d r0 (handleFrame_p d c remote f l) (\<lambda>r. r = Some l)"
proof -
  note parts = harmless_bind harmless_ret touch_safe now_safe write_safe publishTelemetry_safe publishLocation_safe go_lbs_safe
  obtain st where st: "ParseStatus (Body f) = Some st" by (simp add: ParseStatus_eq)
  obtain g where g: "ParseGPS (Body f) = Some g" using ParseGPS_total by blast
  obtain wl where wl: "ParseWifiLBS (Body f) = Some wl" using ParseWifiLBS_total by blast
  have "harmless d r0 (handleTimeSync_p d c l) (\<lambda>r. r = Some l)"
    unfolding handleTimeSync_p_def by (intro parts) simp
  moreover have "harmless d r0 (handleParam_p d c l) (\<lambda>r. r = Some l)"
    unfolding handleParam_p_def by (intro parts) simp
  moreover have "harmless d r0 (handleICCID_p d f l) (\<lambda>r. r = Some l)"
    unfolding handleICCID_p_def by (auto intro!: parts split: sum.split)
  moreover have "harmless d r0 (handleStatus_p d c f l) (\<lambda>r. r = Some l)"
    unfolding handleStatus_p_def st must_simps by (auto intro!: parts split: sum.split)
  moreover have "harmless d r0 (handleGPS_p d c f l) (\<lambda>r. r = Some l)"
    unfolding handleGPS_p_def g must_simps DatetimeFromBody_eq BuildDatetimeACK_eq
    by (auto intro!: parts simp: DatetimeFromBody_eq BuildDatetimeACK_eq split: sum.split)
  moreover have "harmless d r0 (handleWifi_p d c f l) (\<lambda>r. r = Some l)"
    unfolding handleWifi_p_def wl must_simps
    by (auto intro!: parts simp: DatetimeFromBody_eq BuildDatetimeACK_eq split: sum.split)
  moreover have "harmless d r0 (handleOther_p d l) (\<lambda>r. r = Some l)"
    unfolding handleOther_p_def by (intro parts) simp
  ultimately show ?thesis using assms by (simp add: handleFrame_p_def Let_def)
qed

text \<open>
  What the goroutine of connection \<open>c\<close> knows of its variables: they name a session of the
  IMEI on \<open>c\<close>, and as long as \<open>c\<close> is open, \<open>c\<close> is where the table sends commands for the IMEI.
\<close>

definition mine :: "nat \<Rightarrow> conn_local \<Rightarrow> server \<Rightarrow> bool" where
  "mine c l s \<longleftrightarrow> local_ok c l s \<and> (LImei l \<noteq> '''' \<and> c \<notin> Closed s \<longrightarrow> peer (LImei l) s = Some c)"

lemma mine_relies: "relies c s s' \<Longrightarrow> mine c l s \<Longrightarrow> mine c l s'"
  by (auto simp: mine_def relies_def evolves_def keeps_peer_def local_ok_grows)

lemma stable_mine [stable_intros]:
  "stable I (relies c) (mine c l)" "stable I (grants {c} {}) (mine c l)" "stable I (grants {} {}) (mine c l)"
  by (auto simp: stable_def intro: mine_relies grants_relies)

lemma stable_local [stable_intros]: "stable I (relies c) (local_ok c l)"
  by (auto simp: stable_def relies_def evolves_def intro: local_ok_grows)

abbreviation serving :: "deps \<Rightarrow> registry \<Rightarrow> nat \<Rightarrow> (server \<Rightarrow> bool) \<Rightarrow> (server, 'a) prog \<Rightarrow> ('a \<Rightarrow> server \<Rightarrow> bool) \<Rightarrow> bool" where
  "serving d r0 c \<equiv> sentence (sinv d r0) (relies c) (grants {c} {})"

lemma anyone_serving: "anyone d r0 P p Q \<Longrightarrow> serving d r0 c P p Q"
  by (erule sentence_mono) (auto simp: relies_def intro: grants_mono)

lemma harmless_serving: "harmless d r0 p Q \<Longrightarrow> serving d r0 c (mine c l) p (\<lambda>a s. Q a \<and> mine c l s)"
  using conn.frame_rule [OF anyone_serving stable_mine(1,2)] by fastforce

lemma register_grants:
  assumes r: "registerSession d imei c remote s = (sid, s')" and t: "table_ok s"
  shows "grants {c} {} s s'" "peer imei s' = Some c"
proof -
  note rf = registerSession_facts [OF r]
  have g: "grows s s'" by (rule registerSession_grows [OF r])
  have "adds s s'"
    using r
    by (auto simp: registerSession_def adds_def closeConn_def srv_Now_def with_io_def time_Now_def tick_def log_def Let_def
        split: option.splits if_splits)
  with g rf(8) have "evolves s s'" by (auto simp: evolves_def)
  moreover show p: "peer imei s' = Some c" by (simp add: peer_def rf(5,6) update_conv')
  have other: "peer i s' = peer i s" if "i \<noteq> imei" for i
  proof (cases "map_of (Sessions s) i")
    case (Some k)
    then have "k < length (Heap s)" using t by (auto simp: table_ok_def simp del: map_of_eq_Some_iff)
    with g that Some show ?thesis by (simp add: peer_def rf(6) update_conv' grows_def del: map_of_eq_Some_iff)
  qed (use that in \<open>simp add: peer_def rf(6) update_conv'\<close>)
  have "keeps_peer c' s s'" for c'
  proof -
    have "peer i s' = Some c'" if "peer i s = Some c'" "c' \<notin> Closed s'" for i
    proof (cases "i = imei")
      case True
      with that rf(8) have "c' = c" by (auto simp: peer_def split: option.splits if_splits)
      with p True show ?thesis by simp
    qed (use other that in simp)
    then show ?thesis by (simp add: keeps_peer_def)
  qed
  moreover have "SConn (Heap s' ! k) \<in> {c}" if "length (Heap s) \<le> k" "k < length (Heap s')" for k
    using that rf(1,3,5) by (auto simp: less_Suc_eq)
  moreover have "Closed s' \<subseteq> Closed s \<union> {c} \<union> SConn ` set (Heap s)"
    using t unfolding rf(8) by (auto simp: table_ok_def simp del: map_of_eq_Some_iff split: option.splits)
  ultimately show "grants {c} {} s s'" by (simp add: grants_def)
qed

lemma register_safe:
  assumes "imei \<noteq> ''''"
  shows "serving d r0 c (\<lambda>_. True) (atom (registerSession d imei c remote))
    (\<lambda>sid. mine c \<lparr>LImei = imei, LSess = Some sid\<rparr>)"
proof (rule conn.atom_rule)
  fix s sid s'
  assume s: "sinv d r0 s" and r: "registerSession d imei c remote s = (sid, s')"
  note rf = registerSession_facts [OF r]
  have t: "table_ok s" using s by (simp add: sinv_def inv_def)
  have "sinv d r0 s'"
    using s rf(7,9) task_ok_grows [OF registerSession_grows [OF r]] by (auto simp: sinv_def)
  moreover have "local_ok c \<lparr>LImei = imei, LSess = Some sid\<rparr> s'"
    using assms rf(1,3,4,5) by (simp add: local_ok_def)
  ultimately show "sinv d r0 s' \<and> grants {c} {} s s' \<and> mine c \<lparr>LImei = imei, LSess = Some sid\<rparr> s'"
    using register_grants [OF r t] by (simp add: mine_def)
qed (auto intro!: stable_intros)

lemma go_connect_safe:
  "serving d r0 c (mine c \<lparr>LImei = imei, LSess = Some sid\<rparr>) (go_p (MaybeConnectTB (Some sid) imei))
     (\<lambda>_. mine c \<lparr>LImei = imei, LSess = Some sid\<rparr>)"
  unfolding go_p_def
proof (rule conn.modify_rule)
  fix s
  let ?t = "MaybeConnectTB (Some sid) imei" and ?l = "\<lparr>LImei = imei, LSess = Some sid\<rparr>"
  assume s: "sinv d r0 s" and m: "mine c ?l s"
  then have "task_ok s ?t" by (simp add: mine_def local_ok_def)
  from spawn_step [OF s this, of "{c}" "{}"] have g: "sinv d r0 (spawn ?t s)" "grants {c} {} s (spawn ?t s)" by simp_all
  with m show "sinv d r0 (spawn ?t s) \<and> grants {c} {} s (spawn ?t s) \<and> mine c ?l (spawn ?t s)"
    using mine_relies [OF grants_relies [OF g(2)]] by simp
qed (rule stable_mine)+

lemma handleFrame_safe:
  "serving d r0 c (mine c l) (handleFrame_p d c remote f l) (\<lambda>r s. \<exists>l'. r = Some l' \<and> mine c l' s)"
proof (cases "Proto f = MsgLogin")
  case False
  show ?thesis
    by (rule conn.weaken_post [OF harmless_serving [OF no_login_safe [OF False]]]) auto
next
  case True
  have fin: "serving d r0 c (mine c l') (Ret (Some l')) (\<lambda>r s. \<exists>l'. r = Some l' \<and> mine c l' s)" for l'
    by (rule conn.ret_rule) (auto intro: stable_mine)
  have ack: "serving d r0 c (mine c l') (writeFrame_p d c b) (\<lambda>_. mine c l')" for l' b
    by (rule conn.weaken_post [OF harmless_serving [OF write_safe]]) simp
  obtain r where r: "ParseLogin (Body f) = Some r" by (simp add: ParseLogin_eq)
  show ?thesis
  proof (cases r)
    case (Inl err)
    then show ?thesis
      unfolding handleFrame_p_def Let_def if_P [OF True] handleLogin_p_def r must_simps
      by (auto intro: conn.bind_rule [OF ack fin])
  next
    case (Inr imei)
    then have n: "imei \<noteq> ''''" using ParseLogin_imei r by force
    have reg: "serving d r0 c (mine c l) (atom (registerSession d imei c remote)) (\<lambda>sid. mine c \<lparr>LImei = imei, LSess = Some sid\<rparr>)"
      by (rule conn.weaken_pre [OF register_safe [OF n]]) simp
    show ?thesis
      unfolding handleFrame_p_def Let_def if_P [OF True] handleLogin_p_def r must_simps Inr sum.case
      by (intro conn.bind_rule [OF reg] conn.bind_rule [OF ack] conn.bind_rule [OF go_connect_safe] fin)
  qed
qed

section \<open>The end of a connection\<close>

abbreviation ending :: "deps \<Rightarrow> registry \<Rightarrow> nat \<Rightarrow> (server \<Rightarrow> bool) \<Rightarrow> (server, 'a) prog \<Rightarrow> ('a \<Rightarrow> server \<Rightarrow> bool) \<Rightarrow> bool" where
  "ending d r0 c \<equiv> sentence (sinv d r0) (relies c) (grants {c} {c})"

lemma remove_safe:
  "ending d r0 c (local_ok c l) (modify (removeSession (LImei l) (LSess l))) (\<lambda>_. local_ok c l)"
proof (rule conn.modify_rule)
  fix s
  let ?s = "removeSession (LImei l) (LSess l) s"
  assume s: "sinv d r0 s" and l: "local_ok c l s"
  have g: "grows s ?s" by (simp add: grows_def)
  have "sinv d r0 ?s" using s task_ok_grows [OF g] by (auto simp: sinv_def removeSession_inv)
  moreover have "keeps_peer c' s ?s" if "c' \<noteq> c" for c'
    using that l by (auto simp: keeps_peer_def peer_def removeSession_def local_ok_def delete_conv' split: option.splits)
  ultimately show "sinv d r0 ?s \<and> grants {c} {c} s ?s \<and> local_ok c l ?s"
    using g l local_ok_grows [OF g l] by (auto simp: grants_def evolves_def adds_def)
qed (rule stable_local)+

lemma disconnect_safe:
  "anyone d r0 (\<lambda>s. Uplink (ConnectCall imei) \<in> set (Trace (IO s))) (atom (with_io (tb_DisconnectDevice (Env d) (TB d) imei)))
     (\<lambda>_ _. True)"
proof (rule free.atom_rule)
  fix s x s'
  assume s: "sinv d r0 s" "Uplink (ConnectCall imei) \<in> set (Trace (IO s))"
    and w: "with_io (tb_DisconnectDevice (Env d) (TB d) imei) s = (x, s')"
  obtain io where c: "tb_DisconnectDevice (Env d) (TB d) imei (IO s) = (x, io)" and s': "s' = s\<lparr>IO := io\<rparr>"
    using w by (auto simp: with_io_def split: prod.splits)
  have "inv d r0 s'" using call_inv [OF tb.disconnect_calls [OF c]] s s' by (simp add: sinv_def)
  moreover have "adds s s'" by (rule with_io_adds [OF w]) (rule calls_extends [OF tb.disconnect_calls])
  ultimately show "sinv d r0 s' \<and> grants {} {} s s' \<and> True"
    using quiet_step [OF s(1)] with_io_calm [OF w] by simp
qed (auto intro!: stable_intros)

lemma close_safe: "ending d r0 c (\<lambda>_. True) (modify (closeConn c)) (\<lambda>_ s. c \<in> Closed s)"
proof (rule conn.modify_rule)
  fix s
  assume s: "sinv d r0 s"
  have g: "grows s (closeConn c s)" by (simp add: grows_def closeConn_def)
  have "sinv d r0 (closeConn c s)"
    using s task_ok_grows [OF g] closeConn_inv by (auto simp: sinv_def closeConn_def)
  moreover have "peer i (closeConn c s) = peer i s" for i by (simp add: peer_def closeConn_def)
  ultimately show "sinv d r0 (closeConn c s) \<and> grants {c} {c} s (closeConn c s) \<and> c \<in> Closed (closeConn c s)"
    using g by (auto simp: grants_def evolves_def keeps_peer_def adds_def closeConn_def log_def)
qed (auto simp: stable_def relies_def evolves_def)

lemma anyone_ending: "anyone d r0 P p Q \<Longrightarrow> ending d r0 c P p Q"
  by (erule sentence_mono) (auto simp: relies_def intro: grants_mono)

lemma cleanup_safe: "ending d r0 c (local_ok c l) (cleanup_p d c l) (\<lambda>_ s. c \<in> Closed s)"
proof -
  have conn: "ending d r0 c (local_ok c l) (is_connected_p (LSess l))
      (\<lambda>b s. b \<longrightarrow> Uplink (ConnectCall (LImei l)) \<in> set (Trace (IO s)))"
    by (rule conn.weaken_post [OF conn.weaken_pre [OF anyone_ending [OF is_connected_safe [of d r0 "LSess l" "LImei l"]]]])
      (auto simp: names_def local_ok_def)
  have skip: "ending d r0 c P (Ret ()) (\<lambda>_ _. True)" for P
    by (simp add: sentence_def)
  have off: "ending d r0 c (\<lambda>s. b \<longrightarrow> Uplink (ConnectCall (LImei l)) \<in> set (Trace (IO s)))
      (if b then bindp (atom (with_io (tb_DisconnectDevice (Env d) (TB d) (LImei l)))) (\<lambda>_. Ret ()) else Ret ()) (\<lambda>_ _. True)"
    for b
  proof (cases b)
    case True
    then show ?thesis
      by simp (rule conn.bind_rule [OF anyone_ending [OF disconnect_safe]], rule skip)
  qed (simp add: skip)
  have "ending d r0 c (local_ok c l)
      (if LImei l \<noteq> '''' then
          bindp (modify (removeSession (LImei l) (LSess l))) (\<lambda>_.
          bindp (is_connected_p (LSess l)) (\<lambda>b.
            if b then bindp (atom (with_io (tb_DisconnectDevice (Env d) (TB d) (LImei l)))) (\<lambda>_. Ret ())
            else Ret ()))
        else Ret ()) (\<lambda>_ _. True)"
    by (intro conn.cond_rule conn.bind_rule [OF remove_safe] conn.bind_rule [OF conn off] skip)
  then show ?thesis
    unfolding cleanup_p_def by (rule conn.bind_rule) (rule close_safe)
qed

end
