(* ===== verification/DebugApi.thy ===== *)
theory DebugApi
  imports Gateway
begin

text \<open>
  The debug HTTP API: \<open>internal/server/debug_api.go\<close>. Parsing and routing of requests is
  \<open>net/http\<close>; a request is the pattern it is routed to, with the path value and the body. An
  answer is the status and the value that is written as JSON.
\<close>

section \<open>Handlers\<close>

type_synonym answer = "int \<times> any"

definition writeJSON :: "int \<Rightarrow> any \<Rightarrow> answer" where
  "writeJSON status v = (status, v)"

definition error_body :: "string \<Rightarrow> any" where
  "error_body e = AMap [(''error'', AString e)]"

definition ok_body :: "string \<Rightarrow> string \<Rightarrow> any" where
  "ok_body imei cmd = AMap [(''ok'', ABool True), (''imei'', AString imei), (''cmd'', AString cmd)]"

definition info_json :: "session_info \<Rightarrow> any" where
  "info_json x = AMap
     [(''imei'', AString (InfoIMEI x)), (''remote'', AString (InfoRemote x)), (''connected'', ATime (InfoConnected x)),
      (''last_seen'', ATime (InfoLastSeen x)), (''tb_connected'', ABool (InfoTBConnected x))]"

definition listDevices :: "server \<Rightarrow> answer" where
  "listDevices s = writeJSON 200 (AMap [(''devices'', AList (map info_json (ListSessions s)))])"

definition reboot :: "'s sender \<Rightarrow> string \<Rightarrow> 's \<Rightarrow> answer \<times> 's" where
  "reboot send imei s =
     (case ExecuteRPC send imei ''reboot'' None s of
        (Some err, s) \<Rightarrow> (writeJSON 404 (error_body (cmd_error_text err)), s)
      | (None, s) \<Rightarrow> (writeJSON 200 (ok_body imei ''reboot''), s))"

definition shutdown :: "'s sender \<Rightarrow> string \<Rightarrow> 's \<Rightarrow> answer \<times> 's" where
  "shutdown send imei s =
     (case ExecuteRPC send imei ''shutdown'' None s of
        (Some err, s) \<Rightarrow> (writeJSON 404 (error_body (cmd_error_text err)), s)
      | (None, s) \<Rightarrow> (writeJSON 200 (ok_body imei ''shutdown''), s))"

definition locate :: "'s sender \<Rightarrow> string \<Rightarrow> 's \<Rightarrow> answer \<times> 's" where
  "locate send imei s =
     (case ExecuteRPC send imei ''locate'' None s of
        (Some err, s) \<Rightarrow> (writeJSON 404 (error_body (cmd_error_text err)), s)
      | (None, s) \<Rightarrow> (writeJSON 200 (ok_body imei ''locate''), s))"

record interval_req =
  LocationSeconds :: "int option"
  StatusMinutes :: "int option"

definition store_interval :: "string \<Rightarrow> json \<Rightarrow> interval_req \<Rightarrow> interval_req option" where
  "store_interval k v r =
     (if field_is ''location_seconds'' k then map_option (\<lambda>n. r\<lparr>LocationSeconds := n\<rparr>) (decode_uint_ptr 16 v)
      else if field_is ''status_minutes'' k then map_option (\<lambda>n. r\<lparr>StatusMinutes := n\<rparr>) (decode_uint_ptr 8 v)
      else Some r)"

definition decode_interval :: "string \<Rightarrow> interval_req option" where
  "decode_interval body =
     json_Decode body \<bind> decode_struct store_interval \<lparr>LocationSeconds = None, StatusMinutes = None\<rparr>"

text \<open>\<open>json.Marshal\<close> of a map from strings to \<open>int\<close> with one entry.\<close>

definition int_params :: "string \<Rightarrow> int \<Rightarrow> json option" where
  "int_params name n = Some (JObj [(name, JNum (fmt_d n))])"

text \<open>One of the two halves of the handler: a command for the value, if there is one.\<close>

definition interval_part ::
    "'s sender \<Rightarrow> string \<Rightarrow> string \<Rightarrow> string \<Rightarrow> string \<Rightarrow> int option \<Rightarrow> 's \<Rightarrow> (cmd_error + (string \<times> any) list) \<times> 's" where
  "interval_part send imei method param field val s =
     (case val of
        None \<Rightarrow> (Inr [], s)
      | Some n \<Rightarrow>
          (case ExecuteRPC send imei method (int_params param n) s of
             (Some err, s) \<Rightarrow> (Inl err, s)
           | (None, s) \<Rightarrow> (Inr [(field, AInt n)], s)))"

text \<open>The text of the JSON library's error is left out.\<close>

definition interval :: "'s sender \<Rightarrow> string \<Rightarrow> string \<Rightarrow> 's \<Rightarrow> answer \<times> 's" where
  "interval send imei body s =
     (case decode_interval body of
        None \<Rightarrow> (writeJSON 400 (error_body ''invalid JSON: ''), s)
      | Some req \<Rightarrow>
          if LocationSeconds req = None \<and> StatusMinutes req = None
          then (writeJSON 400 (error_body ''provide location_seconds and/or status_minutes''), s)
          else
            (case interval_part send imei ''setLocationInterval'' ''seconds'' ''location_seconds'' (LocationSeconds req) s of
               (Inl err, s) \<Rightarrow> (writeJSON 404 (error_body (cmd_error_text err)), s)
             | (Inr sent1, s) \<Rightarrow>
                 (case interval_part send imei ''setStatusInterval'' ''minutes'' ''status_minutes'' (StatusMinutes req) s of
                    (Inl err, s) \<Rightarrow> (writeJSON 404 (error_body (cmd_error_text err)), s)
                  | (Inr sent2, s) \<Rightarrow>
                      (writeJSON 200 (AMap [(''ok'', ABool True), (''imei'', AString imei), (''sent'', AMap (sent1 @ sent2))]), s))))"

text \<open>\<open>DebugAPI.Handler\<close>: the routes.\<close>

datatype debug_request =
    GetDevices
  | PostReboot string
  | PostShutdown string
  | PostInterval string string
  | PostLocate string
  | GetHealth

fun debug_handler :: "deps \<Rightarrow> debug_request \<Rightarrow> server \<Rightarrow> answer \<times> server" where
  "debug_handler d GetDevices s = (listDevices s, s)"
| "debug_handler d (PostReboot imei) s = reboot (SendToDevice d) imei s"
| "debug_handler d (PostShutdown imei) s = shutdown (SendToDevice d) imei s"
| "debug_handler d (PostInterval imei body) s = interval (SendToDevice d) imei body s"
| "debug_handler d (PostLocate imei) s = locate (SendToDevice d) imei s"
| "debug_handler d GetHealth s =
     (let (t, s) = srv_Now d s in (writeJSON 200 (AMap [(''ok'', ABool True), (''ts'', ATime t)]), s))"

section \<open>What interval sends\<close>

context stable_lookup
begin

lemma part_sends:
  assumes "interval_part send imei method param field val s = (r, s')"
  shows "case r of Inl err \<Rightarrow> \<exists>rest. sends imei s s' [] rest
    | Inr sent \<Rightarrow> \<exists>pkts. sends imei s s' pkts [] \<and> length pkts = (if val = None then 0 else 1)"
proof (cases val)
  case None
  with assms show ?thesis by (auto simp: interval_part_def sends_refl)
next
  case (Some n)
  obtain err s1 where x: "ExecuteRPC send imei method (int_params param n) s = (err, s1)" by fastforce
  show ?thesis
  proof (cases err)
    case None
    with execute_sends [OF x] obtain pkt where "sends imei s s1 [pkt] []" by auto
    with assms Some x None show ?thesis by (auto simp: interval_part_def intro!: exI [of _ "[pkt]"])
  next
    case (Some e)
    with execute_sends [OF x] assms \<open>val = Some n\<close> x show ?thesis by (auto simp: interval_part_def)
  qed
qed

lemma interval_sends:
  assumes "interval send imei body s = ((code, resp), s')"
  shows "\<exists>pkts rest. sends imei s s' pkts rest \<and>
    (code = 200 \<and> pkts \<noteq> [] \<and> length pkts \<le> 2 \<and> rest = [] \<or> code = 400 \<and> s' = s \<and> pkts = [] \<and> rest = [] \<or>
     code = 404 \<and> length pkts \<le> 1)"
proof (cases "decode_interval body")
  case (Some req)
  show ?thesis
  proof (cases "LocationSeconds req = None \<and> StatusMinutes req = None")
    case False
    obtain r1 s1 where p1: "interval_part send imei ''setLocationInterval'' ''seconds'' ''location_seconds''
        (LocationSeconds req) s = (r1, s1)" by fastforce
    obtain r2 s2 where p2: "interval_part send imei ''setStatusInterval'' ''minutes'' ''status_minutes''
        (StatusMinutes req) s1 = (r2, s2)" by fastforce
    show ?thesis
    proof (cases r1)
      case (Inl err)
      with part_sends [OF p1] obtain rest where "sends imei s s1 [] rest" by auto
      with Inl assms Some False p1 show ?thesis
        by (intro exI [of _ "[]"] exI [of _ rest]) (auto simp: interval_def writeJSON_def)
    next
      case r1: (Inr sent1)
      with part_sends [OF p1] obtain k1 where k1: "sends imei s s1 k1 []"
        "length k1 = (if LocationSeconds req = None then 0 else 1)" by auto
      show ?thesis
      proof (cases r2)
        case (Inl err)
        with part_sends [OF p2] obtain rest where "sends imei s1 s2 [] rest" by auto
        from sends_trans [OF k1(1) this] assms Some False p1 p2 r1 k1(2) Inl show ?thesis
          by (intro exI [of _ k1] exI [of _ rest]) (auto simp: interval_def writeJSON_def)
      next
        case (Inr sent2)
        with part_sends [OF p2] obtain k2 where k2: "sends imei s1 s2 k2 []"
          "length k2 = (if StatusMinutes req = None then 0 else 1)" by auto
        with Inr sends_trans [OF k1(1) k2(1)] assms Some False p1 p2 r1 k1 show ?thesis
          by (intro exI [of _ "k1 @ k2"] exI [of _ "[]"]) (auto simp: interval_def writeJSON_def)
      qed
    qed
  qed (use assms Some in \<open>auto simp: interval_def writeJSON_def intro!: exI [of _ "[]"] sends_refl\<close>)
qed (use assms in \<open>auto simp: interval_def writeJSON_def intro!: exI [of _ "[]"] sends_refl\<close>)

end

section \<open>Properties\<close>

text \<open>The debug API sends commands only. Whatever the request holds, \<open>interval\<close> puts at most two
  packets on the wire, each a command within the limits of the firmware, and only to the
  connection of the IMEI. Status 200 means that at least one was sent, 400 that the request
  was rejected before anything happened, and 404 that at most the first was sent, and perhaps a
  part of the command at which it stopped.\<close>

theorem debug_interval_sends:
  "case interval (SendToDevice d) imei body s of ((code, resp), s') \<Rightarrow>
     \<exists>pkts rest. list_all is_command pkts \<and> cut_command rest \<and>
       (case peer imei s of None \<Rightarrow> pkts = [] \<and> rest = [] \<and> wire s' = wire s
        | Some c \<Rightarrow> wire s' = wire s @ map (Pair c) (pkts @ rest)) \<and>
       (code = 200 \<and> 1 \<le> length pkts \<and> length pkts \<le> 2 \<and> rest = [] \<or> code = 400 \<and> pkts = [] \<and> s' = s \<or>
        code = 404 \<and> length pkts \<le> 1)"
proof -
  obtain code resp s' where r: "interval (SendToDevice d) imei body s = ((code, resp), s')"
    by (metis prod.collapse)
  from downlink.interval_sends [OF r] obtain pkts rest where
    "downlink.sends imei s s' pkts rest"
    "code = 200 \<and> pkts \<noteq> [] \<and> length pkts \<le> 2 \<and> rest = [] \<or> code = 400 \<and> s' = s \<and> pkts = [] \<and> rest = [] \<or>
     code = 404 \<and> length pkts \<le> 1"
    by blast
  then show ?thesis
    unfolding r prod.case by (intro exI [of _ pkts] exI [of _ rest]) (auto simp: downlink.sends_def Suc_le_eq)
qed

text \<open>
  A request for both intervals is not checked as a whole: when the second value is out of range
  the first command has been sent already, and the answer mentions only the error, under the
  status \<open>404\<close> that also stands for a device that is off line.
\<close>

theorem debug_interval_partial:
  "let body = [CHR 0x7B] @ [CHR 0x22] @ ''location_seconds'' @ [CHR 0x22] @ '':300,'' @
         [CHR 0x22] @ ''status_minutes'' @ [CHR 0x22] @ '':90'' @ [CHR 0x7D] in
   case run demo_deps demo_run (start None) of None \<Rightarrow> False
   | Some w \<Rightarrow>
     (case interval (SendToDevice demo_deps) imei_a body (Srv w) of (answer, s') \<Rightarrow>
        answer = (404, error_body ''minutes out of range (1-60)'') \<and>
        wire s' = wire (Srv w) @ [(0, [0x78, 0x78, 0x03, 0x97, 0x01, 0x2C, 0x0D, 0x0A])])"
  by code_simp

end
