(* ===== verification/Requests.thy ===== *)
theory Requests
  imports Replies Server_Contracts DebugApi
begin

text \<open>
  What reaches the server from outside the trackers, as goroutines: the RPC callback of the MQTT
  client (\<open>internal/mqtt/client.go\<close>, with \<open>internal/command/handler.go\<close>) and the handlers of the
  debug API (\<open>internal/server/debug_api.go\<close>). Each definition is the goroutine of the function
  of the same name; what they emit and that they do no harm is proved under interference.
\<close>

section \<open>Goroutines\<close>

type_synonym sender_p = "string \<Rightarrow> byte list \<Rightarrow> (server, string option) prog"

definition ExecuteRPC_p :: "sender_p \<Rightarrow> string \<Rightarrow> string \<Rightarrow> json option \<Rightarrow> (server, cmd_error option) prog" where
  "ExecuteRPC_p send imei method params =
     (case rpc_packet method params of
        Inl err \<Rightarrow> Ret (Some err)
      | Inr pkt \<Rightarrow> bindp (send imei pkt) (\<lambda>e. Ret (map_option SendFailed e)))"

definition rpc_outcome :: "cmd_error option \<Rightarrow> any" where
  "rpc_outcome e = (case e of None \<Rightarrow> AMap [(''success'', ABool True)] | Some err \<Rightarrow> rpc_failure (cmd_error_text err))"

definition onRPC_p ::
    "(string \<Rightarrow> string \<Rightarrow> json option \<Rightarrow> (server, cmd_error option) prog) option \<Rightarrow>
     (string \<Rightarrow> any \<Rightarrow> (server, string option) prog) \<Rightarrow> string \<Rightarrow> (server, unit) prog" where
  "onRPC_p exec publish payload =
     (case decode_rpc payload of
        None \<Rightarrow> Ret ()
      | Some req \<Rightarrow>
          if RDevice req = '''' \<or> RMethod req = '''' then Ret ()
          else
            bindp
              (case exec of
                 None \<Rightarrow> Ret (rpc_failure ''no RPC handler configured'')
               | Some executeRPC \<Rightarrow>
                   if RMethod req = '''' then Ret (rpc_failure ''empty method'')
                   else bindp (executeRPC (RDevice req) (RMethod req) (RParams req)) (\<lambda>e. Ret (rpc_outcome e)))
              (\<lambda>respData.
                 bindp (publish ''v1/gateway/rpc''
                   (rpc_response_json \<lparr>RespDevice = RDevice req, RespID = RID req, RespData = respData\<rparr>)) (\<lambda>_. Ret ())))"

text \<open>The callback as \<open>main\<close> wires it; the mock client has none.\<close>

definition rpc_callback_p :: "deps \<Rightarrow> string \<Rightarrow> (server, unit) prog" where
  "rpc_callback_p d payload =
     (case TB d of
        MockClient \<Rightarrow> Ret ()
      | GatewayClient cfg \<Rightarrow>
          onRPC_p (Some (ExecuteRPC_p (SendToDevice_p d)))
            (\<lambda>topic v. atom (with_io (gw_publish (Env d) cfg topic v))) payload)"

text \<open>
  The table is read under the lock of the server, and then each session under its own lock.
  (In the code the first lock is held meanwhile, so the table cannot change; here it may, which
  only adds runs.)
\<close>

definition info_of :: "nat \<Rightarrow> server \<Rightarrow> session_info" where
  "info_of sid s = (let x = Heap s ! sid in
     \<lparr>InfoIMEI = IMEI x, InfoRemote = Remote x, InfoConnected = Connected x, InfoLastSeen = LastSeen x,
      InfoTBConnected = tbConnected x\<rparr>)"

primrec collect :: "('s, 'a) prog list \<Rightarrow> ('s, 'a list) prog" where
  "collect [] = Ret []"
| "collect (p # ps) = bindp p (\<lambda>a. bindp (collect ps) (\<lambda>as. Ret (a # as)))"

definition ListSessions_p :: "(server, session_info list) prog" where
  "ListSessions_p = bindp (peek Sessions) (\<lambda>t. collect (map (\<lambda>(imei, sid). peek (info_of sid)) t))"

text \<open>\<open>reboot\<close>, \<open>shutdown\<close> and \<open>locate\<close> differ in the name of the command only.\<close>

definition command_p :: "sender_p \<Rightarrow> string \<Rightarrow> string \<Rightarrow> (server, answer) prog" where
  "command_p send cmd imei =
     bindp (ExecuteRPC_p send imei cmd None) (\<lambda>e.
       case e of
         Some err \<Rightarrow> Ret (writeJSON 404 (error_body (cmd_error_text err)))
       | None \<Rightarrow> Ret (writeJSON 200 (ok_body imei cmd)))"

definition interval_part_p ::
    "sender_p \<Rightarrow> string \<Rightarrow> string \<Rightarrow> string \<Rightarrow> string \<Rightarrow> int option \<Rightarrow> (server, cmd_error + (string \<times> any) list) prog" where
  "interval_part_p send imei method param field val =
     (case val of
        None \<Rightarrow> Ret (Inr [])
      | Some n \<Rightarrow>
          bindp (ExecuteRPC_p send imei method (int_params param n)) (\<lambda>e.
            case e of Some err \<Rightarrow> Ret (Inl err) | None \<Rightarrow> Ret (Inr [(field, AInt n)])))"

definition interval_p :: "sender_p \<Rightarrow> string \<Rightarrow> string \<Rightarrow> (server, answer) prog" where
  "interval_p send imei body =
     (case decode_interval body of
        None \<Rightarrow> Ret (writeJSON 400 (error_body ''invalid JSON: ''))
      | Some req \<Rightarrow>
          if LocationSeconds req = None \<and> StatusMinutes req = None
          then Ret (writeJSON 400 (error_body ''provide location_seconds and/or status_minutes''))
          else
            bindp (interval_part_p send imei ''setLocationInterval'' ''seconds'' ''location_seconds'' (LocationSeconds req)) (\<lambda>r1.
              case r1 of
                Inl err \<Rightarrow> Ret (writeJSON 404 (error_body (cmd_error_text err)))
              | Inr sent1 \<Rightarrow>
                  bindp (interval_part_p send imei ''setStatusInterval'' ''minutes'' ''status_minutes'' (StatusMinutes req)) (\<lambda>r2.
                    case r2 of
                      Inl err \<Rightarrow> Ret (writeJSON 404 (error_body (cmd_error_text err)))
                    | Inr sent2 \<Rightarrow>
                        Ret (writeJSON 200 (AMap [(''ok'', ABool True), (''imei'', AString imei), (''sent'', AMap (sent1 @ sent2))])))))"

fun debug_handler_p :: "deps \<Rightarrow> debug_request \<Rightarrow> (server, answer) prog" where
  "debug_handler_p d GetDevices =
     bindp ListSessions_p (\<lambda>xs. Ret (writeJSON 200 (AMap [(''devices'', AList (map info_json xs))])))"
| "debug_handler_p d (PostReboot imei) = command_p (SendToDevice_p d) ''reboot'' imei"
| "debug_handler_p d (PostShutdown imei) = command_p (SendToDevice_p d) ''shutdown'' imei"
| "debug_handler_p d (PostInterval imei body) = interval_p (SendToDevice_p d) imei body"
| "debug_handler_p d (PostLocate imei) = command_p (SendToDevice_p d) ''locate'' imei"
| "debug_handler_p d GetHealth =
     bindp (atom (srv_Now d)) (\<lambda>t. Ret (writeJSON 200 (AMap [(''ok'', ABool True), (''ts'', ATime t)])))"

section \<open>Without interference\<close>

lemma ExecuteRPC_run:
  "(\<And>imei b s. runp (send_p imei b) s = send imei b s) \<Longrightarrow>
   runp (ExecuteRPC_p send_p imei method params) s = ExecuteRPC send imei method params s"
  by (simp add: ExecuteRPC_p_def ExecuteRPC_def split: sum.split prod.split option.split)

lemma onRPC_run:
  assumes "\<And>i m p s. runp (exec_p i m p) s = exec i m p s" "\<And>t v s. runp (publish_p t v) s = publish t v s"
  shows "runp (onRPC_p (Some exec_p) publish_p payload) s = ((), onRPC (Some exec) publish payload s)"
  by (simp add: onRPC_p_def onRPC_def rpc_outcome_def assms split: option.split prod.split)

lemma collect_peeks: "runp (collect (map (\<lambda>x. peek (f x)) xs)) s = (map (\<lambda>x. f x s) xs, s)"
  by (induction xs) simp_all

lemma ListSessions_run: "runp ListSessions_p s = (ListSessions s, s)"
  using collect_peeks [of "\<lambda>x. info_of (snd x)" "Sessions s" s]
  by (simp add: ListSessions_p_def ListSessions_def info_of_def case_prod_unfold)

lemma command_run:
  assumes "\<And>imei b s. runp (send_p imei b) s = send imei b s"
  shows "runp (command_p send_p ''reboot'' imei) s = reboot send imei s"
    "runp (command_p send_p ''shutdown'' imei) s = shutdown send imei s"
    "runp (command_p send_p ''locate'' imei) s = locate send imei s"
  using ExecuteRPC_run [where send_p = send_p, OF assms]
  by (simp_all add: command_p_def reboot_def shutdown_def locate_def split: prod.split option.split)

lemma interval_run:
  assumes "\<And>imei b s. runp (send_p imei b) s = send imei b s"
  shows "runp (interval_p send_p imei body) s = interval send imei body s"
  using ExecuteRPC_run [where send_p = send_p, OF assms]
  by (simp add: interval_p_def interval_def interval_part_p_def interval_part_def split: option.split prod.split)

lemma debug_handler_run: "runp (debug_handler_p d req) s = debug_handler d req s"
  by (cases req)
    (simp_all add: command_run interval_run SendToDevice_run ListSessions_run listDevices_def Let_def split: prod.split)

section \<open>Under interference\<close>

lemma publish_safe: "harmless d r0 (atom (with_io (gw_publish (Env d) cfg topic v))) (\<lambda>_. True)"
  by (rule io_safe) (auto simp: gw_publish_def paho_Publish_def intro!: extends_log_tick)

lemma ExecuteRPC_safe: "harmless d r0 (ExecuteRPC_p (SendToDevice_p d) imei method params) (\<lambda>_. True)"
  unfolding ExecuteRPC_p_def by (auto intro!: harmless_bind harmless_ret send_safe split: sum.split)

lemma rpc_callback_safe: "harmless d r0 (rpc_callback_p d payload) (\<lambda>_. True)"
  unfolding rpc_callback_p_def onRPC_p_def
  by (auto intro!: harmless_bind harmless_ret ExecuteRPC_safe publish_safe split: mqtt_client.split option.split)

lemma debug_handler_safe: "harmless d r0 (debug_handler_p d req) (\<lambda>_. True)"
proof -
  have c: "harmless d r0 (collect (map (\<lambda>x. peek (f x)) xs)) (\<lambda>_. True)" for f :: "'b \<Rightarrow> server \<Rightarrow> 'c" and xs
    by (induction xs) (auto intro!: harmless_bind harmless_ret peek_safe)
  have "harmless d r0 ListSessions_p (\<lambda>_. True)"
    unfolding ListSessions_p_def case_prod_unfold by (intro harmless_bind peek_safe c)
  then show ?thesis
    by (cases req)
      (auto simp: command_p_def interval_p_def interval_part_p_def split: option.split sum.split
        intro!: harmless_bind harmless_ret ExecuteRPC_safe now_safe)
qed

section \<open>What they emit\<close>

text \<open>
  \<open>cut_write pkt es\<close>: a write that failed left nothing, or a proper prefix of the packet.
  \<open>sent_by pkt err es\<close>: the packet was written when there is no error, and is cut otherwise.
\<close>

definition cut_write :: "byte list \<Rightarrow> event list \<Rightarrow> bool" where
  "cut_write pkt es \<longleftrightarrow> es = [] \<or> (\<exists>c w. es = [Wrote c w] \<and> torn pkt w)"

definition sent_by :: "byte list \<Rightarrow> 'e option \<Rightarrow> event list \<Rightarrow> bool" where
  "sent_by pkt err es \<longleftrightarrow> (case err of None \<Rightarrow> \<exists>c. es = [Wrote c pkt] | Some e \<Rightarrow> cut_write pkt es)"

lemma Send_emits:
  assumes "(err, es) \<in> emits I news (SendToDevice_p d imei pkt)" "pkt \<noteq> []"
  shows "sent_by pkt err es"
proof -
  obtain c es1 es2 where e: "(c, es1) \<in> emits I news (peek (\<lambda>s. map_option (\<lambda>sid. SConn (Heap s ! sid)) (map_of (Sessions s) imei)))"
    "(err, es2) \<in> emits I news (case c of None \<Rightarrow> Ret (Some (''device '' @ imei @ '' is offline''))
       | Some sc \<Rightarrow> atom (WriteWithDeadline d sc pkt))" "es = es1 @ es2"
    using assms(1) unfolding SendToDevice_p_def by (rule emits_bindp)
  have "es1 = []" using e(1) unfolding peek_def by (rule emits_atom) (simp add: news_def)
  moreover have "sent_by pkt err es2"
  proof (cases c)
    case (Some sc)
    with e(2) have "(err, es2) \<in> emits I news (atom (WriteWithDeadline d sc pkt))" by simp
    then obtain s s' where "WriteWithDeadline d sc pkt s = (err, s')" "es2 = news s s'" by (rule emits_atom)
    then show ?thesis
      using sent_part_torn [OF assms(2)]
      by (auto simp: WriteWithDeadline_def sent_by_def cut_write_def news_def log_def tick_def split: if_splits option.splits)
  qed (use e(2) in \<open>simp add: sent_by_def cut_write_def\<close>)
  ultimately show ?thesis using e(3) by simp
qed

lemma ExecuteRPC_emits:
  assumes "(err, es) \<in> emits I news (ExecuteRPC_p (SendToDevice_p d) imei method params)"
  shows "case rpc_packet method params of Inl e \<Rightarrow> err = Some e \<and> es = [] | Inr pkt \<Rightarrow> sent_by pkt err es"
proof (cases "rpc_packet method params")
  case (Inr pkt)
  with assms have "(err, es) \<in> emits I news (bindp (SendToDevice_p d imei pkt) (\<lambda>e. Ret (map_option SendFailed e)))"
    by (simp add: ExecuteRPC_p_def)
  then obtain e es1 es2 where "(e, es1) \<in> emits I news (SendToDevice_p d imei pkt)"
    "(err, es2) \<in> emits I news (Ret (map_option SendFailed e))" "es = es1 @ es2" by (rule emits_bindp)
  with Send_emits [OF this(1)] is_command_nonempty [OF rpc_packet_command [OF Inr]] Inr show ?thesis
    by (auto simp: sent_by_def split: option.splits)
qed (use assms in \<open>simp add: ExecuteRPC_p_def\<close>)

lemma publish_emits:
  "(e, es) \<in> emits I news (atom (with_io (gw_publish env cfg topic v))) \<Longrightarrow>
   es = [Published \<lparr>Topic = topic, PubQoS = QoS cfg, Retained = False, Payload = v\<rparr>]"
  by (erule emits_atom) (auto simp: with_io_def gw_publish_def paho_Publish_def news_def log_def tick_def)

lemma rpc_emits:
  assumes "TB d = GatewayClient cfg" "decode_rpc payload = Some req" "RDevice req \<noteq> ''''" "RMethod req \<noteq> ''''"
    and "(u, es) \<in> emits I news (rpc_callback_p d payload)"
  shows "\<exists>err sent. es = sent @ [Published \<lparr>Topic = ''v1/gateway/rpc'', PubQoS = QoS cfg, Retained = False,
      Payload = AMap [(''device'', AString (RDevice req)), (''id'', AInt (RID req)), (''data'', rpc_outcome err)]\<rparr>] \<and>
    (case rpc_packet (RMethod req) (RParams req) of Inl e \<Rightarrow> err = Some e \<and> sent = [] | Inr pkt \<Rightarrow> sent_by pkt err sent)"
proof -
  let ?v = "\<lambda>data. rpc_response_json \<lparr>RespDevice = RDevice req, RespID = RID req, RespData = data\<rparr>"
  let ?pub = "\<lambda>data. atom (with_io (gw_publish (Env d) cfg ''v1/gateway/rpc'' (?v data)))"
  let ?exec = "ExecuteRPC_p (SendToDevice_p d) (RDevice req) (RMethod req) (RParams req)"
  have "(u, es) \<in> emits I news (bindp (bindp ?exec (\<lambda>e. Ret (rpc_outcome e))) (\<lambda>data. bindp (?pub data) (\<lambda>_. Ret ())))"
    using assms by (simp add: rpc_callback_p_def onRPC_p_def)
  then obtain data es1 es2 where 1: "(data, es1) \<in> emits I news (bindp ?exec (\<lambda>e. Ret (rpc_outcome e)))"
    "(u, es2) \<in> emits I news (bindp (?pub data) (\<lambda>_. Ret ()))" "es = es1 @ es2" by (rule emits_bindp)
  from 1(1) obtain err sent es3 where 2: "(err, sent) \<in> emits I news ?exec"
    "(data, es3) \<in> emits I news (Ret (rpc_outcome err))" "es1 = sent @ es3" by (rule emits_bindp)
  from 1(2) obtain e es4 es5 where 3: "(e, es4) \<in> emits I news (?pub data)"
    "(u, es5) \<in> emits I news (Ret ())" "es2 = es4 @ es5" by (rule emits_bindp)
  from ExecuteRPC_emits [OF 2(1)] publish_emits [OF 3(1)] 1(3) 2(2,3) 3(2,3) show ?thesis
    by (intro exI [of _ err] exI [of _ sent]) (simp add: rpc_response_json_def)
qed

lemma rpc_silent:
  assumes "(u, es) \<in> emits I news (rpc_callback_p d payload)"
    and "TB d = MockClient \<or> decode_rpc payload = None \<or>
      (\<exists>req. decode_rpc payload = Some req \<and> (RDevice req = [] \<or> RMethod req = []))"
  shows "es = []"
  using assms by (auto simp: rpc_callback_p_def onRPC_p_def split: mqtt_client.splits)

text \<open>The parameters that the debug API hands to the command handler are read back as the number.\<close>

lemma int_params_decode:
  assumes "in_int64 n"
  shows "decode_seconds (int_params ''seconds'' n) = Some n" "decode_minutes (int_params ''minutes'' n) = Some n"
  using ParseInt_fmt_d [OF assms]
  by (simp_all add: decode_seconds_def decode_minutes_def int_params_def decode_struct_def decode_int_def field_is_def)

definition in_fields :: "interval_req \<Rightarrow> bool" where
  "in_fields req \<longleftrightarrow> (\<forall>n. LocationSeconds req = Some n \<longrightarrow> in_int64 n) \<and> (\<forall>n. StatusMinutes req = Some n \<longrightarrow> in_int64 n)"

lemma store_interval_fields: "store_interval k v r = Some r' \<Longrightarrow> in_fields r \<Longrightarrow> in_fields r'"
  by (auto simp: store_interval_def in_fields_def decode_uint_ptr_def in_int64_def dest!: ParseUint_bound
      split: if_splits json.splits)

lemma store_members_fields: "store_members store_interval ms r = Some r' \<Longrightarrow> in_fields r \<Longrightarrow> in_fields r'"
proof (induction ms arbitrary: r)
  case (Cons m ms)
  then show ?case by (cases m) (auto simp: bind_eq_Some_conv dest: store_interval_fields)
qed simp

lemma decode_interval_fields: "decode_interval body = Some req \<Longrightarrow> in_fields req"
proof -
  have z: "in_fields \<lparr>LocationSeconds = None, StatusMinutes = None\<rparr>" by (simp add: in_fields_def)
  assume "decode_interval body = Some req"
  then obtain v where "decode_struct store_interval \<lparr>LocationSeconds = None, StatusMinutes = None\<rparr> v = Some req"
    by (auto simp: decode_interval_def bind_eq_Some_conv)
  with z show ?thesis by (cases v) (auto simp: decode_struct_def dest: store_members_fields)
qed

text \<open>The packets that a request asks for, and what each half of the handler emits.\<close>

definition interval_packets :: "interval_req \<Rightarrow> byte list list" where
  "interval_packets req =
     (case LocationSeconds req of None \<Rightarrow> [] | Some n \<Rightarrow> [BuildUploadInterval (of_int n)]) @
     (case StatusMinutes req of None \<Rightarrow> [] | Some n \<Rightarrow> [BuildStatusInterval n])"

definition part_sent :: "byte list list \<Rightarrow> cmd_error + (string \<times> any) list \<Rightarrow> event list \<Rightarrow> bool" where
  "part_sent pkts r es \<longleftrightarrow>
     (case r of
        Inl err \<Rightarrow> \<exists>pkt. pkts = [pkt] \<and> cut_write pkt es
      | Inr sent \<Rightarrow> list_all is_command pkts \<and> (\<exists>cs. length cs = length pkts \<and> es = map2 Wrote cs pkts))"

lemma interval_part_emits:
  assumes e: "(r, es) \<in> emits I news (interval_part_p (SendToDevice_p d) imei method param field val)"
    and pkt: "\<And>n p. val = Some n \<Longrightarrow> rpc_packet method (int_params param n) = Inr p \<Longrightarrow> p = pkt n"
  shows "part_sent (case val of None \<Rightarrow> [] | Some n \<Rightarrow> [pkt n]) r es"
proof (cases val)
  case None
  with e show ?thesis by (simp add: interval_part_p_def part_sent_def)
next
  case (Some n)
  let ?exec = "ExecuteRPC_p (SendToDevice_p d) imei method (int_params param n)"
  have "(r, es) \<in> emits I news (bindp ?exec (\<lambda>e. case e of Some err \<Rightarrow> Ret (Inl err) | None \<Rightarrow> Ret (Inr [(field, AInt n)])))"
    using e Some by (simp add: interval_part_p_def)
  then obtain err es1 es2 where x: "(err, es1) \<in> emits I news ?exec"
    "(r, es2) \<in> emits I news (case err of Some err \<Rightarrow> Ret (Inl err) | None \<Rightarrow> Ret (Inr [(field, AInt n)]))" "es = es1 @ es2"
    by (rule emits_bindp)
  show ?thesis
  proof (cases "rpc_packet method (int_params param n)")
    case (Inl a)
    with ExecuteRPC_emits [OF x(1)] x Some show ?thesis by (simp add: part_sent_def cut_write_def)
  next
    case (Inr p)
    then have p: "p = pkt n" "is_command p" using pkt Some rpc_packet_command by auto
    have s: "sent_by p err es1" using ExecuteRPC_emits [OF x(1)] Inr by simp
    show ?thesis
    proof (cases err)
      case None
      with s obtain c where "es1 = [Wrote c p]" by (auto simp: sent_by_def)
      with None x Some p show ?thesis by (auto simp: part_sent_def intro!: exI [of _ "[c]"])
    qed (use s x Some p in \<open>auto simp: sent_by_def part_sent_def\<close>)
  qed
qed

lemma interval_part_packets:
  assumes "in_fields req"
  shows "(r, es) \<in> emits I news (interval_part_p (SendToDevice_p d) imei ''setLocationInterval'' ''seconds'' field (LocationSeconds req)) \<Longrightarrow>
      part_sent (case LocationSeconds req of None \<Rightarrow> [] | Some n \<Rightarrow> [BuildUploadInterval (of_int n)]) r es"
    and "(r, es) \<in> emits I news (interval_part_p (SendToDevice_p d) imei ''setStatusInterval'' ''minutes'' field (StatusMinutes req)) \<Longrightarrow>
      part_sent (case StatusMinutes req of None \<Rightarrow> [] | Some n \<Rightarrow> [BuildStatusInterval n]) r es"
proof -
  have n: "in_int64 n" if "LocationSeconds req = Some n \<or> StatusMinutes req = Some n" for n
    using assms that by (auto simp: in_fields_def)
  show "(r, es) \<in> emits I news (interval_part_p (SendToDevice_p d) imei ''setLocationInterval'' ''seconds'' field (LocationSeconds req)) \<Longrightarrow>
      part_sent (case LocationSeconds req of None \<Rightarrow> [] | Some n \<Rightarrow> [BuildUploadInterval (of_int n)]) r es"
    by (erule interval_part_emits) (auto simp: rpc_packet_def int_params_decode n split: if_splits)
  show "(r, es) \<in> emits I news (interval_part_p (SendToDevice_p d) imei ''setStatusInterval'' ''minutes'' field (StatusMinutes req)) \<Longrightarrow>
      part_sent (case StatusMinutes req of None \<Rightarrow> [] | Some n \<Rightarrow> [BuildStatusInterval n]) r es"
    by (erule interval_part_emits) (auto simp: rpc_packet_def int_params_decode n split: if_splits)
qed

text \<open>The status of the answer tells how far the commands got.\<close>

definition interval_told :: "byte list list \<Rightarrow> int \<Rightarrow> event list \<Rightarrow> bool" where
  "interval_told pkts code es \<longleftrightarrow>
     (\<exists>n cs rest. n \<le> length pkts \<and> length cs = n \<and> es = map2 Wrote cs (take n pkts) @ rest \<and>
        list_all is_command (take n pkts) \<and>
        (code = 200 \<and> n = length pkts \<and> rest = [] \<or> code = 404 \<and> n < length pkts \<and> cut_write (pkts ! n) rest))"

lemma interval_told_fail:
  assumes "part_sent ps (Inr x) es1" "part_sent qs (Inl e) es2"
  shows "interval_told (ps @ qs) 404 (es1 @ es2)"
proof -
  from assms obtain cs q where "length cs = length ps" "es1 = map2 Wrote cs ps" "list_all is_command ps"
    "qs = [q]" "cut_write q es2" by (auto simp: part_sent_def)
  then show ?thesis
    unfolding interval_told_def by (intro exI [of _ "length ps"] exI [of _ cs] exI [of _ es2]) simp
qed

lemma interval_told_first: "part_sent ps (Inl e) es \<Longrightarrow> interval_told (ps @ qs) 404 es"
  unfolding interval_told_def part_sent_def
  by (intro exI [of _ 0] exI [of _ "[]"] exI [of _ es]) auto

lemma interval_told_done:
  "part_sent ps (Inr x) es1 \<Longrightarrow> part_sent qs (Inr y) es2 \<Longrightarrow> interval_told (ps @ qs) 200 (es1 @ es2)"
proof -
  assume "part_sent ps (Inr x) es1" "part_sent qs (Inr y) es2"
  then obtain cs1 cs2 where "length cs1 = length ps" "es1 = map2 Wrote cs1 ps" "length cs2 = length qs" "es2 = map2 Wrote cs2 qs"
    "list_all is_command (ps @ qs)" by (auto simp: part_sent_def)
  then show ?thesis
    unfolding interval_told_def
    by (intro exI [of _ "length (ps @ qs)"] exI [of _ "cs1 @ cs2"] exI [of _ "[]"]) simp
qed

lemma interval_emits:
  assumes "decode_interval body = Some req" "LocationSeconds req \<noteq> None \<or> StatusMinutes req \<noteq> None"
    and e: "(a, es) \<in> emits I news (interval_p (SendToDevice_p d) imei body)"
  shows "interval_told (interval_packets req) (fst a) es"
proof -
  let ?ps = "case LocationSeconds req of None \<Rightarrow> [] | Some n \<Rightarrow> [BuildUploadInterval (of_int n)]"
  let ?qs = "case StatusMinutes req of None \<Rightarrow> [] | Some n \<Rightarrow> [BuildStatusInterval n]"
  let ?p1 = "interval_part_p (SendToDevice_p d) imei ''setLocationInterval'' ''seconds'' ''location_seconds'' (LocationSeconds req)"
  let ?p2 = "interval_part_p (SendToDevice_p d) imei ''setStatusInterval'' ''minutes'' ''status_minutes'' (StatusMinutes req)"
  let ?k2 = "\<lambda>sent1 r2. case r2 of
       Inl err \<Rightarrow> Ret (writeJSON 404 (error_body (cmd_error_text err)))
     | Inr sent2 \<Rightarrow> Ret (writeJSON 200 (AMap [(''ok'', ABool True), (''imei'', AString imei), (''sent'', AMap (sent1 @ sent2))]))"
  let ?k1 = "\<lambda>r1. case r1 of
       Inl err \<Rightarrow> Ret (writeJSON 404 (error_body (cmd_error_text err)))
     | Inr sent1 \<Rightarrow> bindp ?p2 (?k2 sent1)"
  have c: "\<not> (LocationSeconds req = None \<and> StatusMinutes req = None)" using assms(2) by blast
  have "(a, es) \<in> emits I news (bindp ?p1 ?k1)"
    using e unfolding interval_p_def assms(1) option.case if_not_P [OF c] .
  then obtain r1 es1 es' where 1: "(r1, es1) \<in> emits I news ?p1" "(a, es') \<in> emits I news (?k1 r1)" "es = es1 @ es'"
    by (rule emits_bindp)
  note f = decode_interval_fields [OF assms(1)]
  note s1 = interval_part_packets(1) [OF f 1(1)]
  show ?thesis
  proof (cases r1)
    case (Inl err)
    with 1 have "es = es1" "fst a = 404" by (auto simp: writeJSON_def)
    with interval_told_first [OF s1 [unfolded Inl]] show ?thesis by (simp add: interval_packets_def)
  next
    case r1: (Inr sent1)
    with 1(2) obtain r2 es2 es3 where 2: "(r2, es2) \<in> emits I news ?p2" "(a, es3) \<in> emits I news (?k2 sent1 r2)" "es' = es2 @ es3"
      by simp (rule emits_bindp)
    note s2 = interval_part_packets(2) [OF f 2(1)]
    show ?thesis
    proof (cases r2)
      case (Inl err)
      with 2 have "es' = es2" "fst a = 404" by (auto simp: writeJSON_def)
      with interval_told_fail [OF s1 [unfolded r1] s2 [unfolded Inl]] 1(3) show ?thesis by (simp add: interval_packets_def)
    next
      case (Inr sent2)
      with 2 have "es' = es2" "fst a = 200" by (auto simp: writeJSON_def)
      with interval_told_done [OF s1 [unfolded r1] s2 [unfolded Inr]] 1(3) show ?thesis by (simp add: interval_packets_def)
    qed
  qed
qed

section \<open>Properties\<close>

text \<open>C31. An RPC is answered once and truthfully, under interference. Whatever trackers, logins and other
  commands do between its steps, the callback for a request that names a device and a method
  puts at most one packet on a connection, that of the method; then publishes exactly one
  response, under the device and the id of the request, which says success when the packet was
  written, and gives the error when nothing of it was, or only a proper prefix (the write
  stopped in the middle). Any other payload has no effect at all.\<close>

theorem rpc_answered_truthfully:
  "emits (\<lambda>_. True) news (rpc_callback_p d payload) \<subseteq>
     {(u, es). case (TB d, decode_rpc payload) of
        (GatewayClient cfg, Some req) \<Rightarrow>
          if RDevice req = '''' \<or> RMethod req = '''' then es = []
          else \<exists>err sent. es = sent @ [Published \<lparr>Topic = ''v1/gateway/rpc'', PubQoS = QoS cfg, Retained = False,
                 Payload = AMap [(''device'', AString (RDevice req)), (''id'', AInt (RID req)), (''data'', rpc_outcome err)]\<rparr>] \<and>
               (case rpc_packet (RMethod req) (RParams req) of
                  Inl e \<Rightarrow> err = Some e \<and> sent = []
                | Inr pkt \<Rightarrow> sent_by pkt err sent)
      | _ \<Rightarrow> es = []}"
proof (rule subrelI, goal_cases)
  case (1 u es)
  note e = rpc_emits [OF _ _ _ _ 1] and none = rpc_silent [OF 1]
  show ?case
  proof (cases "TB d")
    case (GatewayClient cfg)
    with e none show ?thesis by (cases "decode_rpc payload") auto
  qed (use none in simp)
qed

text \<open>C29. The debug API tells what it did, under interference. Whatever else happens between its two
  commands, \<open>interval\<close> answers 400 and sends nothing when the body is not a request or asks for
  nothing; otherwise it sends the commands for the requested values, in order, each within the
  limits of the firmware, and answers 200 when it sent them all and 404 when it stopped before
  the end, at a command of which nothing or a proper prefix was sent.\<close>

theorem debug_interval_tells:
  "emits (\<lambda>_. True) news (interval_p (SendToDevice_p d) imei body) \<subseteq>
     {(a, es). case decode_interval body of
        None \<Rightarrow> fst a = 400 \<and> es = []
      | Some req \<Rightarrow>
          if LocationSeconds req = None \<and> StatusMinutes req = None then fst a = 400 \<and> es = []
          else interval_told (interval_packets req) (fst a) es}"
proof (rule subrelI, goal_cases)
  case (1 a es)
  show ?case
  proof (cases "decode_interval body")
    case None
    with 1 show ?thesis by (simp add: interval_p_def writeJSON_def)
  next
    case (Some req)
    show ?thesis
    proof (cases "LocationSeconds req = None \<and> StatusMinutes req = None")
      case True
      with 1 Some show ?thesis by (simp add: interval_p_def writeJSON_def)
    next
      case False
      with interval_emits [OF Some _ 1] Some show ?thesis by auto
    qed
  qed
qed

end
