(* ===== verification/Interleaved.thy ===== *)
theory Interleaved
  imports Requests
begin

text \<open>
  The running gateway at the granularity of its locks. The transition system of the theory
  \<open>Gateway\<close> runs a handler, a background goroutine or a command as one step; here each of them
  is a goroutine that takes one atomic step at a time, in any order with all the others. The
  theory has the transition system, its invariant, and the properties that hold at every
  moment; that the runs of the coarser system are among the runs of this one is in the theory
  \<open>Refinement\<close>.
\<close>

section \<open>States and moves\<close>

text \<open>
  The goroutine of a connection is blocked in \<open>Read\<close> or between two frames (\<open>Reading\<close>, with its
  variables), in the handler of a frame (\<open>Handling\<close>, with the variables at its start and what is
  left to do), or in its deferred calls (\<open>Ending\<close>).
\<close>

datatype phase = Reading conn_local | Handling conn_local handler | Ending "(server, unit) prog"

record routine =
  Phase :: phase
  RBuf :: "byte list"
  RRemote :: string

text \<open>
  \<open>Threads\<close> are the goroutines without a connection: those a handler has started, commands, RPC
  callbacks and handlers of the debug API.
  \<open>Accepted\<close> is the connection that \<open>Accept\<close> has returned and that the loop of \<open>ListenAndServe\<close>
  has not yet counted and handed to a goroutine.
\<close>

record gworld =
  GSrv :: server
  Routines :: "nat \<Rightarrow> routine option"
  Threads :: "(server, unit) prog list"
  Accepted :: "string option"
  GNext :: nat
  GClosing :: bool
  GListening :: bool

datatype turn =
    MAccept string
  | MServe
  | MReceive nat "byte list"
  | MFrame nat
  | MStep nat
  | MHangUp nat
  | MGo nat
  | MThread nat
  | MCommand string "byte list"
  | MRPC string
  | MDebug debug_request
  | MShutdown
  | MCloseListener

definition m_accept :: "string \<Rightarrow> gworld \<Rightarrow> gworld option" where
  "m_accept remote w = (if GListening w \<and> Accepted w = None then Some (w\<lparr>Accepted := Some remote\<rparr>) else None)"

text \<open>\<open>s.wg.Add(1); go s.handleConn(NewSafeConn(conn))\<close>\<close>

definition m_serve :: "gworld \<Rightarrow> gworld option" where
  "m_serve w =
     (case Accepted w of
        None \<Rightarrow> None
      | Some remote \<Rightarrow>
          Some (w\<lparr>Routines := (Routines w)(GNext w \<mapsto> \<lparr>Phase = Reading fresh_local, RBuf = [], RRemote = remote\<rparr>),
                  Accepted := None, GNext := Suc (GNext w)\<rparr>))"

definition m_receive :: "nat \<Rightarrow> byte list \<Rightarrow> gworld \<Rightarrow> gworld option" where
  "m_receive c chunk w =
     (case Routines w c of
        None \<Rightarrow> None
      | Some r \<Rightarrow>
          (case Phase r of
             Reading l \<Rightarrow>
               if idle (RBuf r) \<and> c \<notin> Closed (GSrv w)
               then Some (w\<lparr>Routines := (Routines w)(c \<mapsto> r\<lparr>RBuf := RBuf r @ chunk\<rparr>)\<rparr>) else None
           | _ \<Rightarrow> None))"

text \<open>The next round of \<open>drainFrames\<close>: a resynchronisation, or a frame and its handler.\<close>

definition m_frame :: "deps \<Rightarrow> nat \<Rightarrow> gworld \<Rightarrow> gworld option" where
  "m_frame d c w =
     (case Routines w c of
        None \<Rightarrow> None
      | Some r \<Rightarrow>
          (case Phase r of
             Reading l \<Rightarrow>
               (case ExtractFrame (RBuf r) of
                  None \<Rightarrow> None
                | Some (Inl (e, n)) \<Rightarrow>
                    if e = ErrIncomplete then None
                    else Some (w\<lparr>Routines := (Routines w)(c \<mapsto> r\<lparr>RBuf := resync n (RBuf r)\<rparr>)\<rparr>)
                | Some (Inr (f, n)) \<Rightarrow>
                    Some (w\<lparr>Routines := (Routines w)(c \<mapsto>
                      r\<lparr>Phase := Handling l (handleFrame_p d c (RRemote r) f l), RBuf := drop n (RBuf r)\<rparr>)\<rparr>))
           | _ \<Rightarrow> None))"

text \<open>One step of a handler or of the deferred calls, or their return. A panic ends the program.\<close>

definition m_step :: "nat \<Rightarrow> gworld \<Rightarrow> gworld option" where
  "m_step c w =
     (case Routines w c of
        None \<Rightarrow> None
      | Some r \<Rightarrow>
          (case Phase r of
             Reading l \<Rightarrow> None
           | Handling l p \<Rightarrow>
               (case p of
                  Ret None \<Rightarrow> None
                | Ret (Some l') \<Rightarrow> Some (w\<lparr>Routines := (Routines w)(c \<mapsto> r\<lparr>Phase := Reading l'\<rparr>)\<rparr>)
                | Act f g \<Rightarrow>
                    Some (w\<lparr>GSrv := f (GSrv w), Routines := (Routines w)(c \<mapsto> r\<lparr>Phase := Handling l (g (GSrv w))\<rparr>)\<rparr>))
           | Ending p \<Rightarrow>
               (case p of
                  Ret _ \<Rightarrow> Some (w\<lparr>Routines := (Routines w)(c := None)\<rparr>)
                | Act f g \<Rightarrow>
                    Some (w\<lparr>GSrv := f (GSrv w), Routines := (Routines w)(c \<mapsto> r\<lparr>Phase := Ending (g (GSrv w))\<rparr>)\<rparr>))))"

definition m_hang_up :: "deps \<Rightarrow> nat \<Rightarrow> gworld \<Rightarrow> gworld option" where
  "m_hang_up d c w =
     (case Routines w c of
        None \<Rightarrow> None
      | Some r \<Rightarrow>
          (case Phase r of
             Reading l \<Rightarrow>
               if idle (RBuf r) then Some (w\<lparr>Routines := (Routines w)(c \<mapsto> r\<lparr>Phase := Ending (cleanup_p d c l)\<rparr>)\<rparr>)
               else None
           | _ \<Rightarrow> None))"

definition m_go :: "deps \<Rightarrow> nat \<Rightarrow> gworld \<Rightarrow> gworld option" where
  "m_go d k w =
     (let ts = Tasks (GSrv w) in
      if k < length ts then
        Some (w\<lparr>GSrv := (GSrv w)\<lparr>Tasks := take k ts @ drop (Suc k) ts\<rparr>, Threads := Threads w @ [run_task_p d (ts ! k)]\<rparr>)
      else None)"

definition m_thread :: "nat \<Rightarrow> gworld \<Rightarrow> gworld option" where
  "m_thread k w =
     (if k < length (Threads w) then
        (case stepp (Threads w ! k) (GSrv w) of (p, s) \<Rightarrow> Some (w\<lparr>GSrv := s, Threads := (Threads w)[k := p]\<rparr>))
      else None)"

definition m_command :: "deps \<Rightarrow> string \<Rightarrow> byte list \<Rightarrow> gworld \<Rightarrow> gworld" where
  "m_command d imei payload w =
     w\<lparr>Threads := Threads w @ [bindp (SendToDevice_p d imei payload) (\<lambda>_. Ret ())]\<rparr>"

text \<open>A message on the RPC topic, and a request to the debug API, each served by a goroutine of its own.\<close>

definition m_rpc :: "deps \<Rightarrow> string \<Rightarrow> gworld \<Rightarrow> gworld" where
  "m_rpc d payload w = w\<lparr>Threads := Threads w @ [rpc_callback_p d payload]\<rparr>"

definition m_debug :: "deps \<Rightarrow> debug_request \<Rightarrow> gworld \<Rightarrow> gworld" where
  "m_debug d req w = w\<lparr>Threads := Threads w @ [bindp (debug_handler_p d req) (\<lambda>_. Ret ())]\<rparr>"

text \<open>\<open>Shutdown\<close>: the flag, the listener, and the wait for the connections.\<close>

definition m_shutdown :: "gworld \<Rightarrow> gworld" where
  "m_shutdown w = w\<lparr>GClosing := True\<rparr>"

definition m_close_listener :: "gworld \<Rightarrow> gworld option" where
  "m_close_listener w = (if GClosing w then Some (w\<lparr>GListening := False\<rparr>) else None)"

definition wait_over :: "gworld \<Rightarrow> bool" where
  "wait_over w \<longleftrightarrow> GClosing w \<and> \<not> GListening w \<and> (\<forall>c. Routines w c = None)"

fun move :: "deps \<Rightarrow> turn \<Rightarrow> gworld \<Rightarrow> gworld option" where
  "move d (MAccept remote) w = m_accept remote w"
| "move d MServe w = m_serve w"
| "move d (MReceive c chunk) w = m_receive c chunk w"
| "move d (MFrame c) w = m_frame d c w"
| "move d (MStep c) w = m_step c w"
| "move d (MHangUp c) w = m_hang_up d c w"
| "move d (MGo k) w = m_go d k w"
| "move d (MThread k) w = m_thread k w"
| "move d (MCommand imei payload) w = Some (m_command d imei payload w)"
| "move d (MRPC payload) w = Some (m_rpc d payload w)"
| "move d (MDebug req) w = Some (m_debug d req w)"
| "move d MShutdown w = Some (m_shutdown w)"
| "move d MCloseListener w = m_close_listener w"

definition g_start :: "registry option \<Rightarrow> gworld" where
  "g_start reg = \<lparr>GSrv = New_server reg \<lparr>Tick = 0, Trace = []\<rparr>, Routines = (\<lambda>_. None), Threads = [], Accepted = None, GNext = 0,
     GClosing = False, GListening = True\<rparr>"

inductive occurs :: "deps \<Rightarrow> registry option \<Rightarrow> gworld \<Rightarrow> bool" for d reg where
  init: "occurs d reg (g_start reg)"
| step: "occurs d reg w \<Longrightarrow> move d m w = Some w' \<Longrightarrow> occurs d reg w'"

fun moves :: "deps \<Rightarrow> turn list \<Rightarrow> gworld \<Rightarrow> gworld option" where
  "moves d [] w = Some w"
| "moves d (m # ms) w = move d m w \<bind> moves d ms"

lemma occurs_moves: "occurs d reg w \<Longrightarrow> moves d ms w = Some w' \<Longrightarrow> occurs d reg w'"
  by (induction ms arbitrary: w) (auto simp: bind_eq_Some_conv intro: occurs.step)

section \<open>The invariant\<close>

text \<open>What is known of each goroutine: it is safe under the contract, whatever it has still to do.\<close>

fun phase_ok :: "deps \<Rightarrow> registry \<Rightarrow> nat \<Rightarrow> phase \<Rightarrow> server \<Rightarrow> bool" where
  "phase_ok d r0 c (Reading l) s \<longleftrightarrow> mine c l s"
| "phase_ok d r0 c (Handling l p) s \<longleftrightarrow> (LImei l \<noteq> '''' \<and> c \<notin> Closed s \<longrightarrow> peer (LImei l) s = Some c) \<and>
     safe (sinv d r0) (relies c) (grants {c} {}) (\<lambda>r s. \<exists>l'. r = Some l' \<and> mine c l' s) p s"
| "phase_ok d r0 c (Ending p) s \<longleftrightarrow> safe (sinv d r0) (relies c) (grants {c} {c}) (\<lambda>_ s. c \<in> Closed s) p s"

abbreviation thread_ok :: "deps \<Rightarrow> registry \<Rightarrow> (server, unit) prog \<Rightarrow> server \<Rightarrow> bool" where
  "thread_ok d r0 p s \<equiv> safe (sinv d r0) evolves (grants {} {}) (\<lambda>_ _. True) p s"

definition ginv :: "deps \<Rightarrow> registry \<Rightarrow> gworld \<Rightarrow> bool" where
  "ginv d r0 w \<longleftrightarrow> sinv d r0 (GSrv w) \<and>
     (\<forall>c r. Routines w c = Some r \<longrightarrow> c < GNext w \<and> phase_ok d r0 c (Phase r) (GSrv w)) \<and>
     (\<forall>p \<in> set (Threads w). thread_ok d r0 p (GSrv w)) \<and>
     (\<forall>sid < length (Heap (GSrv w)). SConn (Heap (GSrv w) ! sid) < GNext w) \<and>
     (\<forall>c \<in> Closed (GSrv w). c < GNext w)"

lemma phase_ok_relies:
  assumes "phase_ok d r0 c ph s" "relies c s s'"
  shows "phase_ok d r0 c ph s'"
proof (cases ph)
  case (Reading l)
  with assms mine_relies show ?thesis by simp
next
  case (Handling l p)
  have a: "LImei l \<noteq> '''' \<and> c \<notin> Closed s' \<longrightarrow> peer (LImei l) s' = Some c"
    using assms Handling by (auto simp: relies_def evolves_def keeps_peer_def)
  have "safe (sinv d r0) (relies c) (grants {c} {}) (\<lambda>r s. \<exists>l'. r = Some l' \<and> mine c l' s) p s"
    using assms(1) unfolding Handling phase_ok.simps by blast
  from a conn.safe_rely [OF this assms(2)] show ?thesis unfolding Handling phase_ok.simps by blast
next
  case (Ending p)
  from assms(1) show ?thesis unfolding Ending phase_ok.simps by (rule conn.safe_rely) (rule assms(2))
qed

text \<open>
  A move that changes the server within the contract, for the connections in \<open>own\<close>, keeps
  the invariant when the goroutines it has touched are in order.
\<close>

lemma ginv_change:
  assumes w: "ginv d r0 w" and s: "sinv d r0 (GSrv w')" and g: "grants own own (GSrv w) (GSrv w')"
    and own: "\<And>c. c \<in> own \<Longrightarrow> c < GNext w" and n: "GNext w \<le> GNext w'"
    and c: "\<And>c r. Routines w' c = Some r \<Longrightarrow>
      c \<notin> own \<and> (\<exists>r1. Routines w c = Some r1 \<and> Phase r1 = Phase r) \<or> c < GNext w' \<and> phase_ok d r0 c (Phase r) (GSrv w')"
    and t: "\<And>p. p \<in> set (Threads w') \<Longrightarrow> p \<in> set (Threads w) \<or> thread_ok d r0 p (GSrv w')"
  shows "ginv d r0 w'"
proof -
  have "c < GNext w' \<and> phase_ok d r0 c (Phase r) (GSrv w')" if r: "Routines w' c = Some r" for c r
    using c [OF r]
  proof (elim disjE conjE exE)
    fix r1 assume "c \<notin> own" "Routines w c = Some r1" "Phase r1 = Phase r"
    with w n have "c < GNext w'" "phase_ok d r0 c (Phase r) (GSrv w)" by (fastforce simp: ginv_def)+
    with phase_ok_relies [OF _ grants_relies [OF g \<open>c \<notin> own\<close>]] show ?thesis by simp
  qed simp
  moreover have "thread_ok d r0 p (GSrv w')" if "p \<in> set (Threads w')" for p
    using t [OF that]
  proof
    assume "p \<in> set (Threads w)"
    then have "thread_ok d r0 p (GSrv w)" using w unfolding ginv_def by blast
    moreover have "evolves (GSrv w) (GSrv w')" using g by (simp add: grants_def)
    ultimately show ?thesis by (rule free.safe_rely)
  qed
  moreover have "SConn (Heap (GSrv w') ! sid) < GNext w'" if "sid < length (Heap (GSrv w'))" for sid
  proof (cases "sid < length (Heap (GSrv w))")
    case True
    then have "SConn (Heap (GSrv w') ! sid) = SConn (Heap (GSrv w) ! sid)"
      using g by (simp add: grants_def evolves_def grows_def)
    moreover have "SConn (Heap (GSrv w) ! sid) < GNext w" using True w unfolding ginv_def by blast
    ultimately show ?thesis using n by simp
  next
    case False
    then have "SConn (Heap (GSrv w') ! sid) \<in> own" using g that by (simp add: grants_def)
    with own n show ?thesis by fastforce
  qed
  moreover have "c < GNext w'" if "c \<in> Closed (GSrv w')" for c
  proof -
    have "c \<in> Closed (GSrv w) \<union> own \<union> SConn ` set (Heap (GSrv w))"
      using g that unfolding grants_def by blast
    moreover have "\<forall>x \<in> set (Heap (GSrv w)). SConn x < GNext w"
      using w unfolding ginv_def all_set_conv_all_nth by blast
    ultimately have "c < GNext w" using w own unfolding ginv_def by blast
    with n show ?thesis by simp
  qed
  ultimately show ?thesis using s by (auto simp: ginv_def)
qed

lemma ginv_quiet:
  assumes "ginv d r0 w" "GSrv w' = GSrv w" "GNext w \<le> GNext w'" "Threads w' = Threads w"
    and "\<And>c r. Routines w' c = Some r \<Longrightarrow>
      (\<exists>r1. Routines w c = Some r1 \<and> Phase r1 = Phase r) \<or> c < GNext w' \<and> phase_ok d r0 c (Phase r) (GSrv w)"
  shows "ginv d r0 w'"
  by (rule ginv_change [OF assms(1), of w' "{}"]) (use assms in \<open>auto simp: ginv_def\<close>)

lemma ginv_accept: "ginv d r0 w \<Longrightarrow> m_accept remote w = Some w' \<Longrightarrow> ginv d r0 w'"
  by (erule ginv_quiet) (auto simp: m_accept_def split: if_splits)

lemma ginv_serve: "ginv d r0 w \<Longrightarrow> m_serve w = Some w' \<Longrightarrow> ginv d r0 w'"
  by (erule ginv_quiet)
    (auto simp: m_serve_def mine_def local_ok_fresh fresh_local_def local_ok_def split: option.splits if_splits)

lemma ginv_receive: "ginv d r0 w \<Longrightarrow> m_receive c chunk w = Some w' \<Longrightarrow> ginv d r0 w'"
  by (erule ginv_quiet) (auto simp: m_receive_def split: option.splits phase.splits if_splits)

lemma ginv_reading:
  assumes "ginv d r0 w" "Routines w c = Some r" "Phase r = Reading l"
  shows "c < GNext w" "mine c l (GSrv w)" "sinv d r0 (GSrv w)"
  using assms unfolding ginv_def by fastforce+

lemma ginv_frame:
  assumes w: "ginv d r0 w" and m: "m_frame d c w = Some w'"
  shows "ginv d r0 w'"
proof -
  obtain r l where r: "Routines w c = Some r" "Phase r = Reading l"
    using m by (auto simp: m_frame_def split: option.splits phase.splits)
  note gr = ginv_reading [OF w r]
  have "phase_ok d r0 c (Handling l (handleFrame_p d c remote f l)) (GSrv w)" for f remote
    using gr handleFrame_safe [of d r0 c l remote f] unfolding phase_ok.simps sentence_def mine_def by blast
  with m r gr(1) show ?thesis
    by (intro ginv_quiet [OF w])
      (auto simp: m_frame_def simp del: phase_ok.simps split: option.splits sum.splits if_splits)
qed

lemma ginv_act:
  assumes w: "ginv d r0 w" and r: "Routines w c = Some r" and s: "sinv d r0 s" and g: "grants {c} {c} (GSrv w) s"
    and p: "phase_ok d r0 c ph s"
  shows "ginv d r0 (w\<lparr>GSrv := s, Routines := (Routines w)(c \<mapsto> r\<lparr>Phase := ph\<rparr>)\<rparr>)"
proof -
  have "c < GNext w" using w r unfolding ginv_def by blast
  with w s g p show ?thesis by (intro ginv_change [OF w, of _ "{c}"]) (auto split: if_splits)
qed

lemma ginv_step:
  assumes w: "ginv d r0 w" and m: "m_step c w = Some w'"
  shows "ginv d r0 w'"
proof -
  obtain r where r: "Routines w c = Some r" using m by (auto simp: m_step_def split: option.splits)
  have s: "sinv d r0 (GSrv w)" and ph: "phase_ok d r0 c (Phase r) (GSrv w)" using w r unfolding ginv_def by blast+
  show ?thesis
  proof (cases "Phase r")
    case (Handling l p)
    let ?Q = "\<lambda>r s. \<exists>l'. r = Some l' \<and> mine c l' s"
    have sp: "safe (sinv d r0) (relies c) (grants {c} {}) ?Q p (GSrv w)"
      and h: "LImei l \<noteq> '''' \<and> c \<notin> Closed (GSrv w) \<longrightarrow> peer (LImei l) (GSrv w) = Some c"
      using ph unfolding Handling phase_ok.simps by blast+
    show ?thesis
    proof (cases p)
      case (Ret x)
      with sp s have "?Q x (GSrv w)" by simp
      then obtain l' where l': "x = Some l'" "mine c l' (GSrv w)" by blast
      with m r Handling Ret have "w' = w\<lparr>Routines := (Routines w)(c \<mapsto> r\<lparr>Phase := Reading l'\<rparr>)\<rparr>"
        by (simp add: m_step_def)
      moreover have "c < GNext w" using w r unfolding ginv_def by blast
      ultimately show ?thesis using l' by (intro ginv_quiet [OF w]) (auto split: if_splits)
    next
      case (Act f g)
      have a: "sinv d r0 (f (GSrv w))" "grants {c} {} (GSrv w) (f (GSrv w))"
        "safe (sinv d r0) (relies c) (grants {c} {}) ?Q (g (GSrv w)) (f (GSrv w))"
        using sp s unfolding Act safe.simps using relies_refl by blast+
      from a(2) have rl: "relies c (GSrv w) (f (GSrv w))" by (rule grants_relies) simp
      have "LImei l \<noteq> '''' \<and> c \<notin> Closed (f (GSrv w)) \<longrightarrow> peer (LImei l) (f (GSrv w)) = Some c"
        using h rl by (auto simp: relies_def evolves_def keeps_peer_def)
      with a(3) have "phase_ok d r0 c (Handling l (g (GSrv w))) (f (GSrv w))" unfolding phase_ok.simps by blast
      from ginv_act [OF w r a(1) grants_mono [OF a(2)] this] m r Handling Act show ?thesis
        by (simp add: m_step_def)
    qed
  next
    case (Ending p)
    have sp: "safe (sinv d r0) (relies c) (grants {c} {c}) (\<lambda>_ s. c \<in> Closed s) p (GSrv w)"
      using ph unfolding Ending phase_ok.simps .
    show ?thesis
    proof (cases p)
      case (Ret x)
      with m r Ending show ?thesis by (intro ginv_quiet [OF w]) (auto simp: m_step_def split: if_splits)
    next
      case (Act f g)
      have a: "sinv d r0 (f (GSrv w))" "grants {c} {c} (GSrv w) (f (GSrv w))"
        "safe (sinv d r0) (relies c) (grants {c} {c}) (\<lambda>_ s. c \<in> Closed s) (g (GSrv w)) (f (GSrv w))"
        using sp s unfolding Act safe.simps using relies_refl by blast+
      from a(3) have "phase_ok d r0 c (Ending (g (GSrv w))) (f (GSrv w))" unfolding phase_ok.simps .
      from ginv_act [OF w r a(1,2) this] m r Ending Act show ?thesis by (simp add: m_step_def)
    qed
  qed (use m r in \<open>simp add: m_step_def\<close>)
qed

lemma ginv_hang_up:
  assumes w: "ginv d r0 w" and m: "m_hang_up d c w = Some w'"
  shows "ginv d r0 w'"
proof -
  obtain r l where r: "Routines w c = Some r" "Phase r = Reading l"
    and w': "w' = w\<lparr>Routines := (Routines w)(c \<mapsto> r\<lparr>Phase := Ending (cleanup_p d c l)\<rparr>)\<rparr>"
    using m by (auto simp: m_hang_up_def split: option.splits phase.splits if_splits)
  note gr = ginv_reading [OF w r]
  have "phase_ok d r0 c (Ending (cleanup_p d c l)) (GSrv w)"
    using gr cleanup_safe [of d r0 c l] unfolding phase_ok.simps sentence_def mine_def by blast
  with gr(1) w' show ?thesis by (intro ginv_quiet [OF w]) (auto simp del: phase_ok.simps split: if_splits)
qed

lemma ginv_go:
  assumes w: "ginv d r0 w" and m: "m_go d k w = Some w'"
  shows "ginv d r0 w'"
proof -
  let ?ts = "Tasks (GSrv w)" and ?s = "(GSrv w)\<lparr>Tasks := take k (Tasks (GSrv w)) @ drop (Suc k) (Tasks (GSrv w))\<rparr>"
  have k: "k < length ?ts" and w': "w' = w\<lparr>GSrv := ?s, Threads := Threads w @ [run_task_p d (?ts ! k)]\<rparr>"
    using m by (auto simp: m_go_def Let_def split: if_splits)
  have s: "sinv d r0 (GSrv w)" using w unfolding ginv_def by blast
  have g: "grows (GSrv w) ?s" by (simp add: grows_def)
  have sub: "set (Tasks ?s) \<subseteq> set ?ts" using set_take_subset [of k ?ts] set_drop_subset [of "Suc k" ?ts] by auto
  have s': "sinv d r0 ?s" using s sub task_ok_grows [OF g] by (auto simp: sinv_def)
  have "task_ok ?s (?ts ! k)" using s k task_ok_grows [OF g] by (simp add: sinv_def)
  with run_task_safe [of d r0 "?ts ! k"] s' have "thread_ok d r0 (run_task_p d (?ts ! k)) ?s"
    unfolding sentence_def by blast
  moreover have "grants {} {} (GSrv w) ?s"
    using g by (simp add: grants_def evolves_def adds_def keeps_peer_def peer_def)
  ultimately show ?thesis using s' by (intro ginv_change [OF w, of _ "{}"]) (auto simp: w')
qed

lemma ginv_thread:
  assumes w: "ginv d r0 w" and m: "m_thread k w = Some w'"
  shows "ginv d r0 w'"
proof -
  obtain p s where k: "k < length (Threads w)" and st: "stepp (Threads w ! k) (GSrv w) = (p, s)"
    and w': "w' = w\<lparr>GSrv := s, Threads := (Threads w)[k := p]\<rparr>"
    using m by (auto simp: m_thread_def split: if_splits prod.splits)
  have i: "sinv d r0 (GSrv w)" "thread_ok d r0 (Threads w ! k) (GSrv w)" using w k by (auto simp: ginv_def)
  from free.safe_stepp [OF i(2,1) st] have "sinv d r0 s" "grants {} {} (GSrv w) s" "thread_ok d r0 p s" by auto
  then show ?thesis
    using set_update_subset_insert [of "Threads w" k p] by (intro ginv_change [OF w, of _ "{}"]) (auto simp: w')
qed

lemma ginv_spawn:
  assumes "ginv d r0 w" "harmless d r0 p (\<lambda>_. True)"
  shows "ginv d r0 (w\<lparr>Threads := Threads w @ [p]\<rparr>)"
proof -
  have "sinv d r0 (GSrv w)" using assms(1) unfolding ginv_def by blast
  moreover from this assms(2) have "thread_ok d r0 p (GSrv w)" unfolding sentence_def by blast
  ultimately show ?thesis by (intro ginv_change [OF assms(1), of _ "{}"]) auto
qed

lemma ginv_command: "ginv d r0 w \<Longrightarrow> ginv d r0 (m_command d imei payload w)"
  unfolding m_command_def by (erule ginv_spawn) (intro harmless_bind send_safe harmless_ret, simp)

lemma ginv_rpc: "ginv d r0 w \<Longrightarrow> ginv d r0 (m_rpc d payload w)"
  unfolding m_rpc_def by (erule ginv_spawn) (rule rpc_callback_safe)

lemma ginv_debug: "ginv d r0 w \<Longrightarrow> ginv d r0 (m_debug d req w)"
  unfolding m_debug_def by (erule ginv_spawn) (intro harmless_bind debug_handler_safe harmless_ret, simp)

lemma ginv_move:
  assumes "ginv d r0 w" "move d m w = Some w'"
  shows "ginv d r0 w'"
proof (cases m)
  case MShutdown
  with assms show ?thesis by (intro ginv_quiet [OF assms(1)]) (auto simp: m_shutdown_def)
next
  case MCloseListener
  with assms show ?thesis by (intro ginv_quiet [OF assms(1)]) (auto simp: m_close_listener_def split: if_splits)
qed (use assms in \<open>auto intro: ginv_accept ginv_serve ginv_receive ginv_frame ginv_step ginv_hang_up ginv_go ginv_thread
    ginv_command ginv_rpc ginv_debug\<close>)

lemma ginv_start: "ginv d (New_registry cfg) (g_start (Some (New_registry cfg)))"
  using trusted_New
  by (simp add: ginv_def sinv_def g_start_def New_server_def inv_def table_ok_def connected_ok_def trace_ok_def)

lemma occurs_ginv:
  assumes "occurs d (Some (New_registry cfg)) w"
  shows "ginv d (New_registry cfg) w"
  using assms
  by (induction rule: occurs.induct) (auto intro: ginv_start ginv_move)

end
