(* ===== verification/Refinement.thy ===== *)
theory Refinement
  imports Interleaved
begin

text \<open>
  The two granularities. Every run of the transition system of the theory \<open>Gateway\<close>, in which
  handlers, background goroutines and commands are single steps, is a run of the system of
  the theory \<open>Interleaved\<close> in which the steps of each of them happen to follow one another: what
  a coarse run shows to be possible is possible, and what holds at every moment of the fine
  system holds in the coarse one. The properties of the gateway that hold at every moment
  are at the end, with the witnesses that a run of the coarse system provides.
\<close>

section \<open>Coarse steps as sequences of moves\<close>

definition routine_of :: "conn_state \<Rightarrow> routine" where
  "routine_of cs = \<lparr>Phase = Reading (CLocal cs), RBuf = CBuf cs, RRemote = CRemote cs\<rparr>"

text \<open>The state in which \<open>n\<close> goroutines without a connection have come to their end.\<close>

definition refined :: "nat \<Rightarrow> world \<Rightarrow> gworld" where
  "refined n w = \<lparr>GSrv = Srv w, Routines = (\<lambda>c. map_option routine_of (Conns w c)), Threads = replicate n (Ret ()),
     Accepted = None, GNext = Next w, GClosing = Closing w, GListening = Listening w\<rparr>"

lemma refined_simps [simp]:
  "GSrv (refined n w) = Srv w" "Routines (refined n w) c = map_option routine_of (Conns w c)"
  by (simp_all add: refined_def)

lemma moves_append: "moves d (xs @ ys) w = moves d xs w \<bind> moves d ys"
  by (induction xs arbitrary: w) (auto split: bind_splits)

text \<open>A handler, run to its end; a cleanup; a goroutine without a connection.\<close>

lemma handler_moves:
  "Routines w c = Some r \<Longrightarrow> Phase r = Handling l p \<Longrightarrow> runp p (GSrv w) = (Some l', s') \<Longrightarrow>
   \<exists>k. moves d (replicate k (MStep c)) w = Some (w\<lparr>GSrv := s', Routines := (Routines w)(c \<mapsto> r\<lparr>Phase := Reading l'\<rparr>)\<rparr>)"
proof (induction p arbitrary: w r)
  case (Ret x)
  then show ?case by (intro exI [of _ 1]) (cases w; auto simp: m_step_def fun_upd_def)
next
  case (Act f g)
  let ?r = "r\<lparr>Phase := Handling l (g (GSrv w))\<rparr>"
  let ?w = "w\<lparr>GSrv := f (GSrv w), Routines := (Routines w)(c \<mapsto> ?r)\<rparr>"
  have "m_step c w = Some ?w" using Act.prems by (simp add: m_step_def)
  moreover have "\<exists>k. moves d (replicate k (MStep c)) ?w =
      Some (?w\<lparr>GSrv := s', Routines := (Routines ?w)(c \<mapsto> ?r\<lparr>Phase := Reading l'\<rparr>)\<rparr>)"
    by (rule Act.IH [OF rangeI [of g "GSrv w"]]) (use Act.prems in simp_all)
  then obtain k where k: "moves d (replicate k (MStep c)) ?w =
      Some (?w\<lparr>GSrv := s', Routines := (Routines ?w)(c \<mapsto> ?r\<lparr>Phase := Reading l'\<rparr>)\<rparr>)" ..
  moreover have "?w\<lparr>GSrv := s', Routines := (Routines ?w)(c \<mapsto> ?r\<lparr>Phase := Reading l'\<rparr>)\<rparr> =
      w\<lparr>GSrv := s', Routines := (Routines w)(c \<mapsto> r\<lparr>Phase := Reading l'\<rparr>)\<rparr>"
    by (cases w) simp
  ultimately have "moves d (replicate (Suc k) (MStep c)) w =
      Some (w\<lparr>GSrv := s', Routines := (Routines w)(c \<mapsto> r\<lparr>Phase := Reading l'\<rparr>)\<rparr>)"
    by (simp only: replicate_Suc moves.simps move.simps bind.bind_lunit)
  then show ?case ..
qed

lemma ending_moves:
  "Routines w c = Some r \<Longrightarrow> Phase r = Ending p \<Longrightarrow> runp p (GSrv w) = ((), s') \<Longrightarrow>
   \<exists>k. moves d (replicate k (MStep c)) w = Some (w\<lparr>GSrv := s', Routines := (Routines w)(c := None)\<rparr>)"
proof (induction p arbitrary: w r)
  case (Ret x)
  then show ?case by (intro exI [of _ 1]) (cases w; auto simp: m_step_def fun_upd_def)
next
  case (Act f g)
  let ?r = "r\<lparr>Phase := Ending (g (GSrv w))\<rparr>"
  let ?w = "w\<lparr>GSrv := f (GSrv w), Routines := (Routines w)(c \<mapsto> ?r)\<rparr>"
  have "m_step c w = Some ?w" using Act.prems by (simp add: m_step_def)
  moreover have "\<exists>k. moves d (replicate k (MStep c)) ?w = Some (?w\<lparr>GSrv := s', Routines := (Routines ?w)(c := None)\<rparr>)"
  proof (rule Act.IH [OF rangeI [of g "GSrv w"]])
    show "Routines ?w c = Some ?r" by simp
    show "Phase ?r = Ending (g (GSrv w))" by simp
    show "runp (g (GSrv w)) (GSrv ?w) = ((), s')" using Act.prems by simp
  qed
  then obtain k where k: "moves d (replicate k (MStep c)) ?w = Some (?w\<lparr>GSrv := s', Routines := (Routines ?w)(c := None)\<rparr>)" ..
  moreover have "?w\<lparr>GSrv := s', Routines := (Routines ?w)(c := None)\<rparr> = w\<lparr>GSrv := s', Routines := (Routines w)(c := None)\<rparr>"
    by (cases w) simp
  ultimately have "moves d (replicate (Suc k) (MStep c)) w = Some (w\<lparr>GSrv := s', Routines := (Routines w)(c := None)\<rparr>)"
    by (simp only: replicate_Suc moves.simps move.simps bind.bind_lunit)
  then show ?case ..
qed

lemma thread_moves:
  "k < length (Threads w) \<Longrightarrow> Threads w ! k = p \<Longrightarrow> runp p (GSrv w) = ((), s') \<Longrightarrow>
   \<exists>n. moves d (replicate n (MThread k)) w = Some (w\<lparr>GSrv := s', Threads := (Threads w)[k := Ret ()]\<rparr>)"
proof (induction p arbitrary: w)
  case (Ret x)
  then have "(Threads w)[k := Ret ()] = Threads w" by (simp add: list_update_same_conv)
  with Ret show ?case by (intro exI [of _ 0]) simp
next
  case (Act f g)
  let ?w = "w\<lparr>GSrv := f (GSrv w), Threads := (Threads w)[k := g (GSrv w)]\<rparr>"
  have "m_thread k w = Some ?w" using Act.prems by (simp add: m_thread_def)
  moreover obtain n where "moves d (replicate n (MThread k)) ?w = Some (?w\<lparr>GSrv := s', Threads := (Threads ?w)[k := Ret ()]\<rparr>)"
    using Act.IH [OF rangeI [of g "GSrv w"], of ?w] Act.prems by auto
  ultimately show ?case by (intro exI [of _ "Suc n"]) simp
qed

text \<open>Each coarse step.\<close>

lemma accept_moves: "accept remote w = Some w' \<Longrightarrow> moves d [MAccept remote, MServe] (refined n w) = Some (refined n w')"
  by (auto simp: accept_def m_accept_def m_serve_def refined_def routine_of_def fresh_local_def split: if_splits)

lemma receive_moves: "receive c chunk w = Some w' \<Longrightarrow> move d (MReceive c chunk) (refined n w) = Some (refined n w')"
  by (auto simp: receive_def m_receive_def refined_def routine_of_def split: option.splits if_splits)

lemma process_moves:
  assumes p: "process d c w = Some w'"
  shows "\<exists>ms. moves d ms (refined n w) = Some (refined n w')"
proof -
  obtain cs where c: "Conns w c = Some cs" using p by (auto simp: process_def split: option.splits)
  obtain r where r: "ExtractFrame (CBuf cs) = Some r" by (simp add: ExtractFrame_eq)
  show ?thesis
  proof (cases r)
    case (Inl a)
    obtain e k where "a = (e, k)" by fastforce
    with p c r Inl have "m_frame d c (refined n w) = Some (refined n w')"
      by (auto simp: process_def m_frame_def refined_def routine_of_def split: if_splits)
    then show ?thesis by (intro exI [of _ "[MFrame c]"]) simp
  next
    case (Inr a)
    obtain f k where a: "a = (f, k)" by fastforce
    obtain l s where h: "handleFrame d c (CRemote cs) f (CLocal cs, Srv w) = Some (l, s)"
      using handleFrame_total by (metis prod.exhaust)
    have w': "w' = w\<lparr>Srv := s, Conns := (Conns w)(c \<mapsto> cs\<lparr>CLocal := l, CBuf := drop k (CBuf cs)\<rparr>)\<rparr>"
      using p c r Inr a h by (auto simp: process_def)
    let ?p = "handleFrame_p d c (CRemote cs) f (CLocal cs)"
    let ?r = "\<lparr>Phase = Handling (CLocal cs) ?p, RBuf = drop k (CBuf cs), RRemote = CRemote cs\<rparr>"
    let ?w = "(refined n w)\<lparr>Routines := (Routines (refined n w))(c \<mapsto> ?r)\<rparr>"
    have m: "m_frame d c (refined n w) = Some ?w"
      using c r Inr a by (simp add: m_frame_def routine_of_def)
    have run: "runp ?p (GSrv ?w) = (Some l, s)"
      using handleFrame_run [of d c "CRemote cs" f "CLocal cs" "Srv w"] h
      by (auto simp: handled_def prod_eq_iff)
    obtain j where j: "moves d (replicate j (MStep c)) ?w =
        Some (?w\<lparr>GSrv := s, Routines := (Routines ?w)(c \<mapsto> ?r\<lparr>Phase := Reading l\<rparr>)\<rparr>)"
      using handler_moves [of ?w c ?r "CLocal cs" ?p l s d] run by auto
    have "?w\<lparr>GSrv := s, Routines := (Routines ?w)(c \<mapsto> ?r\<lparr>Phase := Reading l\<rparr>)\<rparr> = refined n w'"
      by (auto simp: w' refined_def routine_of_def)
    with m j show ?thesis by (intro exI [of _ "MFrame c # replicate j (MStep c)"]) simp
  qed
qed

lemma hang_up_moves:
  assumes h: "hang_up d c w = Some w'"
  shows "\<exists>ms. moves d ms (refined n w) = Some (refined n w')"
proof -
  obtain cs where c: "Conns w c = Some cs" "idle (CBuf cs)"
    and w': "w' = w\<lparr>Srv := cleanup d c (CLocal cs) (Srv w), Conns := (Conns w)(c := None)\<rparr>"
    using h by (auto simp: hang_up_def split: option.splits if_splits)
  let ?r = "\<lparr>Phase = Ending (cleanup_p d c (CLocal cs)), RBuf = CBuf cs, RRemote = CRemote cs\<rparr>"
  let ?w = "(refined n w)\<lparr>Routines := (Routines (refined n w))(c \<mapsto> ?r)\<rparr>"
  have m: "m_hang_up d c (refined n w) = Some ?w" using c by (simp add: m_hang_up_def routine_of_def)
  have run: "runp (cleanup_p d c (CLocal cs)) (GSrv ?w) = ((), cleanup d c (CLocal cs) (Srv w))" by (simp add: cleanup_run)
  obtain j where j: "moves d (replicate j (MStep c)) ?w =
      Some (?w\<lparr>GSrv := cleanup d c (CLocal cs) (Srv w), Routines := (Routines ?w)(c := None)\<rparr>)"
    using ending_moves [of ?w c ?r "cleanup_p d c (CLocal cs)" "cleanup d c (CLocal cs) (Srv w)" d] run by auto
  have "?w\<lparr>GSrv := cleanup d c (CLocal cs) (Srv w), Routines := (Routines ?w)(c := None)\<rparr> = refined n w'"
    by (auto simp: w' refined_def)
  with m j show ?thesis by (intro exI [of _ "MHangUp c # replicate j (MStep c)"]) simp
qed

text \<open>A goroutine that is started, runs to its end, and stays in the list as finished.\<close>

lemma spawned_moves:
  assumes m: "move d m (refined n w) = Some ((refined n w)\<lparr>GSrv := s, Threads := replicate n (Ret ()) @ [p]\<rparr>)"
    and run: "runp p s = ((), s')" and w': "w' = w\<lparr>Srv := s'\<rparr>"
  shows "\<exists>ms. moves d ms (refined n w) = Some (refined (Suc n) w')"
proof -
  let ?w = "(refined n w)\<lparr>GSrv := s, Threads := replicate n (Ret ()) @ [p]\<rparr>"
  obtain j where j: "moves d (replicate j (MThread n)) ?w = Some (?w\<lparr>GSrv := s', Threads := (Threads ?w)[n := Ret ()]\<rparr>)"
    using thread_moves [of n ?w p s' d] run by (auto simp: nth_append)
  have "?w\<lparr>GSrv := s', Threads := (Threads ?w)[n := Ret ()]\<rparr> = refined (Suc n) w'"
    by (simp add: w' refined_def list_update_append replicate_append_same)
  with m j show ?thesis by (intro exI [of _ "m # replicate j (MThread n)"]) simp
qed

lemma run_one_moves:
  assumes r: "run_one d k w = Some w'"
  shows "\<exists>ms. moves d ms (refined n w) = Some (refined (Suc n) w')"
proof -
  let ?s = "Srv w\<lparr>Tasks := take k (Tasks (Srv w)) @ drop (Suc k) (Tasks (Srv w))\<rparr>"
  have k: "k < length (Tasks (Srv w))" and w': "w' = w\<lparr>Srv := run_task d (Tasks (Srv w) ! k) ?s\<rparr>"
    using r by (simp_all add: run_one_def Let_def split: if_splits)
  have "move d (MGo k) (refined n w) =
      Some ((refined n w)\<lparr>GSrv := ?s, Threads := replicate n (Ret ()) @ [run_task_p d (Tasks (Srv w) ! k)]\<rparr>)"
    using k by (simp add: m_go_def refined_def Let_def)
  from spawned_moves [OF this run_task_run w'] show ?thesis .
qed

lemma downlink_moves:
  "\<exists>ms. moves d ms (refined n w) = Some (refined (Suc n) (w\<lparr>Srv := snd (SendToDevice d imei payload (Srv w))\<rparr>))"
proof (rule spawned_moves)
  show "move d (MCommand imei payload) (refined n w) =
      Some ((refined n w)\<lparr>GSrv := Srv w, Threads := replicate n (Ret ()) @ [bindp (SendToDevice_p d imei payload) (\<lambda>_. Ret ())]\<rparr>)"
    by (simp add: m_command_def refined_def)
qed (simp_all add: SendToDevice_run split: prod.split)

lemma act_moves:
  assumes "act d a w = Some w'"
  shows "\<exists>ms n'. moves d ms (refined n w) = Some (refined n' w')"
proof (cases a)
  case (Accept remote)
  with assms accept_moves [of remote w w' d n] show ?thesis
    by (intro exI [of _ "[MAccept remote, MServe]"] exI [of _ n]) simp
next
  case (Receive c chunk)
  with assms receive_moves [of c chunk w w' d n] show ?thesis by (intro exI [of _ "[MReceive c chunk]"] exI [of _ n]) simp
next
  case (Downlink imei payload)
  with assms downlink_moves [of d n w imei payload] show ?thesis by auto
next
  case BeginShutdown
  with assms show ?thesis by (intro exI [of _ "[MShutdown]"] exI [of _ n]) (auto simp: refined_def begin_shutdown_def m_shutdown_def)
next
  case CloseListener
  with assms show ?thesis
    by (intro exI [of _ "[MCloseListener]"] exI [of _ n]) (auto simp: refined_def close_listener_def m_close_listener_def split: if_splits)
qed (use assms process_moves hang_up_moves run_one_moves in \<open>fastforce+\<close>)

lemma reachable_occurs: "reachable d reg w \<Longrightarrow> \<exists>n. occurs d reg (refined n w)"
proof (induction rule: reachable.induct)
  case init
  have "refined 0 (start reg) = g_start reg" by (simp add: refined_def start_def g_start_def)
  with occurs.init [of d reg] show ?case by (intro exI [of _ 0]) simp
next
  case (step w a w')
  then show ?case using act_moves [OF step(2)] occurs_moves by meson
qed

section \<open>What holds at every moment\<close>

text \<open>Every call to the uplink client is in order.\<close>

lemma occurs_call_ok:
  assumes "occurs d (Some (New_registry cfg)) w" "Trace (IO (GSrv w)) = before @ Uplink u # after"
  shows "call_ok (Env d) (New_registry cfg) before u"
proof -
  have "trace_ok (Env d) (New_registry cfg) (Trace (IO (GSrv w)))"
    using occurs_ginv [OF assms(1)] by (simp add: ginv_def sinv_def inv_def)
  moreover have "length before < length (Trace (IO (GSrv w)))" "Trace (IO (GSrv w)) ! length before = Uplink u"
    "take (length before) (Trace (IO (GSrv w))) = before"
    by (simp_all add: assms(2))
  ultimately show ?thesis unfolding trace_ok_def by metis
qed

text \<open>The variables of a connection that is being served; in a handler, those at its start.\<close>

fun variables :: "phase \<Rightarrow> conn_local option" where
  "variables (Reading l) = Some l"
| "variables (Handling l p) = Some l"
| "variables (Ending p) = None"

lemma variables_peer:
  assumes "ginv d r0 w" "Routines w c = Some r" "variables (Phase r) = Some l" "c \<notin> Closed (GSrv w)" "LImei l \<noteq> ''''"
  shows "peer (LImei l) (GSrv w) = Some c"
proof -
  have "phase_ok d r0 c (Phase r) (GSrv w)" using assms(1,2) unfolding ginv_def by blast
  with assms(3-5) show ?thesis by (cases "Phase r") (auto simp: mine_def)
qed

section \<open>A concrete state\<close>

lemma demo_occurs:
  "\<exists>w r. occurs demo_deps (Some (New_registry no_checks)) w \<and>
     Trace (IO (GSrv w)) = [Wrote 0 BuildLoginACK] @ Uplink (ConnectCall imei_a) # [] \<and>
     Routines w 0 = Some r \<and> (\<exists>l. variables (Phase r) = Some l \<and> LImei l = imei_a) \<and> 0 \<notin> Closed (GSrv w) \<and>
     ListSessions (GSrv w) \<noteq> []"
proof -
  obtain w cs where w: "reachable demo_deps (Some (New_registry no_checks)) w"
    "Trace (IO (Srv w)) = [Wrote 0 BuildLoginACK] @ Uplink (ConnectCall imei_a) # []"
    "Conns w 0 = Some cs" "0 \<notin> Closed (Srv w)" "LImei (CLocal cs) = imei_a" "ListSessions (Srv w) \<noteq> []"
    using demo_run_reaches by blast
  obtain n where "occurs demo_deps (Some (New_registry no_checks)) (refined n w)"
    using reachable_occurs [OF w(1)] by blast
  with w show ?thesis
    by (intro exI [of _ "refined n w"] exI [of _ "routine_of cs"]) (simp add: routine_of_def)
qed

section \<open>Properties\<close>

text \<open>C6. Claim before uplink, under every interleaving. Whatever the trackers send, whatever the network
  answers, and however the steps of handlers, background goroutines, lookups and commands
  interleave between the sections under a lock: the gateway announces a device to ThingsBoard
  or publishes telemetry for it only when registration checks are off or the back end has
  confirmed the IMEI, and telemetry or the end of a device is published only after it was
  announced.\<close>

theorem uplink_only_for_claimed:
  assumes "occurs d (Some (New_registry cfg)) w" "Trace (IO (GSrv w)) = before @ Uplink u # after"
  shows "case u of
      ConnectCall imei \<Rightarrow> licensed (Env d) (New_registry cfg) imei
    | TelemetryCall imei ts values \<Rightarrow> licensed (Env d) (New_registry cfg) imei \<and> Uplink (ConnectCall imei) \<in> set before
    | DisconnectCall imei \<Rightarrow> Uplink (ConnectCall imei) \<in> set before"
  using occurs_call_ok [OF assms] by (cases u) simp_all

theorem uplink_only_for_claimed_witness: "licensed (Env demo_deps) (New_registry no_checks) imei_a"
proof -
  obtain w where w: "occurs demo_deps (Some (New_registry no_checks)) w"
    "Trace (IO (GSrv w)) = [Wrote 0 BuildLoginACK] @ Uplink (ConnectCall imei_a) # []"
    using demo_occurs by blast
  from uplink_only_for_claimed [OF w] show ?thesis by simp
qed

text \<open>C5. One connection per tracker, under every interleaving. At every moment, also in the middle of
  handlers: two open connections that are being served and have logged in under the same IMEI
  are the same connection, and commands for that IMEI go to it. A new login closes the
  connection it replaces, and a connection that ends never takes the session of its successor
  with it.\<close>

theorem one_connection_per_imei:
  assumes "occurs d (Some (New_registry cfg)) w"
    and "Routines w a = Some ra" "variables (Phase ra) = Some la" "a \<notin> Closed (GSrv w)"
    and "Routines w b = Some rb" "variables (Phase rb) = Some lb" "b \<notin> Closed (GSrv w)"
    and "LImei la = imei" "LImei lb = imei" "imei \<noteq> ''''"
  shows "a = b \<and> peer imei (GSrv w) = Some a"
  using variables_peer [OF occurs_ginv [OF assms(1)] assms(2-4)] variables_peer [OF occurs_ginv [OF assms(1)] assms(5-7)]
    assms(8-10) by simp

theorem one_connection_per_imei_witness: "\<exists>w :: gworld. peer imei_a (GSrv w) = Some 0"
proof -
  obtain w r l where "occurs demo_deps (Some (New_registry no_checks)) w" "Routines w 0 = Some r" "0 \<notin> Closed (GSrv w)"
    "variables (Phase r) = Some l" "LImei l = imei_a"
    using demo_occurs by blast
  moreover have "imei_a \<noteq> ''''" by (simp add: imei_a_def)
  ultimately show ?thesis
    using one_connection_per_imei [of demo_deps no_checks w 0 r l 0 r l imei_a] by blast
qed

text \<open>C12. The table of sessions is well formed at every moment: what \<open>ListSessions\<close> returns
  lists no IMEI twice, each listed session belongs to a connection that was accepted, and one
  that is marked connected has been announced to ThingsBoard.\<close>

theorem sessions_well_formed:
  assumes "occurs d (Some (New_registry cfg)) w"
  shows "distinct (map InfoIMEI (ListSessions (GSrv w))) \<and>
    (\<forall>x \<in> set (ListSessions (GSrv w)). (\<exists>c < GNext w. peer (InfoIMEI x) (GSrv w) = Some c) \<and>
       (InfoTBConnected x \<longrightarrow> Uplink (ConnectCall (InfoIMEI x)) \<in> set (Trace (IO (GSrv w)))))"
proof -
  have t: "table_ok (GSrv w)" and c: "connected_ok (GSrv w)"
    and n: "\<forall>sid < length (Heap (GSrv w)). SConn (Heap (GSrv w) ! sid) < GNext w"
    using occurs_ginv [OF assms] by (simp_all add: ginv_def sinv_def inv_def)
  have m: "map_of (Sessions (GSrv w)) i = Some sid" if "(i, sid) \<in> set (Sessions (GSrv w))" for i sid
    using that t by (simp add: table_ok_def)
  have "map InfoIMEI (ListSessions (GSrv w)) = map fst (Sessions (GSrv w))"
    using t m by (auto simp: ListSessions_def table_ok_def Let_def)
  moreover have "(\<exists>c < GNext w. peer (InfoIMEI x) (GSrv w) = Some c) \<and>
       (InfoTBConnected x \<longrightarrow> Uplink (ConnectCall (InfoIMEI x)) \<in> set (Trace (IO (GSrv w))))"
    if x: "x \<in> set (ListSessions (GSrv w))" for x
  proof -
    obtain i sid where s: "(i, sid) \<in> set (Sessions (GSrv w))" "InfoIMEI x = IMEI (Heap (GSrv w) ! sid)"
      "InfoTBConnected x = tbConnected (Heap (GSrv w) ! sid)"
      using x by (auto simp: ListSessions_def Let_def)
    with m t have "map_of (Sessions (GSrv w)) i = Some sid" "sid < length (Heap (GSrv w))" "InfoIMEI x = i"
      by (auto simp: table_ok_def)
    with s n c show ?thesis by (auto simp: peer_def connected_ok_def)
  qed
  ultimately show ?thesis using t by (simp add: table_ok_def)
qed

theorem sessions_well_formed_witness:
  "\<exists>w :: gworld. ListSessions (GSrv w) \<noteq> [] \<and> distinct (map InfoIMEI (ListSessions (GSrv w)))"
proof -
  obtain w where "occurs demo_deps (Some (New_registry no_checks)) w" "ListSessions (GSrv w) \<noteq> []"
    using demo_occurs by blast
  with sessions_well_formed [of demo_deps no_checks w] show ?thesis by blast
qed

end
