(* ===== verification/Shutdown.thy ===== *)
theory Shutdown
  imports Refinement
begin

text \<open>
  The end of the gateway (\<open>Shutdown\<close> in \<open>server.go\<close>), at the granularity of its locks: it waits
  for every connection that was counted, it can always complete, whatever the goroutines were
  doing when it began, and a connection that \<open>Accept\<close> has returned but the loop has not yet
  counted escapes it.
\<close>

section \<open>The wait\<close>

text \<open>A connection that is served ends by hanging up only.\<close>

definition being_served :: "nat \<Rightarrow> gworld \<Rightarrow> bool" where
  "being_served c w \<longleftrightarrow> (case Routines w c of None \<Rightarrow> False | Some r \<Rightarrow> variables (Phase r) \<noteq> None)"

text \<open>The connections that are served or will be, once the listener is closed.\<close>

definition counted :: "gworld \<Rightarrow> nat set" where
  "counted w = dom (Routines w) \<union> (if Accepted w = None then {} else {GNext w})"

lemmas move_defs = m_accept_def m_serve_def m_receive_def m_frame_def m_step_def m_hang_up_def m_go_def m_thread_def
  m_command_def m_rpc_def m_debug_def m_shutdown_def m_close_listener_def

lemma move_served: "move d m w = Some w' \<Longrightarrow> being_served c w \<Longrightarrow> m \<noteq> MHangUp c \<Longrightarrow> being_served c w'"
  by (cases m) (auto simp: move_defs being_served_def Let_def
      split: if_splits option.splits phase.splits sum.splits prog.splits prod.splits)

lemma moves_served: "moves d ms w = Some w' \<Longrightarrow> being_served c w \<Longrightarrow> MHangUp c \<notin> set ms \<Longrightarrow> being_served c w'"
  by (induction ms arbitrary: w) (auto simp: bind_eq_Some_conv dest: move_served)

lemma move_counted:
  "move d m w = Some w' \<Longrightarrow> \<not> GListening w \<Longrightarrow> \<not> GListening w' \<and> counted w' \<subseteq> counted w"
  by (cases m) (auto simp: move_defs counted_def Let_def
      split: if_splits option.splits phase.splits sum.splits prog.splits prod.splits)

lemma moves_counted: "moves d ms w = Some w' \<Longrightarrow> \<not> GListening w \<Longrightarrow> \<not> GListening w' \<and> counted w' \<subseteq> counted w"
proof (induction ms arbitrary: w)
  case (Cons m ms)
  then obtain w1 where "move d m w = Some w1" "moves d ms w1 = Some w'" by (auto simp: bind_eq_Some_conv)
  with Cons move_counted [of d m w w1] show ?case by (meson order_trans)
qed simp

section \<open>Every goroutine of a connection can end\<close>

text \<open>The turns in which the gateway only finishes what it has begun.\<close>

fun settles :: "turn \<Rightarrow> bool" where
  "settles (MFrame c) = True"
| "settles (MStep c) = True"
| "settles (MHangUp c) = True"
| "settles MServe = True"
| "settles MCloseListener = True"
| "settles _ = False"

abbreviation ends :: "deps \<Rightarrow> nat \<Rightarrow> gworld \<Rightarrow> bool" where
  "ends d c w \<equiv> \<exists>ms s. moves d ms w = Some (w\<lparr>GSrv := s, Routines := (Routines w)(c := None)\<rparr>) \<and> (\<forall>m \<in> set ms. settles m)"

lemma ends_after:
  assumes "moves d ms w = Some (w\<lparr>GSrv := s, Routines := (Routines w)(c \<mapsto> r)\<rparr>)"
    and "ends d c (w\<lparr>GSrv := s, Routines := (Routines w)(c \<mapsto> r)\<rparr>)" "\<forall>m \<in> set ms. settles m"
  shows "ends d c w"
proof -
  let ?w = "w\<lparr>GSrv := s, Routines := (Routines w)(c \<mapsto> r)\<rparr>"
  obtain ns s' where n: "moves d ns ?w = Some (?w\<lparr>GSrv := s', Routines := (Routines ?w)(c := None)\<rparr>)" "\<forall>m \<in> set ns. settles m"
    using assms(2) by blast
  have "?w\<lparr>GSrv := s', Routines := (Routines ?w)(c := None)\<rparr> = w\<lparr>GSrv := s', Routines := (Routines w)(c := None)\<rparr>" by simp
  with assms n have "moves d (ms @ ns) w = Some (w\<lparr>GSrv := s', Routines := (Routines w)(c := None)\<rparr>)"
    "\<forall>m \<in> set (ms @ ns). settles m" by (auto simp: moves_append)
  then show ?thesis by blast
qed

lemma ending_ends:
  assumes "Routines w c = Some r" "Phase r = Ending p"
  shows "ends d c w"
proof -
  obtain s' where "runp p (GSrv w) = ((), s')" by (cases "runp p (GSrv w)") auto
  from ending_moves [OF assms this, of d] obtain k where
    "moves d (replicate k (MStep c)) w = Some (w\<lparr>GSrv := s', Routines := (Routines w)(c := None)\<rparr>)" ..
  then show ?thesis by (intro exI [of _ "replicate k (MStep c)"] exI [of _ s']) auto
qed

lemma handling_ends:
  assumes "Routines w c = Some r" "Phase r = Handling l p" "runp p (GSrv w) = (Some l', s')"
    and "ends d c (w\<lparr>GSrv := s', Routines := (Routines w)(c \<mapsto> r\<lparr>Phase := Reading l'\<rparr>)\<rparr>)"
  shows "ends d c w"
proof -
  obtain k where "moves d (replicate k (MStep c)) w =
      Some (w\<lparr>GSrv := s', Routines := (Routines w)(c \<mapsto> r\<lparr>Phase := Reading l'\<rparr>)\<rparr>)"
    using handler_moves [OF assms(1-3), of d] ..
  from ends_after [OF this assms(4)] show ?thesis by simp
qed

lemma reading_ends:
  fixes u :: unit
  shows "Routines w c = Some r \<Longrightarrow> Phase r = Reading l \<Longrightarrow> RBuf r = buf \<Longrightarrow> ends d c w"
proof (induction buf u arbitrary: w r l rule: drain_induct)
  case (incomplete buf u)
  let ?w = "w\<lparr>GSrv := GSrv w, Routines := (Routines w)(c \<mapsto> r\<lparr>Phase := Ending (cleanup_p d c l)\<rparr>)\<rparr>"
  have "moves d [MHangUp c] w = Some ?w" using incomplete by (simp add: m_hang_up_def idle_def)
  moreover have "ends d c ?w" by (rule ending_ends [where r = "r\<lparr>Phase := Ending (cleanup_p d c l)\<rparr>" and p = "cleanup_p d c l"]) simp_all
  ultimately show ?case by (rule ends_after) simp
next
  case (resync buf u e n)
  let ?w = "w\<lparr>GSrv := GSrv w, Routines := (Routines w)(c \<mapsto> r\<lparr>RBuf := drop n buf\<rparr>)\<rparr>"
  have "moves d [MFrame c] w = Some ?w" using resync by (simp add: m_frame_def resync_def)
  moreover have "ends d c ?w" by (rule resync.IH [where r = "r\<lparr>RBuf := drop n buf\<rparr>" and l = l]) (use resync.prems in simp_all)
  ultimately show ?case by (rule ends_after) simp
next
  case (frame buf u f n)
  let ?p = "handleFrame_p d c (RRemote r) f l" and ?r = "r\<lparr>Phase := Handling l (handleFrame_p d c (RRemote r) f l), RBuf := drop n buf\<rparr>"
  let ?w = "w\<lparr>GSrv := GSrv w, Routines := (Routines w)(c \<mapsto> ?r)\<rparr>"
  have m: "moves d [MFrame c] w = Some ?w" using frame by (simp add: m_frame_def)
  obtain l' s' where "handleFrame d c (RRemote r) f (l, GSrv w) = Some (l', s')"
    using handleFrame_total by (metis prod.exhaust)
  with handleFrame_run [of d c "RRemote r" f l "GSrv w"] have run: "runp ?p (GSrv ?w) = (Some l', s')"
    by (auto simp: handled_def prod_eq_iff)
  have "ends d c ?w"
  proof (rule handling_ends [OF _ _ run])
    show "ends d c (?w\<lparr>GSrv := s', Routines := (Routines ?w)(c \<mapsto> ?r\<lparr>Phase := Reading l'\<rparr>)\<rparr>)"
      by (rule frame.IH [where r = "?r\<lparr>Phase := Reading l'\<rparr>" and l = l']) simp_all
  qed simp_all
  with m show ?case by (rule ends_after) simp
qed

lemma safe_run:
  "safe I R G Q p s \<Longrightarrow> I s \<Longrightarrow> \<forall>s. R s s \<Longrightarrow> Q (fst (runp p s)) (snd (runp p s))"
proof (induction p arbitrary: s)
  case (Act f g)
  with Act.IH [OF rangeI [of g s]] show ?case by simp
qed simp

lemma routine_ends:
  assumes w: "ginv d r0 w" and r: "Routines w c = Some r"
  shows "ends d c w"
proof (cases "Phase r")
  case (Reading l)
  with reading_ends [OF r] show ?thesis by blast
next
  case (Handling l p)
  have "phase_ok d r0 c (Phase r) (GSrv w)" "sinv d r0 (GSrv w)" using w r unfolding ginv_def by blast+
  then have "\<exists>l'. fst (runp p (GSrv w)) = Some l'"
    unfolding Handling phase_ok.simps using safe_run [where R = "relies c"] relies_refl by fast
  then obtain l' s' where "runp p (GSrv w) = (Some l', s')" by (cases "runp p (GSrv w)") auto
  then show ?thesis
  proof (rule handling_ends [OF r Handling])
    show "ends d c (w\<lparr>GSrv := s', Routines := (Routines w)(c \<mapsto> r\<lparr>Phase := Reading l'\<rparr>)\<rparr>)"
      by (rule reading_ends [where r = "r\<lparr>Phase := Reading l'\<rparr>" and l = l']) simp_all
  qed
qed (use ending_ends [OF r] in blast)

lemma ginv_moves: "ginv d r0 w \<Longrightarrow> moves d ms w = Some w' \<Longrightarrow> ginv d r0 w'"
  by (induction ms arbitrary: w) (auto simp: bind_eq_Some_conv intro: ginv_move)

lemma all_end:
  assumes "ginv d r0 w"
  shows "\<exists>ms s. moves d ms w = Some (w\<lparr>GSrv := s, Routines := (\<lambda>_. None)\<rparr>) \<and> (\<forall>m \<in> set ms. settles m)"
  using assms
proof (induction "card (dom (Routines w))" arbitrary: w)
  case 0
  have "dom (Routines w) \<subseteq> {..<GNext w}" using 0(2) by (auto simp: ginv_def)
  then have "finite (dom (Routines w))" by (rule finite_subset) simp
  with 0 have "Routines w = (\<lambda>_. None)" by (auto simp: fun_eq_iff)
  then show ?case by (intro exI [of _ "[]"] exI [of _ "GSrv w"]) simp
next
  case (Suc k)
  then obtain c r where c: "Routines w c = Some r"
    by (metis card.empty domIff equals0I nat.distinct(1) option.exhaust)
  obtain ms s where m: "moves d ms w = Some (w\<lparr>GSrv := s, Routines := (Routines w)(c := None)\<rparr>)" (is "_ = Some ?w")
    "\<forall>m \<in> set ms. settles m" using routine_ends [OF Suc.prems c] by blast
  have "finite (dom (Routines w))" using Suc.hyps(2) card_ge_0_finite by force
  moreover have "dom (Routines ?w) = dom (Routines w) - {c}" "c \<in> dom (Routines w)" using c by (auto simp: dom_def)
  ultimately have "k = card (dom (Routines ?w))" using Suc.hyps(2) by simp
  from Suc.hyps(1) [OF this ginv_moves [OF Suc.prems m(1)]] obtain ns s' where
    "moves d ns ?w = Some (?w\<lparr>GSrv := s', Routines := (\<lambda>_. None)\<rparr>)" "\<forall>m \<in> set ns. settles m" by blast
  with m show ?case by (intro exI [of _ "ms @ ns"] exI [of _ s']) (auto simp: moves_append)
qed

section \<open>Properties\<close>

text \<open>C10. Shutdown can always complete. Whatever the goroutines were doing when it began, also in the
  middle of a handler: the listener can be closed, a connection that was accepted is counted
  and served, and every connection can be drained and ended, without any further input, until
  nothing is left to wait for. No connection can get stuck in its loop or in a handler.\<close>

theorem shutdown_can_complete:
  assumes "occurs d (Some (New_registry cfg)) w" "GClosing w"
  shows "\<exists>ms w'. moves d ms w = Some w' \<and> wait_over w' \<and> Accepted w' = None \<and> (\<forall>m \<in> set ms. settles m)"
proof -
  let ?w = "w\<lparr>GListening := False\<rparr>"
  have c: "moves d [MCloseListener] w = Some ?w" using assms(2) by (simp add: m_close_listener_def)
  obtain ms w1 where s: "moves d ms ?w = Some w1" "Accepted w1 = None" "GClosing w1" "\<not> GListening w1" "\<forall>m \<in> set ms. settles m"
  proof (cases "Accepted w")
    case None
    with that [of "[]" ?w] assms(2) show ?thesis by simp
  next
    case (Some remote)
    with that [of "[MServe]"] assms(2) show ?thesis by (simp add: m_serve_def)
  qed
  have "ginv d (New_registry cfg) w1"
    by (rule ginv_moves [OF ginv_moves [OF occurs_ginv [OF assms(1)] c] s(1)])
  from all_end [OF this] obtain ns t where
    n: "moves d ns w1 = Some (w1\<lparr>GSrv := t, Routines := (\<lambda>_. None)\<rparr>)" "\<forall>m \<in> set ns. settles m" by blast
  with c s show ?thesis
    by (intro exI [of _ "[MCloseListener] @ ms @ ns"] exI [of _ "w1\<lparr>GSrv := t, Routines := (\<lambda>_. None)\<rparr>"])
      (auto simp: wait_over_def moves_append simp del: append_Cons)
qed

theorem shutdown_can_complete_witness:
  "\<exists>ms w'. moves demo_deps ms ((g_start (Some (New_registry no_checks)))\<lparr>Accepted := Some ''r'', GClosing := True\<rparr>) = Some w' \<and> wait_over w'"
proof -
  let ?w = "(g_start (Some (New_registry no_checks)))\<lparr>Accepted := Some ''r'', GClosing := True\<rparr>"
  have "moves demo_deps [MAccept ''r'', MShutdown] (g_start (Some (New_registry no_checks))) = Some ?w"
    by (simp add: m_accept_def m_shutdown_def g_start_def)
  from occurs_moves [OF occurs.init this] have "occurs demo_deps (Some (New_registry no_checks)) ?w" .
  from shutdown_can_complete [OF this] show ?thesis by auto
qed

text \<open>C38. Shutdown waits. Whatever else happens, as long as one connection does not hang up the wait
  is not over: a tracker that keeps sending keeps the gateway from shutting down, since nothing
  in \<open>Shutdown\<close> closes the connections. But once the listener is closed nobody else joins: the
  connections served from then on are those that were, and the one that was accepted.\<close>

theorem shutdown_waits_for_connections:
  assumes "moves d ms w = Some w'"
  shows "(\<forall>c. being_served c w \<and> MHangUp c \<notin> set ms \<longrightarrow> being_served c w' \<and> \<not> wait_over w') \<and>
    (\<not> GListening w \<longrightarrow> \<not> GListening w' \<and> counted w' \<subseteq> counted w)"
proof -
  have "\<not> wait_over w'" if "being_served c w'" for c
    using that by (auto simp: wait_over_def being_served_def split: option.splits)
  with moves_served [OF assms] moves_counted [OF assms] show ?thesis by blast
qed

theorem shutdown_waits_for_connections_witness:
  "case moves demo_deps [MAccept ''r'', MServe, MShutdown, MCloseListener, MReceive 0 [0x78]] (g_start None) of
     None \<Rightarrow> False | Some w' \<Rightarrow> \<not> wait_over w'"
proof -
  obtain w1 where w1: "moves demo_deps [MAccept ''r'', MServe] (g_start None) = Some w1" "being_served 0 w1"
    by (simp add: m_accept_def m_serve_def g_start_def being_served_def)
  obtain w' where w': "moves demo_deps [MShutdown, MCloseListener, MReceive 0 [0x78]] w1 = Some w'"
    using w1(1) by (auto simp: m_accept_def m_serve_def m_shutdown_def m_close_listener_def m_receive_def g_start_def New_server_def idle_Nil)
  from shutdown_waits_for_connections [OF w'] w1(2) have "\<not> wait_over w'" by auto
  moreover have "moves demo_deps ([MAccept ''r'', MServe] @ [MShutdown, MCloseListener, MReceive 0 [0x78]]) (g_start None) = Some w'"
    unfolding moves_append using w1(1) w' by (simp only: bind.bind_lunit)
  ultimately show ?thesis by (simp only: append.simps option.case) simp
qed

section \<open>The connection that escapes\<close>

text \<open>
  \<open>Shutdown\<close> can be over while a connection that \<open>Accept\<close> has returned is not yet counted: the
  loop of \<open>ListenAndServe\<close> then counts it and starts its goroutine, which nothing waits for.
\<close>

theorem shutdown_misses_accepted_connection:
  "case moves d [MAccept ''r'', MShutdown, MCloseListener] (g_start reg) of
     None \<Rightarrow> False
   | Some w \<Rightarrow> wait_over w \<and> (case move d MServe w of None \<Rightarrow> False | Some w' \<Rightarrow> being_served 0 w')"
  by (simp add: m_accept_def m_serve_def m_shutdown_def m_close_listener_def g_start_def wait_over_def being_served_def)

end
