(* ===== verification/Main_Gateway.thy ===== *)
theory Main_Gateway
  imports Lifecycle Shutdown
begin

text \<open>
  The program: \<open>cmd/gateway/main.go\<close>, with the creation and connection of the MQTT client
  from \<open>internal/mqtt/client.go\<close>. \<open>gateway_main\<close> is the wiring up to the point where the
  goroutines run; from there the program is a run of the transition system of \<open>Interleaved\<close>.
\<close>

section \<open>Logging\<close>

text \<open>The levels of \<open>log/slog\<close>, in their order; a handler passes the records from its level on.\<close>

datatype log_level = LevelDebug | LevelInfo | LevelWarn | LevelError

fun level_value :: "log_level \<Rightarrow> int" where
  "level_value LevelDebug = -4"
| "level_value LevelInfo = 0"
| "level_value LevelWarn = 4"
| "level_value LevelError = 8"

lemma level_value_inj: "level_value a = level_value b \<Longrightarrow> a = b"
  by (cases a; cases b) simp_all

instantiation log_level :: linorder
begin

definition less_eq_log_level :: "log_level \<Rightarrow> log_level \<Rightarrow> bool" where
  "less_eq_log_level a b \<longleftrightarrow> level_value a \<le> level_value b"

definition less_log_level :: "log_level \<Rightarrow> log_level \<Rightarrow> bool" where
  "less_log_level a b \<longleftrightarrow> level_value a < level_value b"

instance
  by standard (auto simp: less_eq_log_level_def less_log_level_def level_value_inj)

end

definition setupLogging :: "string \<Rightarrow> log_level" where
  "setupLogging level =
     (if level = ''debug'' then LevelDebug
      else if level = ''warn'' then LevelWarn
      else if level = ''error'' then LevelError
      else LevelInfo)"

definition log_enabled :: "log_level \<Rightarrow> log_level \<Rightarrow> bool" where
  "log_enabled handler record \<longleftrightarrow> handler \<le> record"

section \<open>The MQTT client\<close>

text \<open>The options given to the Paho library; durations are in nanoseconds.\<close>

record mqtt_options =
  Broker :: string
  OptClientID :: string
  OptUsername :: string
  OptPassword :: string
  OptKeepAlive :: int
  AutoReconnect :: bool
  ConnectRetry :: bool
  ConnectRetryInterval :: int

definition gateway_options :: "thingsboard_config \<Rightarrow> mqtt_options" where
  "gateway_options cfg =
     \<lparr>Broker = ''tcp://'' @ Host cfg @ '':'' @ fmt_d (Port cfg), OptClientID = ClientID cfg,
      OptUsername = AccessToken cfg, OptPassword = TBPassword cfg, OptKeepAlive = KeepAlive cfg,
      AutoReconnect = True, ConnectRetry = True, ConnectRetryInterval = 5 * second\<rparr>"

definition NewGatewayClient :: "thingsboard_config \<Rightarrow> string + (mqtt_options \<times> mqtt_client)" where
  "NewGatewayClient cfg = Inr (gateway_options cfg, GatewayClient cfg)"

text \<open>What the library is asked to subscribe to on every connect: the topic and the QoS.\<close>

definition onConnect :: "thingsboard_config \<Rightarrow> string \<times> byte" where
  "onConnect cfg = (''v1/gateway/rpc'', QoS cfg)"

text \<open>Which of the two channels of the \<open>select\<close> is ready first.\<close>

datatype connect_outcome = CtxDone string | TokenDone "string option"

fun gw_Connect :: "connect_outcome \<Rightarrow> string option" where
  "gw_Connect (CtxDone err) = Some err"
| "gw_Connect (TokenDone err) = err"

definition tb_Connect :: "mqtt_client \<Rightarrow> connect_outcome \<Rightarrow> string option" where
  "tb_Connect tb outcome = (case tb of MockClient \<Rightarrow> None | GatewayClient cfg \<Rightarrow> gw_Connect outcome)"

section \<open>The wiring\<close>

text \<open>The running program. \<open>SysRPC\<close> is the executor of the gateway client, if there is one.\<close>

record system =
  SysDeps :: deps
  SysReg :: registry
  SysLevel :: log_level
  SysDebug :: string
  SysRPC :: "server executor option"

definition choose_client :: "thingsboard_config \<Rightarrow> string + mqtt_client" where
  "choose_client cfg =
     (if UseMock cfg then Inr MockClient
      else (case NewGatewayClient cfg of Inl err \<Rightarrow> Inl err | Inr (opts, tb) \<Rightarrow> Inr tb))"

text \<open>\<open>Inl\<close> is the exit status of the program when it does not come up.\<close>

definition gateway_main ::
    "env \<Rightarrow> (string \<Rightarrow> string + string) \<Rightarrow> (string \<Rightarrow> string + config) \<Rightarrow> string \<Rightarrow> connect_outcome \<Rightarrow> int + system" where
  "gateway_main env readFile unmarshal path outcome =
     (case Load readFile unmarshal path of
        Inl err \<Rightarrow> Inl 1
      | Inr cfg \<Rightarrow>
          let level = setupLogging (Level (LoggingCfg cfg));
              geo = NewClient (GeolocationCfg cfg);
              reg = New_registry (PaapeliCfg cfg) in
          (case choose_client (ThingsBoardCfg cfg) of
             Inl err \<Rightarrow> Inl 1
           | Inr tb \<Rightarrow>
               let d = New_deps env tb (Some geo);
                   rpc = (case tb of MockClient \<Rightarrow> None | GatewayClient c \<Rightarrow> Some (ExecuteRPC (SendToDevice d))) in
               (case tb_Connect tb outcome of
                  Some err \<Rightarrow> Inl 1
                | None \<Rightarrow> Inr \<lparr>SysDeps = d, SysReg = reg, SysLevel = level, SysDebug = DebugAPI (ServerCfg cfg), SysRPC = rpc\<rparr>)))"

text \<open>The RPC callback of the running program; the mock client has none.\<close>

definition sys_onRPC :: "system \<Rightarrow> string \<Rightarrow> server \<Rightarrow> server" where
  "sys_onRPC sys payload s =
     (case TB (SysDeps sys) of
        MockClient \<Rightarrow> s
      | GatewayClient cfg \<Rightarrow>
          onRPC (SysRPC sys) (\<lambda>topic v. with_io (gw_publish (Env (SysDeps sys)) cfg topic v)) payload s)"

text \<open>
  The start of \<open>ListenAndServe\<close>: without a listener nothing is served, and the goroutine of
  \<open>main\<close> that called it stops the program. \<open>main\<close> returns, with status 0, when \<open>Shutdown\<close> does.
\<close>

definition g_listen :: "string option \<Rightarrow> registry option \<Rightarrow> gworld" where
  "g_listen err reg = (case err of None \<Rightarrow> g_start reg | Some e \<Rightarrow> m_shutdown ((g_start reg)\<lparr>GListening := False\<rparr>))"

definition main_exit :: "int + system \<Rightarrow> gworld \<Rightarrow> int option" where
  "main_exit r w = (case r of Inl code \<Rightarrow> Some code | Inr sys \<Rightarrow> if wait_over w then Some 0 else None)"

text \<open>A program that cannot listen on its port ends as if all were well.\<close>

theorem listen_failure_exits_zero: "main_exit (Inr sys) (g_listen (Some err) reg) = Some 0"
  by (simp add: main_exit_def g_listen_def m_shutdown_def wait_over_def g_start_def)

lemma gateway_main_cases:
  assumes "gateway_main env readFile unmarshal path outcome = Inr sys"
  obtains cfg tb where "Load readFile unmarshal path = Inr cfg"
    "SysDeps sys = New_deps env tb (Some (NewClient (GeolocationCfg cfg)))"
    "SysReg sys = New_registry (PaapeliCfg cfg)"
    "tb = (if UseMock (ThingsBoardCfg cfg) then MockClient else GatewayClient (ThingsBoardCfg cfg))"
    "SysRPC sys = (if UseMock (ThingsBoardCfg cfg) then None else Some (ExecuteRPC (SendToDevice (SysDeps sys))))"
  using assms
  by (auto simp: gateway_main_def choose_client_def NewGatewayClient_def Let_def split: sum.splits option.splits if_splits)

section \<open>A concrete program\<close>

text \<open>A back end that hands out a token and has every tracker registered; a tracker logs in.\<close>

definition main_env :: env where
  "main_env = demo_env\<lparr>http_do := (\<lambda>k req. Inr \<lparr>StatusCode = 200, RespBody =
     (if Method req = ''POST'' then json_text ''token'' [CHR 0x22, CHR ''T'', CHR 0x22] else json_text ''registered'' ''true'')\<rparr>)\<rparr>"

definition main_start :: "int + system" where
  "main_start = gateway_main main_env (\<lambda>_. Inr '''') (\<lambda>_. Inr demo_config) ''config.yaml'' (TokenDone None)"

text \<open>What the witnesses need of the state that the run ends in.\<close>

definition main_goal :: "system \<Rightarrow> world \<Rightarrow> bool" where
  "main_goal sys w \<longleftrightarrow> Uplink (ConnectCall imei_a) \<in> set (Trace (IO (Srv w))) \<and> peer imei_a (Srv w) = Some 0 \<and> 0 \<notin> Closed (Srv w)"

lemma main_run_reaches:
  "\<exists>sys w. main_start = Inr sys \<and> reachable (SysDeps sys) (Some (SysReg sys)) w \<and> main_goal sys w"
proof -
  have e: "case main_start of Inl _ \<Rightarrow> False
    | Inr sys \<Rightarrow> (case run (SysDeps sys) demo_run (start (Some (SysReg sys))) of None \<Rightarrow> False | Some w \<Rightarrow> main_goal sys w)"
    by code_simp
  then obtain sys where s: "main_start = Inr sys" by (auto split: sum.splits)
  from e have "case run (SysDeps sys) demo_run (start (Some (SysReg sys))) of None \<Rightarrow> False | Some w \<Rightarrow> main_goal sys w"
    by (simp only: s sum.case)
  then obtain w where w: "run (SysDeps sys) demo_run (start (Some (SysReg sys))) = Some w" "main_goal sys w"
    by (auto split: option.splits)
  with reachable_run [OF reachable.init w(1)] s show ?thesis by blast
qed

lemma main_load: "Load (\<lambda>_. Inr '''') (\<lambda>_. Inr demo_config) ''config.yaml'' = Inr demo_config"
  by (rule Load_demo)

section \<open>Properties\<close>

text \<open>The IMEI a call to the uplink client is about.\<close>

fun call_imei :: "tb_call \<Rightarrow> string" where
  "call_imei (ConnectCall imei) = imei"
| "call_imei (TelemetryCall imei ts values) = imei"
| "call_imei (DisconnectCall imei) = imei"

text \<open>C1. Claim before uplink, from the configuration file to the broker. In a program started with
  Paapeli enabled and configured, every device that is ever announced to ThingsBoard, published
  for or taken off line is one that a response of the configured back end, at the tracker URL of
  that IMEI, has called registered; whatever the trackers send, however the goroutines interleave
  between the sections under a lock, and however the back end fails.\<close>

theorem configured_gateway_gates_uplink:
  assumes "gateway_main env readFile unmarshal path outcome = Inr sys" "Load readFile unmarshal path = Inr cfg"
    and "PaapeliEnabled (PaapeliCfg cfg)" "BaseURL (PaapeliCfg cfg) \<noteq> ''''" "Username (PaapeliCfg cfg) \<noteq> ''''"
    and "occurs (SysDeps sys) (Some (SysReg sys)) w" "Uplink u \<in> set (Trace (IO (GSrv w)))"
  shows "confirmed env (strings_TrimRight (BaseURL (PaapeliCfg cfg)) CHR ''/'' @ ''/internal/tracker/'' @ call_imei u)"
proof -
  from assms(1,2) have reg: "SysReg sys = New_registry (PaapeliCfg cfg)" and env: "Env (SysDeps sys) = env"
    by (auto elim!: gateway_main_cases simp: New_deps_def)
  let ?r = "New_registry (PaapeliCfg cfg)"
  have r: "licensed env ?r imei \<Longrightarrow>
      confirmed env (strings_TrimRight (BaseURL (PaapeliCfg cfg)) CHR ''/'' @ ''/internal/tracker/'' @ imei)" for imei
    using assms(3-5) by (simp add: New_registry_def licensed_def tracker_url_def tracker_endpoint_def)
  have ok: "call_ok env ?r before u'" if "Trace (IO (GSrv w)) = before @ Uplink u' # after" for before after u'
    using occurs_call_ok [OF assms(6) [unfolded reg] that] by (simp add: env)
  have connect: "licensed env ?r imei" if c: "Uplink (ConnectCall imei) \<in> set (Trace (IO (GSrv w)))" for imei
  proof -
    obtain b a where "Trace (IO (GSrv w)) = b @ Uplink (ConnectCall imei) # a" using split_list [OF c] by blast
    from ok [OF this] show ?thesis by simp
  qed
  obtain b a where s: "Trace (IO (GSrv w)) = b @ Uplink u # a" using split_list [OF assms(7)] by blast
  have "licensed env ?r (call_imei u)"
    using ok [OF s] connect [of "call_imei u"] s by (cases u) auto
  then show ?thesis by (rule r)
qed

theorem configured_gateway_gates_uplink_witness:
  "confirmed main_env (strings_TrimRight ''https://paapeli.example/'' CHR ''/'' @ ''/internal/tracker/'' @ imei_a)"
proof -
  obtain sys w where s: "main_start = Inr sys" "reachable (SysDeps sys) (Some (SysReg sys)) w"
    "Uplink (ConnectCall imei_a) \<in> set (Trace (IO (Srv w)))"
    using main_run_reaches by (auto simp: main_goal_def)
  obtain n where "occurs (SysDeps sys) (Some (SysReg sys)) (refined n w)" using reachable_occurs [OF s(2)] by blast
  with s configured_gateway_gates_uplink [OF _ main_load, of main_env "TokenDone None" sys "refined n w" "ConnectCall imei_a"]
  show ?thesis by (simp add: main_start_def demo_config_def)
qed

text \<open>C9. A command from ThingsBoard, end to end. In a program that runs against a broker, an RPC
  message that asks for a valid command to a tracker with an open connection puts exactly the
  packet of that command on that connection, and the last thing that is published is the success
  under the device and the id of the request, with the QoS of the configuration.\<close>

theorem rpc_end_to_end:
  assumes "gateway_main env readFile unmarshal path outcome = Inr sys" "Load readFile unmarshal path = Inr cfg"
    and "\<not> UseMock (ThingsBoardCfg cfg)"
    and "decode_rpc payload = Some req" "RDevice req \<noteq> ''''" "RMethod req \<noteq> ''''"
    and "rpc_packet (RMethod req) (RParams req) = Inr pkt"
    and "peer (RDevice req) s = Some c" "writable (SysDeps sys) c s"
  shows "wire (sys_onRPC sys payload s) = wire s @ [(c, pkt)] \<and>
    last (Trace (IO (sys_onRPC sys payload s))) = Published \<lparr>Topic = ''v1/gateway/rpc'',
      PubQoS = QoS (ThingsBoardCfg cfg), Retained = False, Payload =
        AMap [(''device'', AString (RDevice req)), (''id'', AInt (RID req)), (''data'', AMap [(''success'', ABool True)])]\<rparr>"
proof -
  have rpc: "SysRPC sys = Some (ExecuteRPC (SendToDevice (SysDeps sys)))"
    and tb: "TB (SysDeps sys) = GatewayClient (ThingsBoardCfg cfg)"
    using assms(1-3) by (auto simp: New_deps_def elim!: gateway_main_cases)
  obtain s1 where s1: "SendToDevice (SysDeps sys) (RDevice req) pkt s = (None, s1)"
    using assms(8,9) by (auto simp: SendToDevice_def peer_def WriteWithDeadline_def writable_def split: option.splits)
  then have w: "wire s1 = wire s @ [(c, pkt)]"
    using downlink.delivered [OF s1] assms(8) by auto
  let ?p = "AMap [(''device'', AString (RDevice req)), (''id'', AInt (RID req)), (''data'', AMap [(''success'', ABool True)])]"
  have e: "sys_onRPC sys payload s = s1\<lparr>IO := snd (gw_publish (Env (SysDeps sys)) (ThingsBoardCfg cfg) ''v1/gateway/rpc'' ?p (IO s1))\<rparr>"
    using assms(4-7) s1
    by (simp add: sys_onRPC_def onRPC_def rpc_response_json_def rpc tb ExecuteRPC_def with_io_def split: prod.split)
  have "wire (sys_onRPC sys payload s) = wire s1"
    unfolding e by (rule wire_extends) (simp add: gw_publish_def paho_Publish_def extends_log_tick is_wrote_def)
  with w show ?thesis by (simp add: e gw_publish_def paho_Publish_def log_def)
qed

text \<open>\<open>{"device":"861971080061526","data":{"id":7,"method":"reboot"}}\<close>\<close>

definition demo_rpc :: string where
  "demo_rpc = (let q = [CHR 0x22] in
     [CHR 0x7B] @ q @ ''device'' @ q @ '':'' @ q @ imei_a @ q @ '','' @ q @ ''data'' @ q @ '':'' @
     [CHR 0x7B] @ q @ ''id'' @ q @ '':7,'' @ q @ ''method'' @ q @ '':'' @ q @ ''reboot'' @ q @ [CHR 0x7D, CHR 0x7D])"

lemma demo_rpc_decodes: "decode_rpc demo_rpc = Some \<lparr>RDevice = imei_a, RID = 7, RMethod = ''reboot'', RParams = None\<rparr>"
  by code_simp

theorem rpc_end_to_end_witness:
  "\<exists>sys s. main_start = Inr sys \<and> wire (sys_onRPC sys demo_rpc s) = wire s @ [(0, BuildRestart)]"
proof -
  obtain sys and w :: world where m: "main_start = Inr sys" and g: "peer imei_a (Srv w) = Some 0" "0 \<notin> Closed (Srv w)"
    using main_run_reaches by (auto simp: main_goal_def)
  have "Env (SysDeps sys) = main_env"
    using m by (auto simp: main_start_def New_deps_def elim!: gateway_main_cases)
  then have wr: "writable (SysDeps sys) 0 (Srv w)"
    using g by (simp add: writable_def main_env_def demo_env_def)
  have "wire (sys_onRPC sys demo_rpc (Srv w)) = wire (Srv w) @ [(0, BuildRestart)] \<and> True"
    using rpc_end_to_end [OF m [unfolded main_start_def] main_load _ demo_rpc_decodes _ _ _ _ wr, of BuildRestart] g
    by (simp add: demo_config_def imei_a_def rpc_packet_def)
  with m show ?thesis by blast
qed

end
