(* ===== verification/Toy.thy ===== *)
theory Toy
  imports Messages Login Gps
begin

text \<open>
  The packet builders of the tracker simulator, \<open>cmd/toy/main.go\<close>. They are the other end
  of the wire, so they give end-to-end properties of the gateway's parsers. \<open>None\<close> is the
  program's exit in \<open>log.Fatalf\<close>.
\<close>

definition imeiToBCD :: "string \<Rightarrow> byte list go" where
  "imeiToBCD imei =
     (let imei = (if length imei = 15 then CHR ''0'' # imei else imei) in
      if length imei \<noteq> 16 then None
      else Some (map (\<lambda>i. let hi = byte_of_char (imei ! (i * 2)) - 0x30;
                            lo = byte_of_char (imei ! (i * 2 + 1)) - 0x30 in
                        push_bit 4 hi OR lo) [0..<8]))"

definition buildLogin :: "string \<Rightarrow> byte list go" where
  "buildLogin imei = do {
     bcd \<leftarrow> imeiToBCD imei;
     Some ([0x78, 0x78, 0x0A, 0x01] @ bcd @ [0x39] @ [0x0D, 0x0A]) }"

definition buildTimeSyncReq :: "byte list" where
  "buildTimeSyncReq = [0x78, 0x78, 0x01, 0x30, 0x0D, 0x0A]"

definition buildStatus :: "byte list" where
  "buildStatus = [0x78, 0x78, 0x06, 0x13, 0x64, 0x39, 0x03, 0x02, 0x0D, 0x0A]"

text \<open>The clock reading \<open>now\<close> is an argument, as are the coordinates.\<close>

definition buildGPS :: "instant \<Rightarrow> f64 \<Rightarrow> f64 \<Rightarrow> u16 \<Rightarrow> u16 \<Rightarrow> byte list" where
  "buildGPS now lat lon speedKmh heading =
     (let dt = [of_int (time_Year now - 2000), of_int (time_Month now), of_int (time_Day now),
                of_int (time_Hour now), of_int (time_Minute now), of_int (time_Second now)];
          latRaw = of_int (f64_trunc (f64_mul \<bar>lat\<bar> 1800000));
          lonRaw = of_int (f64_trunc (f64_mul \<bar>lon\<bar> 1800000));
          statusByte = (0x34 AND 0xFC) OR (ucast (drop_bit 8 heading) AND 0x03);
          courseByte = ucast (heading AND 0xFF) in
      [0x78, 0x78, 0x12, 0x10] @ dt @ [0x9C] @ be_put32 latRaw @ be_put32 lonRaw @
      [ucast speedKmh] @ [statusByte, courseByte] @ [0x0D, 0x0A])"

section \<open>The simulator's session\<close>

text \<open>
  The \<open>main\<close> of the simulator as the list of packets it sends. \<open>cosine\<close> is \<open>math.Cos\<close>, \<open>r1\<close>
  and \<open>r2\<close> are the two random numbers, and the ticks are those of its two tickers in the order
  in which the \<open>select\<close> takes them; the list ends with the signal. Nothing fails here.
\<close>

definition pi64 :: f64 where "pi64 = 884279719003555 / 281474976710656"

datatype toy_tick = GpsTick instant | StatusTick

definition toy_step_lon :: "(f64 \<Rightarrow> f64) \<Rightarrow> f64 \<Rightarrow> f64 \<Rightarrow> f64" where
  "toy_step_lon cosine lat lon =
     (let dtH = round64 (30 / 3600);
          distKm = f64_mul 5 dtH;
          metersPerDegLon = f64_mul 111320 (cosine (f64_div (f64_mul lat pi64) 180)) in
      f64_add lon (f64_div (f64_mul distKm 1000) metersPerDegLon))"

definition sendGPS :: "instant \<Rightarrow> f64 \<Rightarrow> f64 \<Rightarrow> byte list" where
  "sendGPS now lat lon = buildGPS now lat lon 5 90"

fun toy_loop :: "(f64 \<Rightarrow> f64) \<Rightarrow> f64 \<Rightarrow> f64 \<Rightarrow> toy_tick list \<Rightarrow> byte list list" where
  "toy_loop cosine lat lon [] = []"
| "toy_loop cosine lat lon (GpsTick now # ticks) =
     (let lon = toy_step_lon cosine lat lon in sendGPS now lat lon # toy_loop cosine lat lon ticks)"
| "toy_loop cosine lat lon (StatusTick # ticks) = buildStatus # toy_loop cosine lat lon ticks"

definition toy_main :: "(f64 \<Rightarrow> f64) \<Rightarrow> string \<Rightarrow> f64 \<Rightarrow> f64 \<Rightarrow> instant \<Rightarrow> toy_tick list \<Rightarrow> byte list list go" where
  "toy_main cosine imei r1 r2 now ticks = do {
     login \<leftarrow> buildLogin imei;
     let lat = f64_add (round64 (356892 / 10000)) (f64_mul (f64_sub r1 (1 / 2)) (round64 (5 / 100)));
     let lon = f64_add (round64 (513890 / 10000)) (f64_mul (f64_sub r2 (1 / 2)) (round64 (5 / 100)));
     Some ([login, buildTimeSyncReq, sendGPS now lat lon] @ toy_loop cosine lat lon ticks) }"

text \<open>
  The program with its errors: \<open>dial\<close> is the error of \<open>net.Dial\<close>, and \<open>net k\<close> that of the write
  number \<open>k\<close>, with the number of bytes that went out before it. A login or a time-sync request that cannot be sent ends the program, as does a
  status; a position that cannot be sent is skipped.
\<close>

datatype toy_end = ToyFatal | ToyReturned

definition toy_send :: "(nat \<Rightarrow> (string \<times> nat) option) \<Rightarrow> nat \<Rightarrow> byte list \<Rightarrow> string option \<times> byte list list" where
  "toy_send net k pkt = (case net k of None \<Rightarrow> (None, [pkt]) | Some (err, n) \<Rightarrow> (Some err, [take n pkt]))"

fun toy_ticks ::
    "(nat \<Rightarrow> (string \<times> nat) option) \<Rightarrow> (f64 \<Rightarrow> f64) \<Rightarrow> nat \<Rightarrow> f64 \<Rightarrow> f64 \<Rightarrow> toy_tick list \<Rightarrow> byte list list \<times> toy_end" where
  "toy_ticks net cosine k lat lon [] = ([], ToyReturned)"
| "toy_ticks net cosine k lat lon (GpsTick now # ticks) =
     (let lon = toy_step_lon cosine lat lon;
          (err, out) = toy_send net k (sendGPS now lat lon);
          (rest, fin) = toy_ticks net cosine (Suc k) lat lon ticks in
      (out @ rest, fin))"
| "toy_ticks net cosine k lat lon (StatusTick # ticks) =
     (case toy_send net k buildStatus of
        (Some err, out) \<Rightarrow> (out, ToyReturned)
      | (None, out) \<Rightarrow> (let (rest, fin) = toy_ticks net cosine (Suc k) lat lon ticks in (out @ rest, fin)))"

definition toy_run ::
    "string option \<Rightarrow> (nat \<Rightarrow> (string \<times> nat) option) \<Rightarrow> (f64 \<Rightarrow> f64) \<Rightarrow> string \<Rightarrow> f64 \<Rightarrow> f64 \<Rightarrow> instant \<Rightarrow> toy_tick list \<Rightarrow>
     byte list list \<times> toy_end" where
  "toy_run dial net cosine imei r1 r2 now ticks =
     (if dial \<noteq> None then ([], ToyFatal)
      else
        (case buildLogin imei of
           None \<Rightarrow> ([], ToyFatal)
         | Some login \<Rightarrow>
             let (err0, out0) = toy_send net 0 login in
             if err0 \<noteq> None then (out0, ToyFatal)
             else
               let (err1, out1) = toy_send net 1 buildTimeSyncReq in
               if err1 \<noteq> None then (out0 @ out1, ToyFatal)
               else
                 let lat = f64_add (round64 (356892 / 10000)) (f64_mul (f64_sub r1 (1 / 2)) (round64 (5 / 100)));
                     lon = f64_add (round64 (513890 / 10000)) (f64_mul (f64_sub r2 (1 / 2)) (round64 (5 / 100)));
                     (err2, out2) = toy_send net 2 (sendGPS now lat lon);
                     (rest, fin) = toy_ticks net cosine 3 lat lon ticks in
                 (out0 @ out1 @ out2 @ rest, fin)))"

text \<open>When nothing fails.\<close>

lemma toy_ticks_ok: "toy_ticks (\<lambda>_. None) cosine k lat lon ticks = (toy_loop cosine lat lon ticks, ToyReturned)"
  by (induction cosine lat lon ticks arbitrary: k rule: toy_loop.induct) (simp_all add: toy_send_def Let_def)

lemma toy_run_ok:
  "toy_run None (\<lambda>_. None) cosine imei r1 r2 now ticks =
     (case toy_main cosine imei r1 r2 now ticks of None \<Rightarrow> ([], ToyFatal) | Some pkts \<Rightarrow> (pkts, ToyReturned))"
  by (cases "buildLogin imei") (simp_all add: toy_run_def toy_main_def toy_send_def toy_ticks_ok Let_def)

section \<open>The messages are well-formed\<close>

lemma wf_exact_content:
  assumes "\<not> is_wifi (msg_proto m)" "length (msg_content m) = min_content (msg_proto m)"
  shows "wf_message m"
  using assms by (simp add: wf_message_def first_trailer_hit trailer_at_def nth_append)

section \<open>The IMEI survives the trip\<close>

lemma digit_nibble:
  assumes "is_digit c"
  shows "unat (byte_of_char c - 0x30) = of_char c - 48" "(of_char c :: nat) - 48 < 10"
proof -
  have n: "48 \<le> (of_char c :: nat)" "(of_char c :: nat) \<le> 57" using assms by (simp_all add: is_digit_def)
  then have "unat (byte_of_char c) = of_char c"
    by (simp add: byte_of_char_def unat_of_nat)
  with n show "unat (byte_of_char c - 0x30) = of_char c - 48" "(of_char c :: nat) - 48 < 10"
    by (simp_all add: unat_sub word_le_nat_alt)
qed

lemma nibble_of_digit: "is_digit c \<Longrightarrow> nibble_digit (unat (byte_of_char c - 0x30)) = c"
  using digit_nibble [of c] by (simp add: nibble_digit_def digit_char_def is_digit_def)

lemma pack_nibbles:
  fixes hi lo :: byte
  assumes "unat hi < 16" "unat lo < 16"
  shows "unat (push_bit 4 hi OR lo) = unat hi * 16 + unat lo"
proof -
  have "push_bit 4 hi AND lo = 0"
  proof (rule bit_word_eqI)
    fix n
    have "\<not> bit lo n" if "4 \<le> n"
    proof -
      have "unat lo < 2 ^ n" using assms(2) power_increasing [OF that, of "2::nat"] by simp
      then have "\<not> bit (unat lo) n" by (simp add: bit_iff_odd)
      then show ?thesis by (simp add: bit_unsigned_iff)
    qed
    then show "bit (push_bit 4 hi AND lo) n = bit 0 n"
      by (auto simp: bit_simps)
  qed
  then have "push_bit 4 hi OR lo = push_bit 4 hi + lo"
    by (simp add: disjunctive_add_eq_or)
  then show ?thesis
    using assms by (simp add: push_bit_eq_mult unat_word_ariths)
qed

lemma bcd_pack:
  assumes "is_digit a" "is_digit b"
  shows "[nibble_digit (unat (push_bit 4 (byte_of_char a - 0x30) OR (byte_of_char b - 0x30)) div 16),
     nibble_digit (unat (push_bit 4 (byte_of_char a - 0x30) OR (byte_of_char b - 0x30)) mod 16)] = [a, b]"
proof -
  have "unat (byte_of_char a - 0x30) < 16" "unat (byte_of_char b - 0x30) < 16"
    using digit_nibble [OF assms(1)] digit_nibble [OF assms(2)] by simp_all
  then show ?thesis
    using assms by (simp add: pack_nibbles nibble_of_digit)
qed

lemma upt_8: "[0..<8] = [0, 1, 2, 3, 4, 5, 6, 7::nat]"
  by (simp add: upt_rec)

lemma list_16:
  assumes "length xs = 16"
  obtains a b c d e f g h i j k l m n p q where "xs = [a, b, c, d, e, f, g, h, i, j, k, l, m, n, p, q]"
  using assms by (auto simp: length_Suc_conv numeral_eq_Suc)

lemma bcd_string_pairs:
  assumes "length s = 16" "list_all is_digit s"
  shows "bcd_string (map (\<lambda>i. push_bit 4 (byte_of_char (s ! (i * 2)) - 0x30)
      OR (byte_of_char (s ! (i * 2 + 1)) - 0x30)) [0..<8]) = s"
proof -
  obtain a b c d e f g h i j k l m n p q where s: "s = [a, b, c, d, e, f, g, h, i, j, k, l, m, n, p, q]"
    using assms(1) by (rule list_16)
  from assms(2) s show ?thesis
    by (simp add: upt_8 bcd_string_def bcd_pack)
qed

lemma imeiToBCD_parse:
  assumes "length imei = 15" "list_all is_digit imei" "imeiToBCD imei = Some bcd"
  shows "length bcd = 8" "ParseLogin (bcd @ t) = Some (Inr imei)"
proof -
  let ?s = "CHR ''0'' # imei"
  have z: "is_digit CHR ''0''" by (simp add: is_digit_def)
  have bcd: "bcd = map (\<lambda>i. push_bit 4 (byte_of_char (?s ! (i * 2)) - 0x30)
      OR (byte_of_char (?s ! (i * 2 + 1)) - 0x30)) [0..<8]"
    using assms(1,3) by (simp add: imeiToBCD_def Let_def)
  then show l: "length bcd = 8" by simp
  have "bcd_string bcd = ?s"
    unfolding bcd using assms(1,2) z by (intro bcd_string_pairs) simp_all
  with l show "ParseLogin (bcd @ t) = Some (Inr imei)"
    by (simp add: ParseLogin_eq)
qed

section \<open>The position survives the trip\<close>

lemma f64_trunc_bounds: "0 \<le> x \<Longrightarrow> 0 \<le> f64_trunc x \<and> of_int (f64_trunc x) \<le> x \<and> x < of_int (f64_trunc x) + 1"
  using floor_correct [of x] by (simp add: f64_trunc_def)

text \<open>The raw field of a coordinate, as the simulator computes it.\<close>

definition raw_coord :: "f64 \<Rightarrow> u32" where
  "raw_coord x = of_int (f64_trunc (f64_mul \<bar>x\<bar> 1800000))"

lemma raw_coord_bounds:
  assumes "\<bar>x\<bar> \<le> 180"
  shows "\<bar>of_int (uint (raw_coord x)) - \<bar>x\<bar> * 1800000\<bar> \<le> 1 + 1 / 2 ^ 20"
proof -
  define y where "y = \<bar>x\<bar> * 1800000"
  have y: "0 \<le> y" "y < 2 ^ 33" "y \<le> 324000000" using assms by (simp_all add: y_def)
  have r: "0 \<le> round64 y \<and> \<bar>round64 y - y\<bar> \<le> 1 / 2 ^ 20"
  proof (cases "y = 0")
    case False
    with y have "0 < y" by simp
    moreover have "y < two_pow 33" using y by (simp add: two_pow_def)
    ultimately have "0 < round64 y" "\<bar>round64 y - y\<bar> \<le> two_pow (33 - 54)"
      by (simp add: round64_pos, intro round64_bound)
    then show ?thesis by (simp add: two_pow_def)
  qed simp
  define t where "t = f64_trunc (round64 y)"
  have t: "0 \<le> t" "of_int t \<le> round64 y" "round64 y < of_int t + 1"
    using f64_trunc_bounds [of "round64 y"] r by (simp_all add: t_def)
  have "round64 y - y \<le> 1" using r by (simp only: abs_le_iff) simp
  then have "(of_int t :: rat) < of_int (2 ^ 32)"
    using t(2) y(3) by simp
  then have "t < 2 ^ 32" by (simp only: of_int_less_iff)
  with t(1) have "uint (raw_coord x) = t"
    by (simp add: raw_coord_def f64_mul_def y_def [symmetric] t_def [symmetric] uint_word_of_int_eq take_bit_int_eq_self)
  moreover have "\<bar>of_int t - y\<bar> \<le> 1 + 1 / 2 ^ 20"
  proof -
    have "round64 y - y \<le> 1 / 2 ^ 20" "- (round64 y - y) \<le> 1 / 2 ^ 20"
      using r by (simp_all only: abs_le_iff)
    with t(2,3) show ?thesis unfolding abs_le_iff by simp
  qed
  ultimately show ?thesis by (simp only: y_def)
qed

lemma degrees_raw_coord:
  assumes "\<bar>x\<bar> \<le> 180"
  shows "\<bar>degrees (raw_coord x) - \<bar>x\<bar>\<bar> \<le> 1 / 1700000"
proof -
  define r where "r = (of_int (uint (raw_coord x)) :: rat)"
  have "\<bar>r - \<bar>x\<bar> * 1800000\<bar> \<le> 1 + 1 / 2 ^ 20" "\<bar>degrees (raw_coord x) - r / 1800000\<bar> \<le> 1 / 2 ^ 42"
    using raw_coord_bounds [OF assms] degrees_error [of "raw_coord x"] by (simp_all only: r_def)
  moreover from this(1) have "\<bar>r / 1800000 - \<bar>x\<bar>\<bar> \<le> (1 + 1 / 2 ^ 20) / 1800000"
    by (simp only: abs_le_iff) simp
  ultimately have "\<bar>degrees (raw_coord x) - \<bar>x\<bar>\<bar> \<le> 1 / 2 ^ 42 + (1 + 1 / 2 ^ 20) / 1800000"
    by linarith
  also have "\<dots> \<le> 1 / 1700000" by simp
  finally show ?thesis .
qed

text \<open>The course/status word and the date the simulator puts in the packet.\<close>

definition toy_cs :: "u16 \<Rightarrow> u16" where
  "toy_cs heading = ucast (ucast (heading AND 0xFF) :: byte)
     OR push_bit 8 (ucast ((0x34 AND 0xFC) OR (ucast (drop_bit 8 heading) AND 0x03) :: byte))"

definition toy_datetime :: "instant \<Rightarrow> byte list" where
  "toy_datetime now = [of_int (time_Year now - 2000), of_int (time_Month now), of_int (time_Day now),
     of_int (time_Hour now), of_int (time_Minute now), of_int (time_Second now)]"

lemma toy_cs_facts:
  "be_put16 (toy_cs heading) =
     [(0x34 AND 0xFC) OR (ucast (drop_bit 8 heading) AND 0x03), ucast (heading AND 0xFF)]"
  "toy_cs heading AND 0x03FF = heading AND 0x03FF"
proof -
  define sb cb :: byte where "sb = (0x34 AND 0xFC) OR (ucast (drop_bit 8 heading) AND 0x03)"
    and "cb = ucast (heading AND 0xFF)"
  define cs :: u16 where "cs = ucast cb OR push_bit 8 (ucast sb)"
  have [simp]: "\<not> bit cb (8 + n)" for n
    using bit_imp_le_length [of cb "8 + n"] by auto
  have "be_put16 cs = [sb, cb]"
    unfolding be_put16_def cs_def by (auto intro!: bit_word_eqI simp: bit_simps dest: bit_imp_le_length)
  moreover have "cs AND mask 10 = heading AND mask 10"
  proof (rule bit_word_eqI)
    fix n :: nat
    have low: "\<not> bit (0x34 AND 0xFC :: byte) 0" "\<not> bit (0x34 AND 0xFC :: byte) 1"
      by simp_all
    have m: "(0xFF :: u16) = mask 8" "(0x03 :: byte) = mask 2"
      by (simp_all add: mask_eq_exp_minus_1)
    have cb: "bit cb n = (n < 8 \<and> bit heading n)" for n
      unfolding cb_def m by (auto simp: bit_simps dest: bit_imp_le_length)
    have sb: "bit sb 0 = bit heading 8" "bit sb 1 = bit heading 9"
      unfolding sb_def m bit_or_iff by (simp_all add: low bit_simps del: bit_0)
    consider "n < 8" | "n = 8" | "n = 9" | "10 \<le> n" by linarith
    then show "bit (cs AND mask 10) n = bit (heading AND mask 10) n"
      by cases (auto simp: cs_def bit_simps cb sb [simplified One_nat_def] simp del: bit_0)
  qed
  then have "cs AND 0x03FF = heading AND 0x03FF" by (simp add: mask_eq_exp_minus_1)
  ultimately show "be_put16 (toy_cs heading) =
      [(0x34 AND 0xFC) OR (ucast (drop_bit 8 heading) AND 0x03), ucast (heading AND 0xFF)]"
    "toy_cs heading AND 0x03FF = heading AND 0x03FF"
    by (simp_all only: cs_def sb_def cb_def toy_cs_def)
qed

lemma buildGPS_body:
  "buildGPS now lat lon speed heading = [0x78, 0x78, 0x12, 0x10] @
     gps_body (toy_datetime now) 0x9C (raw_coord lat) (raw_coord lon) (ucast speed) (toy_cs heading) [] @
     [0x0D, 0x0A]"
  unfolding gps_body_def toy_cs_facts by (simp add: buildGPS_def toy_datetime_def raw_coord_def Let_def)

lemma toy_course:
  assumes "uint heading < 1024"
  shows "uint (toy_cs heading AND 0x03FF) = uint heading"
proof -
  have "heading AND mask 10 = heading"
    using assms
    by (simp add: word_uint_eq_iff unsigned_take_bit_eq take_bit_int_eq_self flip: take_bit_eq_mask)
  then show ?thesis by (simp add: toy_cs_facts mask_eq_exp_minus_1)
qed

section \<open>Properties\<close>

text \<open>C22. End to end, login: the simulator's login packet is extracted as one frame of protocol
  0x01, from which \<open>ParseLogin\<close> reads the IMEI the simulator was started with.\<close>

theorem simulated_login_end_to_end:
  assumes "length imei = 15" "list_all is_digit imei"
  shows "\<exists>pkt f. buildLogin imei = Some pkt \<and> ExtractFrame (pkt @ rest) = Some (Inr (f, length pkt)) \<and>
    Proto f = MsgLogin \<and> ParseLogin (Body f) = Some (Inr imei)"
proof -
  obtain bcd where b: "imeiToBCD imei = Some bcd"
    using assms(1) by (simp add: imeiToBCD_def Let_def)
  let ?m = "Short 0x0A 0x01 (bcd @ [0x39])"
  have "wf_message ?m"
    using imeiToBCD_parse(1) [OF assms b] by (intro wf_exact_content) (simp_all add: is_wifi_def min_content_def msg_defs)
  from extract_encode [OF this, of rest] imeiToBCD_parse(2) [OF assms b, of "[0x39]"] b show ?thesis
    by (simp add: buildLogin_def encode_def msg_frame_def msg_defs)
qed

theorem simulated_login_end_to_end_witness:
  "\<exists>pkt f. buildLogin ''861971080061526'' = Some pkt \<and> ExtractFrame (pkt @ []) = Some (Inr (f, length pkt)) \<and>
    Proto f = MsgLogin \<and> ParseLogin (Body f) = Some (Inr ''861971080061526'')"
  by (rule simulated_login_end_to_end) (simp_all add: is_digit_def)

text \<open>C21. End to end, GPS: the simulator's packet is extracted as one frame of protocol 0x10,
  and \<open>ParseGPS\<close> reads from it the absolute coordinates to within 1/1700000 degree (some
  6.5 cm on the equator), the heading up to 1023 and the speed up to 255.\<close>

theorem simulated_gps_end_to_end:
  assumes "\<bar>lat\<bar> \<le> 90" "\<bar>lon\<bar> \<le> 180" "uint speed < 256" "uint heading < 1024"
  shows "\<exists>f p. ExtractFrame (buildGPS now lat lon speed heading @ rest) = Some (Inr (f, 24)) \<and>
    Proto f = MsgGPS \<and> ParseGPS (Body f) = Some (Inr p) \<and>
    \<bar>Latitude p - \<bar>lat\<bar>\<bar> \<le> 1 / 1700000 \<and> \<bar>Longitude p - \<bar>lon\<bar>\<bar> \<le> 1 / 1700000 \<and>
    SpeedKmh p = of_int (uint speed) \<and> Course p = of_int (uint heading) \<and> Satellites p = 12"
proof -
  define body where "body = gps_body (toy_datetime now) 0x9C (raw_coord lat) (raw_coord lon) (ucast speed)
    (toy_cs heading) []"
  let ?m = "Short 0x12 0x10 body"
  have dt: "length (toy_datetime now) = 6" by (simp add: toy_datetime_def)
  have len: "length body = 18" by (simp add: body_def gps_body_def dt be_put32_def be_put16_def)
  then have "wf_message ?m"
    by (intro wf_exact_content) (simp_all add: is_wifi_def min_content_def msg_defs)
  moreover have "encode ?m = buildGPS now lat lon speed heading"
    by (simp add: buildGPS_body body_def encode_def)
  ultimately have ex: "ExtractFrame (buildGPS now lat lon speed heading @ rest) =
      Some (Inr (msg_frame ?m, length (encode ?m)))"
    using extract_encode [of ?m rest] by simp
  have lel: "length (encode ?m) = 24" by (simp add: encode_def len)
  have course: "uint (toy_cs heading AND 0x03FF) = uint heading"
    using assms(4) by (rule toy_course)
  have sp: "uint (ucast speed :: byte) = uint speed"
    using assms(3) by (simp add: unsigned_ucast_eq take_bit_int_eq_self)
  have small: "uint heading < 2 ^ 53" "uint speed < 2 ^ 53" using assms(3,4) by simp_all
  have "\<bar>degrees (raw_coord lat) - \<bar>lat\<bar>\<bar> \<le> 1 / 1700000" "\<bar>degrees (raw_coord lon) - \<bar>lon\<bar>\<bar> \<le> 1 / 1700000"
    using assms(1,2) by (intro degrees_raw_coord; simp)+
  with ParseGPS_body [OF dt, of "0x9C" "raw_coord lat" "raw_coord lon" "ucast speed" "toy_cs heading" "[]"]
  show ?thesis
    using ex small
    by (simp add: lel msg_frame_def MsgGPS_def course sp f64_of_int_exact flip: body_def)
qed

theorem simulated_gps_end_to_end_witness:
  "\<exists>f p. ExtractFrame (buildGPS (time_Date 2026 8 15 1 25 29) (356892 / 10000) (51389 / 1000) 5 90 @ []) = Some (Inr (f, 24)) \<and>
    Proto f = MsgGPS \<and> ParseGPS (Body f) = Some (Inr p) \<and>
    \<bar>Latitude p - \<bar>356892 / 10000\<bar>\<bar> \<le> 1 / 1700000 \<and> \<bar>Longitude p - \<bar>51389 / 1000\<bar>\<bar> \<le> 1 / 1700000 \<and>
    SpeedKmh p = of_int (uint (5 :: u16)) \<and> Course p = of_int (uint (90 :: u16)) \<and> Satellites p = 12"
  by (rule simulated_gps_end_to_end) simp_all

end
