(* ===== verification/Simulated.thy ===== *)
theory Simulated
  imports Lifecycle Toy
begin

text \<open>
  The two programs of the repository together: a session of the simulator, served by the
  gateway. The simulator's packets are one byte stream; the theorem holds for every way in
  which TCP cuts it into reads.
\<close>

section \<open>Frames after the login\<close>

text \<open>The session of an IMEI is live on connection \<open>c\<close>.\<close>

definition online :: "string \<Rightarrow> nat \<Rightarrow> server \<Rightarrow> bool" where
  "online imei c s \<longleftrightarrow> (\<exists>sid. map_of (Sessions s) imei = Some sid \<and> sid < length (Heap s) \<and> SConn (Heap s ! sid) = c)"

lemma online_peer: "online imei c s \<Longrightarrow> peer imei s = Some c"
  by (auto simp: online_def peer_def)

lemma online_work: "work d r0 ts s s' \<Longrightarrow> online imei c s \<Longrightarrow> online imei c s'"
  by (auto simp: online_def work_def grows_def)

lemma writable_work: "work d r0 ts s s' \<Longrightarrow> writable d c s \<Longrightarrow> writable d c s'"
  by (simp add: writable_def work_def)

lemma frame_after_login:
  assumes "Proto f \<noteq> MsgLogin" "writable d c s" "online imei c s"
  shows "\<exists>s' t. handleFrame d c remote f (l, s) = Some (l, s') \<and> writable d c s' \<and> online imei c s' \<and>
    wire s' = wire s @ map (Pair c) (replies l f t)"
proof -
  obtain l' s' t where h: "handleFrame d c remote f (l, s) = Some (l', s')"
    "wire s' = wire s @ map (Pair c) (replies l f t)"
    using handleFrame_wire [OF assms(2)] by blast
  from handleFrame_no_login [OF h(1) assms(1), of AllowAll] obtain ts where "l' = l" "work d AllowAll ts s s'"
    by blast
  with h assms show ?thesis by (blast intro: writable_work online_work)
qed

text \<open>Frames whose replies do not depend on the clock.\<close>

lemma frames_after_login:
  assumes "\<forall>f \<in> set fs. Proto f \<noteq> MsgLogin \<and> Proto f \<noteq> MsgTimeSync" "writable d c s" "online imei c s"
  shows "\<exists>s'. run_frames (handleFrame d c remote) fs (l, s) = Some (l, s') \<and> online imei c s' \<and>
    wire s' = wire s @ map (Pair c) (concat (map (\<lambda>f. replies l f 0) fs))"
  using assms
proof (induction fs arbitrary: s)
  case (Cons f fs)
  then obtain s1 t where s1: "handleFrame d c remote f (l, s) = Some (l, s1)" "writable d c s1" "online imei c s1"
    "wire s1 = wire s @ map (Pair c) (replies l f t)"
    using frame_after_login [of f d c s imei remote l] by auto
  moreover have "replies l f t = replies l f 0"
    using Cons.prems(1) by (simp add: replies_def Let_def)
  moreover obtain s' where "run_frames (handleFrame d c remote) fs (l, s1) = Some (l, s')" "online imei c s'"
    "wire s' = wire s1 @ map (Pair c) (concat (map (\<lambda>f. replies l f 0) fs))"
    using Cons.IH [OF _ s1(2,3)] Cons.prems(1) by auto
  ultimately show ?case by simp
qed simp

text \<open>The login itself.\<close>

lemma login_frame:
  assumes "Proto f = MsgLogin" "ParseLogin (Body f) = Some (Inr imei)" "writable d c s"
  shows "\<exists>sid s'. handleFrame d c remote f (l, s) = Some (\<lparr>LImei = imei, LSess = Some sid\<rparr>, s') \<and>
    writable d c s' \<and> online imei c s' \<and> wire s' = wire s @ [(c, BuildLoginACK)]"
proof -
  obtain sid s1 where reg: "registerSession d imei c remote s = (sid, s1)" by fastforce
  define s' where "s' = spawn (MaybeConnectTB (Some sid) imei) (writeFrame d c BuildLoginACK s1)"
  have h: "handleLogin d c remote f (l, s) = Some (\<lparr>LImei = imei, LSess = Some sid\<rparr>, s')"
    using assms(2) reg by (simp add: handleLogin_def s'_def)
  have k: "work d AllowAll [MaybeConnectTB (Some sid) imei] s1 s'"
    unfolding s'_def by (rule ok_then [OF writeFrame_ok spawn_work])
  note rf = registerSession_facts [OF reg]
  have "writable d c s1"
    using assms(3) rf(8) by (auto simp: writable_def split: option.splits if_splits)
  moreover have "online imei c s1"
    using rf(1,3,5,6) by (auto simp: online_def update_conv')
  ultimately have "writable d c s'" "online imei c s'"
    using k by (auto intro: writable_work online_work)
  with h handleLogin_wire [OF assms(3) h] assms(1) show ?thesis
    by (auto simp: handleFrame_def)
qed

section \<open>The packets of the simulator\<close>

definition login_message :: "byte list \<Rightarrow> message" where
  "login_message bcd = Short 0x0A 0x01 (bcd @ [0x39])"

definition sync_message :: message where
  "sync_message = Short 0x01 0x30 []"

definition gps_message :: "instant \<Rightarrow> f64 \<Rightarrow> f64 \<Rightarrow> message" where
  "gps_message tm lat lon = Short 0x12 0x10
     (gps_body (toy_datetime tm) 0x9C (raw_coord lat) (raw_coord lon) 5 (toy_cs 90) [])"

definition status_message :: message where
  "status_message = Short 0x06 0x13 [0x64, 0x39, 0x03, 0x02]"

fun tick_messages :: "(f64 \<Rightarrow> f64) \<Rightarrow> f64 \<Rightarrow> f64 \<Rightarrow> toy_tick list \<Rightarrow> message list" where
  "tick_messages cosine lat lon [] = []"
| "tick_messages cosine lat lon (GpsTick tm # ticks) =
     gps_message tm lat (toy_step_lon cosine lat lon) # tick_messages cosine lat (toy_step_lon cosine lat lon) ticks"
| "tick_messages cosine lat lon (StatusTick # ticks) = status_message # tick_messages cosine lat lon ticks"

lemma encode_packets:
  "encode sync_message = buildTimeSyncReq" "encode (gps_message tm lat lon) = sendGPS tm lat lon"
  "encode status_message = buildStatus" "encode (login_message bcd) = [0x78, 0x78, 0x0A, 0x01] @ bcd @ [0x39] @ [0x0D, 0x0A]"
  by (simp_all add: encode_def sendGPS_def login_message_def sync_message_def buildTimeSyncReq_def gps_message_def buildGPS_body
      status_message_def buildStatus_def)

lemma gps_content: "length (msg_content (gps_message tm lat lon)) = 18"
  by (simp add: gps_message_def gps_body_def toy_datetime_def be_put32_def be_put16_def)

lemma wf_packets:
  "length bcd = 8 \<Longrightarrow> wf_message (login_message bcd)" "wf_message sync_message"
  "wf_message (gps_message tm lat lon)" "wf_message status_message"
proof -
  show "wf_message (login_message bcd)" if "length bcd = 8"
    using that by (intro wf_exact_content) (simp_all add: login_message_def is_wifi_def min_content_def msg_defs)
  show "wf_message sync_message" "wf_message status_message" by code_simp+
  show "wf_message (gps_message tm lat lon)"
    using gps_content [of tm lat lon]
    by (intro wf_exact_content) (simp_all add: gps_message_def is_wifi_def min_content_def msg_defs)
qed

lemma toy_loop_messages: "toy_loop cosine lat lon ticks = map encode (tick_messages cosine lat lon ticks)"
  by (induction cosine lat lon ticks rule: tick_messages.induct) (simp_all add: encode_packets Let_def)

lemma packet_protos:
  "Proto (msg_frame (gps_message tm lat lon)) = MsgGPS" "Proto (msg_frame status_message) = MsgStatus"
  "Proto (msg_frame sync_message) = MsgTimeSync"
  by (simp_all add: msg_frame_def gps_message_def status_message_def sync_message_def msg_defs)

lemma tick_messages_facts:
  "m \<in> set (tick_messages cosine lat lon ticks) \<Longrightarrow>
     wf_message m \<and> Proto (msg_frame m) \<noteq> MsgLogin \<and> Proto (msg_frame m) \<noteq> MsgTimeSync"
  by (induction cosine lat lon ticks rule: tick_messages.induct)
    (auto simp: wf_packets packet_protos msg_defs)

text \<open>What the tracker gets back for a tick: the date of the position, or the status packet.\<close>

fun tick_reply :: "toy_tick \<Rightarrow> byte list" where
  "tick_reply (GpsTick tm) = [0x78, 0x78, 0x00, 0x10] @ toy_datetime tm @ [0x0D, 0x0A]"
| "tick_reply StatusTick = BuildStatusEcho buildStatus"

lemma message_replies:
  "LImei l \<noteq> '''' \<Longrightarrow> replies l (msg_frame (gps_message tm lat lon)) t = [tick_reply (GpsTick tm)]"
  "replies l (msg_frame status_message) t = [tick_reply StatusTick]"
  "replies l (msg_frame sync_message) t = [BuildTimeSyncReply t]"
  by (simp_all add: replies_def msg_frame_def gps_message_def status_message_def sync_message_def msg_defs
      is_gps_def is_wifi_def datetime_ack_def gps_body_def toy_datetime_def encode_def buildStatus_def)

lemma tick_replies:
  "LImei l \<noteq> '''' \<Longrightarrow>
   concat (map (\<lambda>f. replies l f t) (map msg_frame (tick_messages cosine lat lon ticks))) = map tick_reply ticks"
  by (induction cosine lat lon ticks rule: tick_messages.induct) (simp_all add: message_replies del: tick_reply.simps)

section \<open>Properties\<close>

text \<open>C2. The two programs of the repository, end to end. The session of a simulator with a
  fifteen-digit IMEI, whose writes succeed, whatever its clock, its random numbers and the order of its ticks, and
  however TCP cuts it into reads, is understood completely: nothing is left in the buffer, the
  tracker is on line under its IMEI on this connection, and it has received the login
  acknowledgement, the time, and for every position and every status its own acknowledgement,
  in order and nothing else.\<close>

theorem simulator_session_served:
  assumes "length imei = 15" "list_all is_digit imei"
    and "toy_run None (\<lambda>_. None) cosine imei r1 r2 tm ticks = (pkts, ToyReturned)" "concat reads = concat pkts"
    and "writable d c s"
  shows "\<exists>t l' s'. readLoop (handleFrame d c remote) reads [] (fresh_local, s) = Some ([], l', s') \<and>
    LImei l' = imei \<and> peer imei s' = Some c \<and>
    wire s' = wire s @ map (Pair c) ([BuildLoginACK, BuildTimeSyncReply t] @ map tick_reply (GpsTick tm # ticks))"
proof -
  obtain bcd where b: "imeiToBCD imei = Some bcd" using assms(1) by (simp add: imeiToBCD_def Let_def)
  note bcd = imeiToBCD_parse [OF assms(1,2) b]
  obtain lat lon where pkts: "pkts = map encode ([login_message bcd, sync_message, gps_message tm lat lon] @
      tick_messages cosine lat lon ticks)"
    using assms(3) b
    by (auto simp: toy_run_ok toy_main_def buildLogin_def toy_loop_messages encode_packets Let_def)
  define ms where "ms = gps_message tm lat lon # tick_messages cosine lat lon ticks"
  define fs where "fs = map msg_frame ms"
  have "\<forall>m \<in> set (login_message bcd # sync_message # ms). wf_message m"
    using wf_packets bcd(1) tick_messages_facts by (auto simp: ms_def)
  from segmented [OF this] have loop: "readLoop (handleFrame d c remote) reads [] (fresh_local, s) =
      map_option (Pair []) (run_frames (handleFrame d c remote)
        (msg_frame (login_message bcd) # msg_frame sync_message # fs) (fresh_local, s))"
    using assms(4) pkts by (simp add: ms_def fs_def)
  obtain sid s1 where s1: "handleFrame d c remote (msg_frame (login_message bcd)) (fresh_local, s) =
      Some (\<lparr>LImei = imei, LSess = Some sid\<rparr>, s1)" "writable d c s1" "online imei c s1"
      "wire s1 = wire s @ [(c, BuildLoginACK)]"
    using login_frame [OF _ _ assms(5), of "msg_frame (login_message bcd)" imei remote fresh_local] bcd(2)
    by (auto simp: msg_frame_def login_message_def msg_defs)
  let ?l = "\<lparr>LImei = imei, LSess = Some sid\<rparr>"
  obtain s2 t where s2: "handleFrame d c remote (msg_frame sync_message) (?l, s1) = Some (?l, s2)"
      "writable d c s2" "online imei c s2" "wire s2 = wire s1 @ [(c, BuildTimeSyncReply t)]"
    using frame_after_login [OF _ s1(2,3), of "msg_frame sync_message" remote ?l]
    by (auto simp: message_replies packet_protos msg_defs)
  have fs: "\<forall>f \<in> set fs. Proto f \<noteq> MsgLogin \<and> Proto f \<noteq> MsgTimeSync"
    using tick_messages_facts by (auto simp: fs_def ms_def packet_protos msg_defs)
  obtain s3 where s3: "run_frames (handleFrame d c remote) fs (?l, s2) = Some (?l, s3)" "online imei c s3"
      "wire s3 = wire s2 @ map (Pair c) (concat (map (\<lambda>f. replies ?l f 0) fs))"
    using frames_after_login [OF fs s2(2,3)] by blast
  have "imei \<noteq> ''''" using assms(1) by auto
  then have "concat (map (\<lambda>f. replies ?l f 0) fs) = map tick_reply (GpsTick tm # ticks)"
    using tick_replies [of ?l 0 cosine lat lon ticks] message_replies(1) [of ?l tm lat lon 0]
    by (simp add: fs_def ms_def)
  with loop s1 s2 s3 online_peer [OF s3(2)] show ?thesis
    by (intro exI [of _ t] exI [of _ ?l] exI [of _ s3]) simp
qed

theorem simulator_session_served_witness:
  "\<exists>pkts t l' s'. toy_run None (\<lambda>_. None) (\<lambda>_. 1) imei_a (1 / 2) (1 / 2) 0 [StatusTick] = (pkts, ToyReturned) \<and>
    readLoop (handleFrame demo_deps 7 ''r'') [concat pkts] [] (fresh_local, New_server None demo_io) = Some ([], l', s') \<and>
    wire s' = map (Pair 7) [BuildLoginACK, BuildTimeSyncReply t, tick_reply (GpsTick 0), tick_reply StatusTick]"
proof -
  have i: "length imei_a = 15" "list_all is_digit imei_a" by (simp_all add: imei_a_def is_digit_def)
  then obtain pkts where p: "toy_run None (\<lambda>_. None) (\<lambda>_. 1) imei_a (1 / 2) (1 / 2) 0 [StatusTick] = (pkts, ToyReturned)"
    by (simp add: toy_run_ok toy_main_def buildLogin_def imeiToBCD_def Let_def)
  have "writable demo_deps 7 (New_server None demo_io)"
    by (simp add: writable_def New_server_def demo_deps_def New_deps_def demo_env_def)
  from simulator_session_served [OF i p _ this, of "[concat pkts]" "''r''"] p show ?thesis
    by (auto simp: wire_def New_server_def demo_io_def)
qed

end
