(* ===== verification/Summaries.thy ===== *)
theory Summaries
  imports Frame Gps WifiLbs
begin

text \<open>
  The text that frames, positions and Wi-Fi packets have in the logs: \<open>Hex\<close>, \<open>String\<close> and
  \<open>ProtoHex\<close> of \<open>internal/protocol/frame.go\<close>, and \<open>String\<close> of \<open>gps.go\<close> and \<open>wifilbs.go\<close>.
\<close>

section \<open>More verbs of fmt\<close>

text \<open>\<open>%04X\<close> on a word, \<open>%v\<close> on a boolean, and a number padded with zeros.\<close>

definition fmt_04X :: "u16 \<Rightarrow> string" where
  "fmt_04X w = fmt_02X (ucast (drop_bit 8 w)) @ fmt_02X (ucast w)"

definition fmt_bool :: "bool \<Rightarrow> string" where
  "fmt_bool b = (if b then ''true'' else ''false'')"

definition fmt_pad :: "nat \<Rightarrow> int \<Rightarrow> string" where
  "fmt_pad k i = (let s = fmt_d i in replicate (k - length s) CHR ''0'' @ s)"

text \<open>\<open>%.<k>f\<close>: the exact value, rounded to \<open>k\<close> decimals, half to even.\<close>

definition fmt_fixed :: "nat \<Rightarrow> f64 \<Rightarrow> string" where
  "fmt_fixed k x =
     (let n = round_even (\<bar>x\<bar> * 10 ^ k) in
      (if x < 0 then ''-'' else []) @ fmt_d (n div 10 ^ k) @
      (if k = 0 then [] else ''.'' @ fmt_pad k (n mod 10 ^ k)))"

text \<open>The layout \<open>2006-01-02 15:04:05 UTC\<close>, for years from 0 to 9999.\<close>

definition time_Format :: "instant \<Rightarrow> string" where
  "time_Format t =
     fmt_pad 4 (time_Year t) @ ''-'' @ fmt_pad 2 (time_Month t) @ ''-'' @ fmt_pad 2 (time_Day t) @ '' '' @
     fmt_pad 2 (time_Hour t) @ '':'' @ fmt_pad 2 (time_Minute t) @ '':'' @ fmt_pad 2 (time_Second t) @ '' UTC''"

section \<open>Summaries\<close>

definition Frame_Hex :: "frame \<Rightarrow> string" where
  "Frame_Hex f = hex_EncodeToString (Raw f)"

definition Frame_String :: "frame \<Rightarrow> string" where
  "Frame_String f =
     ''proto=0x'' @ fmt_02X (Proto f) @ '' body_len='' @ fmt_d (int (length (Body f))) @ '' raw='' @ Frame_Hex f"

definition ProtoHex :: "byte \<Rightarrow> string" where
  "ProtoHex p = ''0x'' @ fmt_02X p"

definition Position_String :: "position \<Rightarrow> string" where
  "Position_String p =
     ''time='' @ time_Format (PosTime p) @ '' lat='' @ fmt_fixed 6 (Latitude p) @ '' lon='' @ fmt_fixed 6 (Longitude p) @
     '' speed='' @ fmt_fixed 0 (SpeedKmh p) @ ''km/h course='' @ fmt_fixed 0 (Course p) @ [CHR 0xC2, CHR 0xB0] @
     '' sats='' @ fmt_d (Satellites p) @ '' valid='' @ fmt_bool (Valid p) @ '' flags=0x'' @ fmt_04X (CourseStatus p)"



definition wifi_text :: "wifi_ap \<Rightarrow> string" where
  "wifi_text ap = MAC ap @ ''('' @ fmt_d (RSSI ap) @ '')''"

definition cell_text :: "cell_tower \<Rightarrow> string" where
  "cell_text c = fmt_d (MCC c) @ ''/'' @ fmt_d (MNC c) @ ''/LAC='' @ fmt_d (LAC c) @ ''/CI='' @ fmt_d (CellID c) @
     ''/sig='' @ fmt_d (Signal c)"

definition WifiLBS_String :: "wifi_lbs \<Rightarrow> string" where
  "WifiLBS_String w =
     ''time='' @ time_Format (LbsTime w) @
     (if Wifi w \<noteq> [] then '' wifi='' @ fmt_d (int (length (Wifi w))) @ ''['' @ strings_Join (map wifi_text (Wifi w)) '' '' @ '']'' else []) @
     (if Cells w \<noteq> [] then '' cells='' @ fmt_d (int (length (Cells w))) @ ''['' @ strings_Join (map cell_text (Cells w)) '' '' @ '']'' else []) @
     (if Wifi w = [] \<and> Cells w = [] \<and> LbsRaw w \<noteq> [] then '' raw='' @ hex_EncodeToString (LbsRaw w) else [])"

section \<open>Facts\<close>

text \<open>The logged bytes of a frame and its protocol determine them.\<close>

lemma Frame_Hex_inj: "Frame_Hex f = Frame_Hex g \<longleftrightarrow> Raw f = Raw g"
  by (auto simp: Frame_Hex_def dest: hex_Encode_inj)

lemma fmt_02X_inj: "fmt_02X a = fmt_02X b \<Longrightarrow> a = b"
proof -
  have v: "(of_char (upper_hex_char d) :: nat) = (if d < 10 then 48 + d else 55 + d)" if "d < 16" for d
  proof (cases "d < 10")
    case True
    then show ?thesis by (simp add: upper_hex_char_def digit_char_def)
  next
    case False
    then have "(55 + d) mod 256 = 55 + d" using that by simp
    with False show ?thesis by (simp only: upper_hex_char_def of_char_of if_False)
  qed
  have i: "d = e" if "upper_hex_char d = upper_hex_char e" "d < 16" "e < 16" for d e
  proof -
    have "(of_char (upper_hex_char d) :: nat) = of_char (upper_hex_char e)" using that(1) by (rule arg_cong)
    with v [OF that(2)] v [OF that(3)] show ?thesis by (simp split: if_splits)
  qed

  assume "fmt_02X a = fmt_02X b"
  then have "upper_hex_char (unat a div 16) = upper_hex_char (unat b div 16)"
    "upper_hex_char (unat a mod 16) = upper_hex_char (unat b mod 16)"
    by (simp_all add: fmt_02X_def)
  then have "unat a div 16 = unat b div 16" "unat a mod 16 = unat b mod 16"
    using i unat_byte_less [of a] unat_byte_less [of b] by simp_all
  then have "unat a = unat b" by (metis div_mult_mod_eq)
  then show "a = b" by (simp add: word_unat_eq_iff)
qed

lemma ProtoHex_inj: "ProtoHex p = ProtoHex q \<longleftrightarrow> p = q"
  by (auto simp: ProtoHex_def dest: fmt_02X_inj)

lemma fmt_examples:
  "fmt_fixed 1 (- 7 / 2) = ''-3.5''" "fmt_fixed 0 (5 / 2) = ''2''" "fmt_pad 2 7 = ''07''" "fmt_04X 0x345A = ''345A''"
  by code_simp+

end
