(* ===== verification/Safe_Conn.thy ===== *)
theory Safe_Conn
  imports Commands "HOL-Library.Sublist"
begin

text \<open>
  The type \<open>SafeConn\<close> of \<open>internal/server/server.go\<close>, below the level at which the rest of the
  server model uses it: there a write is one step. Here it takes the mutex, hands its bytes to
  the kernel piece by piece, may fail in between (the deadline passes, or the connection
  breaks), and releases the mutex, while any number of other writes and closes are under way.
\<close>

section \<open>Calls in progress\<close>

text \<open>
  The two methods that take the mutex. A call waits for the mutex, or holds it with the
  bytes it has still to send, or has returned, with or without an error.
\<close>

datatype method_call = WriteCall "byte list" | CloseCall

datatype progress = Waiting | Holding "byte list" | Returned "string option"

text \<open>\<open>Mu\<close> is the call that holds the mutex; calls are numbered in the order in which they were made.\<close>

record safe_conn =
  Mu :: "nat option"
  NetClosed :: bool
  Sent :: "byte list"
  Calls :: "(method_call \<times> progress) list"

definition NewSafeConn :: safe_conn where
  "NewSafeConn = \<lparr>Mu = None, NetClosed = False, Sent = [], Calls = []\<rparr>"

definition progress_of :: "nat \<Rightarrow> safe_conn \<Rightarrow> (method_call \<times> progress) option" where
  "progress_of i s = (if i < length (Calls s) then Some (Calls s ! i) else None)"

definition set_progress :: "nat \<Rightarrow> method_call \<Rightarrow> progress \<Rightarrow> safe_conn \<Rightarrow> safe_conn" where
  "set_progress i m p s = s\<lparr>Calls := (Calls s)[i := (m, p)]\<rparr>"

datatype sc_action =
    SCall method_call
  | SLock nat
  | SSend nat nat
  | SFail nat string
  | SReturn nat

text \<open>\<open>sc.mu.Lock()\<close>: blocked while another call holds the mutex.\<close>

definition sc_lock :: "nat \<Rightarrow> safe_conn \<Rightarrow> safe_conn option" where
  "sc_lock i s =
     (case progress_of i s of
        Some (m, Waiting) \<Rightarrow>
          if Mu s = None then
            Some (set_progress i m (Holding (case m of WriteCall b \<Rightarrow> b | CloseCall \<Rightarrow> [])) s\<lparr>Mu := Some i\<rparr>)
          else None
      | _ \<Rightarrow> None)"

text \<open>\<open>sc.conn.Write(b)\<close>: the next \<open>n\<close> bytes go out; or it gives up with an error.\<close>

definition sc_send :: "nat \<Rightarrow> nat \<Rightarrow> safe_conn \<Rightarrow> safe_conn option" where
  "sc_send i n s =
     (case progress_of i s of
        Some (WriteCall b, Holding rest) \<Rightarrow>
          if \<not> NetClosed s \<and> 0 < n \<and> n \<le> length rest
          then Some (set_progress i (WriteCall b) (Holding (drop n rest)) s\<lparr>Sent := Sent s @ take n rest\<rparr>)
          else None
      | _ \<Rightarrow> None)"

definition sc_fail :: "nat \<Rightarrow> string \<Rightarrow> safe_conn \<Rightarrow> safe_conn option" where
  "sc_fail i err s =
     (case progress_of i s of
        Some (WriteCall b, Holding rest) \<Rightarrow> Some (set_progress i (WriteCall b) (Returned (Some err)) s\<lparr>Mu := None\<rparr>)
      | _ \<Rightarrow> None)"

text \<open>The return of a write that has sent everything, or the close and its return; a second close is an error.\<close>

definition sc_return :: "nat \<Rightarrow> safe_conn \<Rightarrow> safe_conn option" where
  "sc_return i s =
     (case progress_of i s of
        Some (WriteCall b, Holding []) \<Rightarrow> Some (set_progress i (WriteCall b) (Returned None) s\<lparr>Mu := None\<rparr>)
      | Some (CloseCall, Holding []) \<Rightarrow>
          Some (set_progress i CloseCall
            (Returned (if NetClosed s then Some ''use of closed network connection'' else None)) s\<lparr>Mu := None, NetClosed := True\<rparr>)
      | _ \<Rightarrow> None)"

fun sc_step :: "sc_action \<Rightarrow> safe_conn \<Rightarrow> safe_conn option" where
  "sc_step (SCall m) s = Some (s\<lparr>Calls := Calls s @ [(m, Waiting)]\<rparr>)"
| "sc_step (SLock i) s = sc_lock i s"
| "sc_step (SSend i n) s = sc_send i n s"
| "sc_step (SFail i err) s = sc_fail i err s"
| "sc_step (SReturn i) s = sc_return i s"

fun sc_run :: "sc_action list \<Rightarrow> safe_conn \<Rightarrow> safe_conn option" where
  "sc_run [] s = Some s"
| "sc_run (a # as) s = sc_step a s \<bind> sc_run as"

section \<open>What is on the wire\<close>

text \<open>
  The bytes on the wire are pieces, one for each write that has got the mutex, in that order:
  the whole packet of a write that returned without an error, a prefix of the packet of one
  that failed, and what the one that holds the mutex has sent so far, at the end.
\<close>

definition piece_ok :: "safe_conn \<Rightarrow> nat \<times> byte list \<Rightarrow> bool" where
  "piece_ok s x \<longleftrightarrow>
     (case progress_of (fst x) s of
        Some (WriteCall b, Returned None) \<Rightarrow> snd x = b
      | Some (WriteCall b, Returned (Some err)) \<Rightarrow> prefix (snd x) b
      | Some (WriteCall b, Holding rest) \<Rightarrow> b = snd x @ rest \<and> Mu s = Some (fst x)
      | _ \<Rightarrow> False)"

definition has_written :: "safe_conn \<Rightarrow> nat \<Rightarrow> bool" where
  "has_written s i \<longleftrightarrow> (case progress_of i s of Some (WriteCall b, Waiting) \<Rightarrow> False | Some (WriteCall b, _) \<Rightarrow> True | _ \<Rightarrow> False)"

definition pieces :: "safe_conn \<Rightarrow> (nat \<times> byte list) list \<Rightarrow> bool" where
  "pieces s ps \<longleftrightarrow> Sent s = concat (map snd ps) \<and> distinct (map fst ps) \<and> (\<forall>x \<in> set ps. piece_ok s x) \<and>
     (\<forall>i. has_written s i \<longrightarrow> i \<in> set (map fst ps))"

definition holder_ok :: "safe_conn \<Rightarrow> (nat \<times> byte list) list \<Rightarrow> bool" where
  "holder_ok s ps \<longleftrightarrow> (\<forall>i m r. progress_of i s = Some (m, Holding r) \<longrightarrow> Mu s = Some i \<and>
     (case m of WriteCall b \<Rightarrow> ps \<noteq> [] \<and> fst (last ps) = i | CloseCall \<Rightarrow> r = []))"

lemma progress_of_set [simp]:
  "i < length (Calls s) \<Longrightarrow> progress_of j (set_progress i m p s) = (if j = i then Some (m, p) else progress_of j s)"
  by (auto simp: progress_of_def set_progress_def)

lemma progress_of_upd [simp]:
  "progress_of i (s\<lparr>Mu := x\<rparr>) = progress_of i s" "progress_of i (s\<lparr>Sent := y\<rparr>) = progress_of i s"
  "progress_of i (s\<lparr>NetClosed := z\<rparr>) = progress_of i s"
  by (simp_all add: progress_of_def)

lemma set_progress_sel [simp]:
  "Mu (set_progress i m p s) = Mu s" "Sent (set_progress i m p s) = Sent s" "NetClosed (set_progress i m p s) = NetClosed s"
  "length (Calls (set_progress i m p s)) = length (Calls s)"
  by (simp_all add: set_progress_def)

lemma progress_of_bound: "progress_of i s = Some x \<Longrightarrow> i < length (Calls s)"
  by (simp add: progress_of_def split: if_splits)

lemma progress_of_call:
  "progress_of i (s\<lparr>Calls := Calls s @ [(m, Waiting)]\<rparr>) = (if i = length (Calls s) then Some (m, Waiting) else progress_of i s)"
  by (auto simp: progress_of_def nth_append)

lemma piece_ok_keep:
  "piece_ok s x \<Longrightarrow> progress_of (fst x) s' = progress_of (fst x) s \<Longrightarrow>
   (\<And>m r. progress_of (fst x) s = Some (m, Holding r) \<Longrightarrow> Mu s' = Mu s) \<Longrightarrow> piece_ok s' x"
  by (auto simp: piece_ok_def split: option.splits method_call.splits progress.splits)

text \<open>One lemma per step: how the pieces change.\<close>

lemma call_pieces:
  assumes "pieces s ps" "holder_ok s ps"
  shows "pieces (s\<lparr>Calls := Calls s @ [(m, Waiting)]\<rparr>) ps \<and> holder_ok (s\<lparr>Calls := Calls s @ [(m, Waiting)]\<rparr>) ps"
proof -
  have n: "progress_of (length (Calls s)) s = None" by (simp add: progress_of_def)
  have "piece_ok (s\<lparr>Calls := Calls s @ [(m, Waiting)]\<rparr>) x" if "piece_ok s x" for x
  proof (rule piece_ok_keep [OF that])
    have "progress_of (fst x) s \<noteq> None" using that by (cases "progress_of (fst x) s") (simp_all add: piece_ok_def)
    with n have "fst x \<noteq> length (Calls s)" by metis
    then show "progress_of (fst x) (s\<lparr>Calls := Calls s @ [(m, Waiting)]\<rparr>) = progress_of (fst x) s"
      by (simp add: progress_of_call)
  qed simp
  moreover have "has_written s i" if "has_written (s\<lparr>Calls := Calls s @ [(m, Waiting)]\<rparr>) i" for i
    using that by (auto simp: has_written_def progress_of_call split: if_splits method_call.splits)
  moreover have "holder_ok (s\<lparr>Calls := Calls s @ [(m, Waiting)]\<rparr>) ps"
    using assms(2) by (auto simp: holder_ok_def progress_of_call)
  ultimately show ?thesis using assms(1) by (auto simp: pieces_def)
qed

lemma lock_pieces:
  assumes "pieces s ps" "holder_ok s ps" "sc_lock i s = Some s'"
  shows "\<exists>ps'. pieces s' ps' \<and> holder_ok s' ps'"
proof -
  obtain m where m: "progress_of i s = Some (m, Waiting)" "Mu s = None"
    and s': "s' = set_progress i m (Holding (case m of WriteCall b \<Rightarrow> b | CloseCall \<Rightarrow> [])) s\<lparr>Mu := Some i\<rparr>"
    using assms(3) by (auto simp: sc_lock_def split: option.splits prod.splits progress.splits if_splits)
  note i = progress_of_bound [OF m(1)]
  have free: "progress_of j s \<noteq> Some (k, Holding r)" for j k r
    using assms(2) m(2) by (auto simp: holder_ok_def)
  have new: "i \<notin> set (map fst ps)"
  proof
    assume "i \<in> set (map fst ps)"
    then obtain x where "x \<in> set ps" "fst x = i" by auto
    with assms(1) have "piece_ok s x" by (simp add: pieces_def)
    with m(1) \<open>fst x = i\<close> show False by (simp add: piece_ok_def split: method_call.splits)
  qed
  have keep: "piece_ok s' x" if "x \<in> set ps" for x
  proof -
    have "piece_ok s x" "fst x \<noteq> i" using assms(1) new that by (auto simp: pieces_def)
    then show ?thesis using i free by - (rule piece_ok_keep [of s x], auto simp: s')
  qed
  have h: "progress_of j s' = Some (k, Holding r) \<Longrightarrow> j = i \<and> k = m \<and> r = (case m of WriteCall b \<Rightarrow> b | CloseCall \<Rightarrow> [])" for j k r
    using i free by (auto simp: s' split: if_splits)
  have w: "has_written s' j \<Longrightarrow> has_written s j \<or> j = i \<and> (\<exists>b. m = WriteCall b)" for j
    using i by (auto simp: has_written_def s' split: if_splits method_call.splits)
  have p: "progress_of i s' = Some (m, Holding (case m of WriteCall b \<Rightarrow> b | CloseCall \<Rightarrow> []))" "Mu s' = Some i" "Sent s' = Sent s"
    using i by (simp_all add: s')
  show ?thesis
  proof (cases m)
    case CloseCall
    with assms(1) keep w have "pieces s' ps" by (auto simp: pieces_def p)
    moreover have "holder_ok s' ps" unfolding holder_ok_def using p CloseCall by (auto dest!: h)
    ultimately show ?thesis by blast
  next
    case (WriteCall b)
    have "piece_ok s' (i, [])" using p WriteCall by (simp add: piece_ok_def)
    with assms(1) keep new p have "pieces s' (ps @ [(i, [])])" by (auto simp: pieces_def dest!: w)
    moreover have "holder_ok s' (ps @ [(i, [])])"
      unfolding holder_ok_def using p WriteCall by (auto dest!: h)
    ultimately show ?thesis by blast
  qed
qed

lemma send_pieces:
  assumes "pieces s ps" "holder_ok s ps" "sc_send i n s = Some s'"
  shows "\<exists>ps'. pieces s' ps' \<and> holder_ok s' ps'"
proof -
  obtain b rest where m: "progress_of i s = Some (WriteCall b, Holding rest)"
    and s': "s' = set_progress i (WriteCall b) (Holding (drop n rest)) s\<lparr>Sent := Sent s @ take n rest\<rparr>"
    using assms(3) by (auto simp: sc_send_def split: option.splits prod.splits method_call.splits progress.splits if_splits)
  note i = progress_of_bound [OF m]
  have "Mu s = Some i \<and> ps \<noteq> [] \<and> fst (last ps) = i" using assms(2) m unfolding holder_ok_def by fastforce
  then obtain qs a where ps: "ps = qs @ [(i, a)]" and mu: "Mu s = Some i" by (metis append_butlast_last_id prod.collapse)
  have "piece_ok s (i, a)" using assms(1) ps by (simp add: pieces_def)
  with m have b: "b = a @ rest" by (simp add: piece_ok_def)
  let ?ps = "qs @ [(i, a @ take n rest)]"
  have "piece_ok s' (i, a @ take n rest)" using i mu by (simp add: piece_ok_def s' b)
  moreover have "piece_ok s' x" if "x \<in> set qs" for x
  proof -
    have "piece_ok s x" "fst x \<noteq> i" using assms(1) ps that by (auto simp: pieces_def)
    then show ?thesis using i by - (rule piece_ok_keep [of s x], auto simp: s')
  qed
  moreover have "has_written s' j \<Longrightarrow> has_written s j" for j
    using i m by (auto simp: has_written_def s' split: if_splits)
  ultimately have "pieces s' ?ps" using assms(1) ps by (auto simp: pieces_def s')
  moreover have "holder_ok s' ?ps" using assms(2) i mu by (auto simp: holder_ok_def s' ps split: if_splits method_call.splits)
  ultimately show ?thesis by blast
qed

text \<open>A call that returns releases the mutex and leaves the pieces as they are.\<close>

lemma release_pieces:
  assumes "pieces s ps" "holder_ok s ps" "progress_of i s = Some (m, Holding rest)"
    and "s' = set_progress i m (Returned e) s\<lparr>Mu := None, NetClosed := c\<rparr>" "e = None \<Longrightarrow> m \<noteq> CloseCall \<Longrightarrow> rest = []"
  shows "pieces s' ps \<and> holder_ok s' ps"
proof -
  note i = progress_of_bound [OF assms(3)]
  have mu: "Mu s = Some j" if "progress_of j s = Some (k, Holding r)" for j k r
    using assms(2) that unfolding holder_ok_def by blast
  have only: "j = i" if "progress_of j s = Some (k, Holding r)" for j k r
    using mu [OF assms(3)] mu [OF that] by simp
  have "piece_ok s' x" if "piece_ok s x" for x
  proof (cases "fst x = i")
    case True
    with that assms(3,5) i show ?thesis
      by (cases m; cases e) (auto simp: piece_ok_def assms(4))
  next
    case False
    with that only i show ?thesis by - (rule piece_ok_keep [of s x], auto simp: assms(4))
  qed
  moreover have "has_written s' j \<Longrightarrow> has_written s j" for j
    using i assms(3) by (auto simp: has_written_def assms(4) split: if_splits method_call.splits)
  moreover have "holder_ok s' ps"
    using only i by (auto simp: holder_ok_def assms(4) split: if_splits)
  ultimately show ?thesis using assms(1) i by (auto simp: pieces_def assms(4))
qed

lemma step_pieces:
  assumes "pieces s ps" "holder_ok s ps" "sc_step a s = Some s'"
  shows "\<exists>ps'. pieces s' ps' \<and> holder_ok s' ps'"
proof (cases a)
  case (SCall m)
  with assms call_pieces [OF assms(1,2), of m] show ?thesis by auto
next
  case (SFail i err)
  with assms(3) obtain b rest where m: "progress_of i s = Some (WriteCall b, Holding rest)"
    and s': "s' = set_progress i (WriteCall b) (Returned (Some err)) s\<lparr>Mu := None, NetClosed := NetClosed s\<rparr>"
    by (auto simp: sc_fail_def set_progress_def split: option.splits prod.splits method_call.splits progress.splits)
  from release_pieces [OF assms(1,2) m s'] show ?thesis by blast
next
  case (SReturn i)
  with assms(3) have r: "sc_return i s = Some s'" by simp
  then obtain m where m: "progress_of i s = Some (m, Holding [])"
    by (auto simp: sc_return_def split: option.splits prod.splits method_call.splits progress.splits list.splits)
  with r have "\<exists>e c. s' = set_progress i m (Returned e) s\<lparr>Mu := None, NetClosed := c\<rparr>"
    by (cases m; cases s) (auto simp: sc_return_def set_progress_def intro: exI [of _ "NetClosed s"])
  with release_pieces [OF assms(1,2) m] show ?thesis by blast
qed (use assms lock_pieces send_pieces in \<open>auto 0 3\<close>)

lemma run_pieces: "sc_run as s = Some s' \<Longrightarrow> pieces s ps \<Longrightarrow> holder_ok s ps \<Longrightarrow> \<exists>ps'. pieces s' ps' \<and> holder_ok s' ps'"
proof (induction as arbitrary: s ps)
  case (Cons a as)
  then obtain s1 where s1: "sc_step a s = Some s1" "sc_run as s1 = Some s'" by (auto simp: bind_eq_Some_conv)
  from step_pieces [OF Cons.prems(2,3) s1(1)] obtain qs where "pieces s1 qs" "holder_ok s1 qs" by blast
  with Cons.IH [OF s1(2)] show ?case by blast
qed auto

text \<open>A closed connection stays closed, and takes no more bytes.\<close>

lemma step_closed: "sc_step a s = Some s' \<Longrightarrow> NetClosed s \<Longrightarrow> NetClosed s' \<and> Sent s' = Sent s"
  by (cases a) (auto simp: sc_lock_def sc_send_def sc_fail_def sc_return_def
      split: option.splits prod.splits method_call.splits progress.splits list.splits if_splits)

lemma run_closed: "sc_run as s = Some s' \<Longrightarrow> NetClosed s \<Longrightarrow> NetClosed s' \<and> Sent s' = Sent s"
  by (induction as arbitrary: s) (auto simp: bind_eq_Some_conv dest: step_closed)

section \<open>Properties\<close>

text \<open>C35. Packets are not mixed. However the writes and closes of a connection interleave, and wherever
  the network cuts them, the bytes on the wire are pieces, one for each write that has got the
  mutex: the whole packet of a write that returned without an error, a prefix of that of one
  that failed, and what the one that holds the mutex has sent. So when no write has failed and
  none is under way, the wire holds the packets of the writes one after the other, which is
  what the rest of the model takes a write to be.\<close>

theorem writes_stay_apart:
  assumes "sc_run as NewSafeConn = Some s"
  shows "\<exists>ps. pieces s ps \<and>
    ((\<forall>i b p. progress_of i s = Some (WriteCall b, p) \<longrightarrow> p = Waiting \<or> p = Returned None) \<longrightarrow>
      (\<forall>x \<in> set ps. progress_of (fst x) s = Some (WriteCall (snd x), Returned None)))"
proof -
  have "pieces NewSafeConn []" "holder_ok NewSafeConn []"
    by (simp_all add: pieces_def holder_ok_def NewSafeConn_def progress_of_def has_written_def)
  with run_pieces [OF assms] obtain ps where ps: "pieces s ps" by blast
  have "progress_of (fst x) s = Some (WriteCall (snd x), Returned None)"
    if "\<forall>i b p. progress_of i s = Some (WriteCall b, p) \<longrightarrow> p = Waiting \<or> p = Returned None" "x \<in> set ps" for x
  proof -
    have x: "piece_ok s x" using ps that(2) by (simp add: pieces_def)
    then obtain b p where p: "progress_of (fst x) s = Some (WriteCall b, p)"
      by (cases "progress_of (fst x) s"; cases "fst (the (progress_of (fst x) s))") (auto simp: piece_ok_def)
    with that(1) have "p = Waiting \<or> p = Returned None" by blast
    with x p show ?thesis by (auto simp: piece_ok_def)
  qed
  with ps show ?thesis by blast
qed

definition two_writes :: "sc_action list" where
  "two_writes = [SCall (WriteCall BuildLoginACK), SCall (WriteCall BuildRestart), SLock 1, SSend 1 3,
     SSend 1 (length BuildRestart - 3), SReturn 1, SLock 0, SSend 0 (length BuildLoginACK), SReturn 0]"

theorem writes_stay_apart_witness:
  "case sc_run two_writes NewSafeConn of None \<Rightarrow> False | Some s \<Rightarrow> \<exists>ps. pieces s ps \<and> Sent s = BuildRestart @ BuildLoginACK"
proof -
  have "case sc_run two_writes NewSafeConn of None \<Rightarrow> False | Some s \<Rightarrow> Sent s = BuildRestart @ BuildLoginACK"
    by code_simp
  then obtain s where s: "sc_run two_writes NewSafeConn = Some s" "Sent s = BuildRestart @ BuildLoginACK"
    by (auto split: option.splits)
  from writes_stay_apart [OF s(1)] s show ?thesis by auto
qed

text \<open>C37. A close is final, and never cuts a packet: it takes place when no write holds the mutex, and
  after it nothing more is put on the wire, whatever is called.\<close>

theorem close_is_final:
  assumes "sc_run as NewSafeConn = Some s" "progress_of i s = Some (CloseCall, Holding [])"
  shows "(\<forall>j b r. progress_of j s \<noteq> Some (WriteCall b, Holding r)) \<and>
    (\<exists>s'. sc_step (SReturn i) s = Some s' \<and> NetClosed s' \<and> Sent s' = Sent s \<and>
      (\<forall>bs t. sc_run bs s' = Some t \<longrightarrow> NetClosed t \<and> Sent t = Sent s))"
proof -
  have "pieces NewSafeConn []" "holder_ok NewSafeConn []"
    by (simp_all add: pieces_def holder_ok_def NewSafeConn_def progress_of_def has_written_def)
  with run_pieces [OF assms(1)] obtain ps where h: "holder_ok s ps" by blast
  have "Mu s = Some i" using h assms(2) unfolding holder_ok_def by blast
  moreover have "Mu s = Some j" if "progress_of j s = Some (WriteCall b, Holding r)" for j b r
    using h that unfolding holder_ok_def by blast
  ultimately have none: "progress_of j s \<noteq> Some (WriteCall b, Holding r)" for j b r using assms(2) by fastforce
  obtain s' where "sc_step (SReturn i) s = Some s'" "NetClosed s'" "Sent s' = Sent s"
    using assms(2) by (simp add: sc_return_def)
  with none run_closed [of _ s'] show ?thesis by metis
qed

definition write_and_close :: "sc_action list" where
  "write_and_close = [SCall (WriteCall BuildLoginACK), SLock 0, SSend 0 (length BuildLoginACK), SCall CloseCall, SReturn 0, SLock 1]"

theorem close_is_final_witness:
  "case sc_run write_and_close NewSafeConn of None \<Rightarrow> False
   | Some s \<Rightarrow> (case sc_step (SReturn 1) s of None \<Rightarrow> False | Some s' \<Rightarrow> NetClosed s' \<and> Sent s' = BuildLoginACK)"
proof -
  have "case sc_run write_and_close NewSafeConn of None \<Rightarrow> False
     | Some s \<Rightarrow> progress_of 1 s = Some (CloseCall, Holding []) \<and> Sent s = BuildLoginACK"
    by code_simp
  then obtain s where s: "sc_run write_and_close NewSafeConn = Some s" "progress_of 1 s = Some (CloseCall, Holding [])"
    "Sent s = BuildLoginACK" by (auto split: option.splits)
  from close_is_final [OF s(1,2)] s show ?thesis by auto
qed

section \<open>What a failing write leaves behind\<close>

text \<open>
  A write whose deadline passes in the middle leaves a truncated packet on the wire, and
  nothing closes the connection: the callers only log the error. The next packet then follows
  the torn one, and is reported as sent.
\<close>

theorem torn_packet_stays:
  "case sc_run [SCall (WriteCall BuildLoginACK), SLock 0, SSend 0 3, SFail 0 ''i/o timeout'',
     SCall (WriteCall BuildRestart), SLock 1, SSend 1 (length BuildRestart), SReturn 1] NewSafeConn of
     None \<Rightarrow> False
   | Some s \<Rightarrow> Sent s = take 3 BuildLoginACK @ BuildRestart \<and> \<not> NetClosed s \<and>
       progress_of 1 s = Some (WriteCall BuildRestart, Returned None)"
  by code_simp

text \<open>
  A close waits for the write that holds the mutex, which may be stalled until its deadline.
  \<open>registerSession\<close> closes the replaced connection while it holds the lock of the server, so
  everything that needs that lock waits with it.
\<close>

theorem close_waits_for_stalled_write:
  "case sc_run [SCall (WriteCall BuildLoginACK), SLock 0, SSend 0 3, SCall CloseCall] NewSafeConn of
     None \<Rightarrow> False
   | Some s \<Rightarrow> sc_step (SLock 1) s = None \<and> sc_step (SReturn 1) s = None \<and>
       sc_run [SFail 0 ''i/o timeout'', SLock 1, SReturn 1] s \<noteq> None"
  by code_simp

end
