(* ===== verification/Lock_Order.thy ===== *)
theory Lock_Order
  imports Main
begin

text \<open>
  The locks of the gateway and the order in which they are taken: the lock of the server and of
  each session (\<open>sync.RWMutex\<close>), and the mutex of each connection and of the registry client
  (\<open>sync.Mutex\<close>), in \<open>internal/server/server.go\<close> and \<open>internal/registry/paapeli.go\<close>. What
  is done under the locks is in the other theories; here a method is the sequence in which it
  locks and unlocks, and the question is whether goroutines can block each other for good.
\<close>

section \<open>Locks\<close>

datatype lock = ServerMu | SessionMu nat | ConnMu nat | RegistryMu

datatype mode = Read | Write

datatype lock_op = Announce lock | Lock lock mode | Unlock lock

text \<open>A goroutine: the locks it holds, the last one first, and what it has still to do.\<close>

record locker =
  Held :: "(lock \<times> mode) list"
  Todo :: "lock_op list"

text \<open>
  \<open>RWMutex\<close>: a writer first announces itself, for which it waits until no other writer holds
  the lock or has announced itself, and then waits for the readers. A reader waits for a writer,
  also for one that only announced itself, which is how the Go runtime keeps readers from
  starving it. A \<open>Mutex\<close> is an \<open>RWMutex\<close> that is only locked for writing.
\<close>

definition holds :: "locker \<Rightarrow> lock \<Rightarrow> mode \<Rightarrow> bool" where
  "holds g l m \<longleftrightarrow> (l, m) \<in> set (Held g)"

definition wants_write :: "locker \<Rightarrow> lock \<Rightarrow> bool" where
  "wants_write g l \<longleftrightarrow> (case Todo g of Lock l' Write # _ \<Rightarrow> l' = l | _ \<Rightarrow> False)"

definition may_read :: "locker list \<Rightarrow> lock \<Rightarrow> bool" where
  "may_read gs l \<longleftrightarrow> list_all (\<lambda>g. \<not> holds g l Write \<and> \<not> wants_write g l) gs"

definition may_lock :: "locker list \<Rightarrow> lock \<Rightarrow> mode \<Rightarrow> bool" where
  "may_lock gs l m \<longleftrightarrow>
     (case m of
        Write \<Rightarrow> list_all (\<lambda>g. \<not> holds g l Read \<and> \<not> holds g l Write) gs
      | Read \<Rightarrow> may_read gs l)"

definition lock_step :: "nat \<Rightarrow> locker list \<Rightarrow> locker list option" where
  "lock_step i gs =
     (if i < length gs then
        (case Todo (gs ! i) of
           [] \<Rightarrow> None
         | Announce l # ops \<Rightarrow>
             if may_read gs l then Some (gs[i := \<lparr>Held = Held (gs ! i), Todo = ops\<rparr>]) else None
         | Lock l m # ops \<Rightarrow>
             if may_lock gs l m then Some (gs[i := \<lparr>Held = (l, m) # Held (gs ! i), Todo = ops\<rparr>]) else None
         | Unlock l # ops \<Rightarrow>
             Some (gs[i := \<lparr>Held = filter (\<lambda>x. fst x \<noteq> l) (Held (gs ! i)), Todo = ops\<rparr>]))
      else None)"

fun lock_run :: "nat list \<Rightarrow> locker list \<Rightarrow> locker list option" where
  "lock_run [] gs = Some gs"
| "lock_run (i # is) gs = Option.bind (lock_step i gs) (lock_run is)"

section \<open>The methods\<close>

definition locked :: "lock \<Rightarrow> mode \<Rightarrow> lock_op list \<Rightarrow> lock_op list" where
  "locked l m body = (case m of Read \<Rightarrow> [] | Write \<Rightarrow> [Announce l]) @ Lock l m # body @ [Unlock l]"

definition writeWithDeadline_locks :: "nat \<Rightarrow> lock_op list" where
  "writeWithDeadline_locks c = locked (ConnMu c) Write []"

definition close_locks :: "nat \<Rightarrow> lock_op list" where
  "close_locks c = locked (ConnMu c) Write []"

definition accept_error_locks :: "lock_op list" where
  "accept_error_locks = locked ServerMu Read []"

definition shutdown_locks :: "lock_op list" where
  "shutdown_locks = locked ServerMu Write []"

text \<open>\<open>old\<close> is the connection that is replaced, if there is one.\<close>

definition registerSession_locks :: "nat option \<Rightarrow> lock_op list" where
  "registerSession_locks old = locked ServerMu Write (case old of None \<Rightarrow> [] | Some c \<Rightarrow> close_locks c)"

definition removeSession_locks :: "lock_op list" where
  "removeSession_locks = locked ServerMu Write []"

definition touch_locks :: "nat \<Rightarrow> lock_op list" where
  "touch_locks sid = locked (SessionMu sid) Write []"

definition tbConnected_locks :: "nat \<Rightarrow> lock_op list" where
  "tbConnected_locks sid = locked (SessionMu sid) Read []"

definition set_tbConnected_locks :: "nat \<Rightarrow> lock_op list" where
  "set_tbConnected_locks sid = locked (SessionMu sid) Write []"

definition listSessions_locks :: "nat list \<Rightarrow> lock_op list" where
  "listSessions_locks sids = locked ServerMu Read (concat (map (\<lambda>sid. locked (SessionMu sid) Read []) sids))"

definition lookup_locks :: "lock_op list" where
  "lookup_locks = locked ServerMu Read []"

definition sendToDevice_locks :: "nat option \<Rightarrow> lock_op list" where
  "sendToDevice_locks c = lookup_locks @ (case c of None \<Rightarrow> [] | Some c \<Rightarrow> writeWithDeadline_locks c)"

text \<open>
  The methods of the registry client, each of which takes its mutex once or, for a login,
  twice; \<open>fetch\<close> runs at most two rounds.
\<close>

definition registry_locks :: "lock_op list" where
  "registry_locks = locked RegistryMu Write []"

definition ensureToken_locks :: "bool \<Rightarrow> lock_op list" where
  "ensureToken_locks login = registry_locks @ (if login then registry_locks else [])"

text \<open>A round of \<open>fetch\<close>: whether it logs in with success, and whether the answer is 401.\<close>

definition fetch_locks :: "(bool \<times> bool) list \<Rightarrow> lock_op list" where
  "fetch_locks rounds =
     concat (map (\<lambda>(login, rejected). ensureToken_locks login @ (if rejected then registry_locks else [])) rounds)"

definition isRegistered_locks :: "bool \<Rightarrow> bool \<Rightarrow> (bool \<times> bool) list \<Rightarrow> bool \<Rightarrow> lock_op list" where
  "isRegistered_locks named hit rounds answered =
     (if \<not> named then []
      else registry_locks @
        (if hit then [] else fetch_locks rounds @ (if answered then registry_locks else [])))"

text \<open>
  A call, with the session, the connections and the outcomes it meets. A goroutine of the
  gateway makes such calls one after the other.
\<close>

datatype call =
    CWrite nat
  | CClose nat
  | CAcceptError
  | CShutdown
  | CRegister "nat option"
  | CRemove
  | CTouch nat
  | CConnected nat
  | CSetConnected nat
  | CList "nat list"
  | CLookup
  | CSend "nat option"
  | CRegistered bool bool "(bool \<times> bool) list" bool

fun call_locks :: "call \<Rightarrow> lock_op list" where
  "call_locks (CWrite c) = writeWithDeadline_locks c"
| "call_locks (CClose c) = close_locks c"
| "call_locks CAcceptError = accept_error_locks"
| "call_locks CShutdown = shutdown_locks"
| "call_locks (CRegister old) = registerSession_locks old"
| "call_locks CRemove = removeSession_locks"
| "call_locks (CTouch sid) = touch_locks sid"
| "call_locks (CConnected sid) = tbConnected_locks sid"
| "call_locks (CSetConnected sid) = set_tbConnected_locks sid"
| "call_locks (CList sids) = listSessions_locks sids"
| "call_locks CLookup = lookup_locks"
| "call_locks (CSend c) = sendToDevice_locks c"
| "call_locks (CRegistered named hit rounds answered) = isRegistered_locks named hit rounds answered"

definition makes :: "call list \<Rightarrow> locker" where
  "makes calls = \<lparr>Held = [], Todo = concat (map call_locks calls)\<rparr>"

section \<open>The order\<close>

text \<open>The lock of the server is taken before the others; no two of the others are held together.\<close>

fun rank :: "lock \<Rightarrow> nat" where
  "rank ServerMu = 0"
| "rank (SessionMu sid) = 1"
| "rank (ConnMu c) = 1"
| "rank RegistryMu = 1"

text \<open>Locks are taken in increasing order, and released in the opposite one, all of them at the end.\<close>

fun disciplined :: "(lock \<times> mode) list \<Rightarrow> lock_op list \<Rightarrow> bool" where
  "disciplined held [] \<longleftrightarrow> held = []"
| "disciplined held (Announce l # ops) \<longleftrightarrow> list_all (\<lambda>x. rank (fst x) < rank l) held \<and> disciplined held ops"
| "disciplined held (Lock l m # ops) \<longleftrightarrow> list_all (\<lambda>x. rank (fst x) < rank l) held \<and> disciplined ((l, m) # held) ops"
| "disciplined held (Unlock l # ops) \<longleftrightarrow>
     (case held of [] \<Rightarrow> False | x # rest \<Rightarrow> fst x = l \<and> list_all (\<lambda>y. fst y \<noteq> l) rest \<and> disciplined rest ops)"

definition nested :: "(lock \<times> mode) list \<Rightarrow> lock_op list \<Rightarrow> bool" where
  "nested held ops \<longleftrightarrow> (\<forall>rest. disciplined held rest \<longrightarrow> disciplined held (ops @ rest))"

lemma nestedD: "nested held ops \<Longrightarrow> disciplined held rest \<Longrightarrow> disciplined held (ops @ rest)"
  by (simp add: nested_def)

lemma nested_Nil [simp]: "nested held []"
  by (simp add: nested_def)

lemma nested_append: "nested held xs \<Longrightarrow> nested held ys \<Longrightarrow> nested held (xs @ ys)"
  by (simp add: nested_def)

lemma nested_concat: "(\<And>x. x \<in> set xs \<Longrightarrow> nested held (f x)) \<Longrightarrow> nested held (concat (map f xs))"
  by (induction xs) (simp_all add: nested_append)

lemma nested_locked:
  assumes "list_all (\<lambda>x. rank (fst x) < rank l) held" "nested ((l, m) # held) body"
  shows "nested held (locked l m body)"
proof -
  have "list_all (\<lambda>y. fst y \<noteq> l) held" using assms(1) by (induction held) auto
  moreover from this have "disciplined held rest \<Longrightarrow> disciplined ((l, m) # held) (body @ Unlock l # rest)" for rest
    using assms(2) by (intro nestedD) simp_all
  ultimately show ?thesis using assms(1) by (cases m) (simp_all add: nested_def locked_def)
qed

lemmas method_locks = writeWithDeadline_locks_def close_locks_def accept_error_locks_def shutdown_locks_def
  registerSession_locks_def removeSession_locks_def touch_locks_def tbConnected_locks_def set_tbConnected_locks_def
  listSessions_locks_def lookup_locks_def sendToDevice_locks_def registry_locks_def ensureToken_locks_def
  fetch_locks_def isRegistered_locks_def

lemma call_nested: "nested [] (call_locks x)"
  by (cases x) (auto simp: method_locks intro!: nested_locked nested_append nested_concat split: option.split)

lemma makes_disciplined: "disciplined (Held (makes calls)) (Todo (makes calls))"
proof -
  have "nested [] (concat (map call_locks calls))" by (rule nested_concat) (rule call_nested)
  from nestedD [OF this, of "[]"] show ?thesis by (simp add: makes_def)
qed

section \<open>No goroutine is stuck\<close>

definition exclusive :: "locker list \<Rightarrow> bool" where
  "exclusive gs \<longleftrightarrow> (\<forall>i < length gs. \<forall>j < length gs. \<forall>l m. i \<noteq> j \<longrightarrow> holds (gs ! i) l Write \<longrightarrow> \<not> holds (gs ! j) l m)"

definition lock_inv :: "locker list \<Rightarrow> bool" where
  "lock_inv gs \<longleftrightarrow> (\<forall>g \<in> set gs. disciplined (Held g) (Todo g)) \<and> exclusive gs"

lemma filter_top: "list_all (\<lambda>y. fst y \<noteq> l) rest \<Longrightarrow> fst x = l \<Longrightarrow> filter (\<lambda>x. fst x \<noteq> l) (x # rest) = rest"
  by (induction rest) auto

lemma may_lock_others:
  "may_lock gs l m \<Longrightarrow> j < length gs \<Longrightarrow> \<not> holds (gs ! j) l Write \<and> (m = Write \<longrightarrow> \<not> holds (gs ! j) l Read)"
  by (auto simp: may_lock_def may_read_def list_all_length split: mode.splits)

lemma lock_step_inv:
  assumes "lock_inv gs" "lock_step i gs = Some gs'"
  shows "lock_inv gs'"
proof -
  have i: "i < length gs" using assms(2) by (simp add: lock_step_def split: if_splits)
  let ?g = "gs ! i"
  have d: "disciplined (Held ?g) (Todo ?g)" using assms(1) i by (simp add: lock_inv_def)
  have x: "exclusive gs" using assms(1) by (simp add: lock_inv_def)
  obtain g' where gs': "gs' = gs[i := g']" and d': "disciplined (Held g') (Todo g')"
    and h: "\<And>l m. holds g' l m \<Longrightarrow> holds ?g l m \<or> may_lock gs l m"
  proof (cases "Todo ?g")
    case (Cons op ops)
    show ?thesis
    proof (cases op)
      case (Announce l)
      with assms(2) i Cons d show ?thesis
        by (intro that [of "\<lparr>Held = Held ?g, Todo = ops\<rparr>"]) (auto simp: lock_step_def holds_def split: if_splits)
    next
      case (Lock l m)
      with assms(2) i Cons have "may_lock gs l m" "gs' = gs[i := \<lparr>Held = (l, m) # Held ?g, Todo = ops\<rparr>]"
        by (auto simp: lock_step_def split: if_splits)
      with d Cons Lock show ?thesis by (intro that) (auto simp: holds_def)
    next
      case (Unlock l)
      with d Cons obtain y rest where "Held ?g = y # rest" "fst y = l" "list_all (\<lambda>y. fst y \<noteq> l) rest" "disciplined rest ops"
        by (auto split: list.splits)
      moreover have "gs' = gs[i := \<lparr>Held = filter (\<lambda>x. fst x \<noteq> l) (Held ?g), Todo = ops\<rparr>]"
        using assms(2) i Cons Unlock by (simp add: lock_step_def)
      ultimately show ?thesis using filter_top [of l rest y] by (intro that) (auto simp: holds_def)
    qed
  qed (use assms(2) i in \<open>simp add: lock_step_def\<close>)
  have "exclusive gs'"
    unfolding exclusive_def
  proof (intro allI impI)
    fix j k l m
    assume jk: "j < length gs'" "k < length gs'" "j \<noteq> k" "holds (gs' ! j) l Write"
    consider "j = i" | "k = i" | "j \<noteq> i" "k \<noteq> i" by blast
    then show "\<not> holds (gs' ! k) l m"
    proof cases
      case 1
      with jk gs' i h [of l Write] have "holds ?g l Write \<or> may_lock gs l Write" "gs' ! k = gs ! k" "k < length gs" by auto
      from this(1) show ?thesis
      proof
        assume "holds ?g l Write"
        with x i \<open>k < length gs\<close> jk(3) 1 \<open>gs' ! k = gs ! k\<close> show ?thesis unfolding exclusive_def by metis
      next
        assume "may_lock gs l Write"
        from may_lock_others [OF this \<open>k < length gs\<close>] \<open>gs' ! k = gs ! k\<close> show ?thesis by (cases m) auto
      qed
    next
      case 2
      with jk gs' i have o: "gs' ! j = gs ! j" "j < length gs" "gs' ! k = g'" by auto
      with x i jk 2 have "\<not> holds ?g l m" unfolding exclusive_def by metis
      moreover have "\<not> may_lock gs l m" using may_lock_others [of gs l m j] o jk(4) by metis
      ultimately show ?thesis using h o(3) by metis
    next
      case 3
      with jk gs' have "gs' ! j = gs ! j" "gs' ! k = gs ! k" "j < length gs" "k < length gs" by simp_all
      with x jk(3,4) show ?thesis unfolding exclusive_def by metis
    qed
  qed
  moreover have "\<forall>g \<in> set gs'. disciplined (Held g) (Todo g)"
    using assms(1) d' set_update_subset_insert [of gs i g'] by (auto simp: lock_inv_def gs')
  ultimately show ?thesis by (simp add: lock_inv_def)
qed

lemma lock_run_inv: "lock_run is gs = Some gs' \<Longrightarrow> lock_inv gs \<Longrightarrow> lock_inv gs'"
  by (induction "is" arbitrary: gs) (auto simp: bind_eq_Some_conv intro: lock_step_inv)

text \<open>A goroutine that holds a lock, and cannot move, waits for a lock of higher rank.\<close>

definition awaits :: "locker \<Rightarrow> lock \<Rightarrow> bool" where
  "awaits g l \<longleftrightarrow> (case Todo g of Announce l' # _ \<Rightarrow> l' = l | Lock l' _ # _ \<Rightarrow> l' = l | _ \<Rightarrow> False)"

lemma stuck_holder: "disciplined (Held g) (Todo g) \<Longrightarrow> holds g l m \<Longrightarrow> awaits g l' \<Longrightarrow> rank l < rank l'"
  by (auto simp: awaits_def holds_def list_all_iff split: list.splits lock_op.splits)

text \<open>If a goroutine cannot move, a lock it waits for is held, or waited for by a writer next in line.\<close>

lemma not_may_read: "\<not> may_read gs l \<Longrightarrow> (\<exists>g \<in> set gs. \<exists>m. holds g l m) \<or> (\<exists>g \<in> set gs. wants_write g l)"
  by (auto simp: may_read_def list_all_iff)

lemma not_may_write: "\<not> may_lock gs l Write \<Longrightarrow> \<exists>g \<in> set gs. \<exists>m. holds g l m"
  by (auto simp: may_lock_def list_all_iff)

lemma blocked:
  assumes "i < length gs" "lock_step i gs = None" "Todo (gs ! i) \<noteq> []"
  shows "\<exists>l. awaits (gs ! i) l \<and> ((\<exists>g \<in> set gs. \<exists>m. holds g l m) \<or> \<not> wants_write (gs ! i) l \<and> (\<exists>g \<in> set gs. wants_write g l))"
proof (cases "Todo (gs ! i)")
  case (Cons op ops)
  note simps = lock_step_def awaits_def wants_write_def [of "gs ! i"]
  show ?thesis
  proof (cases op)
    case (Announce l)
    with assms Cons not_may_read [of gs l] show ?thesis by (auto simp: simps split: if_splits)
  next
    case (Lock l m)
    with assms Cons not_may_read [of gs l] not_may_write [of gs l] show ?thesis
      by (cases m) (auto simp: simps may_lock_def [of gs l Read] split: if_splits)
  qed (use assms Cons in \<open>simp add: lock_step_def\<close>)
qed (use assms in simp)

lemma wants_write_awaits: "wants_write g l \<Longrightarrow> awaits g l' \<longleftrightarrow> l' = l"
  by (auto simp: wants_write_def awaits_def split: list.splits lock_op.splits mode.splits)

lemma wants_write_busy: "wants_write g l \<Longrightarrow> Todo g \<noteq> []"
  by (auto simp: wants_write_def)

lemma progress:
  assumes inv: "lock_inv gs" and g: "g \<in> set gs" "Todo g \<noteq> []"
  shows "\<exists>i gs'. lock_step i gs = Some gs'"
proof (rule ccontr)
  assume "\<nexists>i gs'. lock_step i gs = Some gs'"
  then have stuck: "lock_step i gs = None" for i by (cases "lock_step i gs") auto
  have waits: "\<exists>l. awaits g l \<and> ((\<exists>g \<in> set gs. \<exists>m. holds g l m) \<or> \<not> wants_write g l \<and> (\<exists>g \<in> set gs. wants_write g l))"
    if w: "g \<in> set gs" "Todo g \<noteq> []" for g
  proof -
    obtain i where i: "i < length gs" "gs ! i = g" using w(1) by (auto simp: in_set_conv_nth)
    from blocked [OF i(1) stuck] w(2) i(2) show ?thesis by simp
  qed
  have holder: "\<exists>l. awaits g l \<and> (\<exists>g \<in> set gs. \<exists>m. holds g l m)" if w: "g \<in> set gs" "Todo g \<noteq> []" for g
  proof -
    from waits [OF w] obtain l where l: "awaits g l"
      "(\<exists>g \<in> set gs. \<exists>m. holds g l m) \<or> (\<exists>g \<in> set gs. wants_write g l)" by blast
    from l(2) show ?thesis
    proof (elim disjE bexE)
      fix k assume k: "k \<in> set gs" "wants_write k l"
      from waits [OF k(1) wants_write_busy [OF k(2)]] k(2)
      have "\<exists>g \<in> set gs. \<exists>m. holds g l m" by (auto simp: wants_write_awaits [OF k(2)])
      with l(1) show ?thesis by blast
    qed (use l(1) in blast)
  qed
  have up: "\<exists>h \<in> set gs. \<exists>m l'. holds h l m \<and> awaits h l' \<and> rank l < rank l' \<and> Todo h \<noteq> []"
    if w: "h \<in> set gs" "holds h l m" for h l m
  proof -
    have d: "disciplined (Held h) (Todo h)" using inv w(1) by (simp add: lock_inv_def)
    then have t: "Todo h \<noteq> []" using w(2) by (auto simp: holds_def)
    from waits [OF w(1) t] obtain l' where "awaits h l'" by blast
    with stuck_holder [OF d w(2)] t w show ?thesis by blast
  qed
  have awaits_unique: "awaits k a \<Longrightarrow> awaits k b \<Longrightarrow> a = b" for k a b
    by (auto simp: awaits_def split: list.splits lock_op.splits)
  have top: "rank l \<le> 1" for l by (cases l) simp_all
  from holder [OF g] obtain l h m where "h \<in> set gs" "holds h l m" by blast
  from up [OF this] obtain h1 l1 where 1: "h1 \<in> set gs" "awaits h1 l1" "rank l < rank l1" "Todo h1 \<noteq> []" by blast
  from holder [OF 1(1,4)] awaits_unique [OF 1(2)] obtain h2 m2 where "h2 \<in> set gs" "holds h2 l1 m2" by blast
  from up [OF this] obtain l2 where "rank l1 < rank l2" by blast
  with 1(3) top [of l2] show False by simp
qed

text \<open>Every step uses up one operation.\<close>

definition remaining :: "locker list \<Rightarrow> nat" where
  "remaining gs = sum_list (map (\<lambda>g. length (Todo g)) gs)"

lemma remaining_update:
  "i < length gs \<Longrightarrow> length (Todo (gs ! i)) = Suc (length (Todo g')) \<Longrightarrow> remaining gs = Suc (remaining (gs[i := g']))"
proof (induction gs arbitrary: i)
  case (Cons g gs)
  then show ?case by (cases i) (auto simp: remaining_def)
qed simp

lemma lock_step_remaining: "lock_step i gs = Some gs' \<Longrightarrow> remaining gs = Suc (remaining gs')"
  by (auto simp: lock_step_def intro!: remaining_update split: if_splits list.splits lock_op.splits)

lemma lock_run_remaining: "lock_run is gs = Some gs' \<Longrightarrow> remaining gs = length is + remaining gs'"
  by (induction "is" arbitrary: gs) (auto simp: bind_eq_Some_conv dest: lock_step_remaining)

section \<open>Properties\<close>

text \<open>C11. No deadlock. Whatever calls the goroutines of the gateway make, and however their locking
  interleaves, at every moment no lock is held by a writer and by somebody else, and as long as
  a goroutine has not come to its end some goroutine can go on: although a new login closes the
  old connection under the lock of the server, and a reader of an \<open>RWMutex\<close> also waits for
  writers that only wait, nobody waits in a circle. Every turn uses up one operation, so the
  goroutines come to their end in whatever order they are scheduled.\<close>

theorem no_deadlock:
  assumes "lock_run turns (map makes calls) = Some gs"
  shows "exclusive gs \<and> ((\<exists>g \<in> set gs. Todo g \<noteq> []) \<longrightarrow> (\<exists>i gs'. lock_step i gs = Some gs')) \<and>
    remaining (map makes calls) = length turns + remaining gs"
proof -
  have "lock_inv (map makes calls)"
    using makes_disciplined by (auto simp: lock_inv_def exclusive_def holds_def makes_def)
  from lock_run_inv [OF assms this] have "lock_inv gs" .
  with progress lock_run_remaining [OF assms] show ?thesis by (auto simp: lock_inv_def)
qed

definition demo_calls :: "call list list" where
  "demo_calls = [[CRegister (Some 1)], [CWrite 1], [CList [0, 1], CSend (Some 1)]]"

theorem no_deadlock_witness:
  "case lock_run [0, 1, 1, 0] (map makes demo_calls) of None \<Rightarrow> False
   | Some gs \<Rightarrow> lock_step 0 gs = None \<and> lock_step 2 gs = None \<and> (\<exists>i gs'. lock_step i gs = Some gs')"
proof -
  have "case lock_run [0, 1, 1, 0] (map makes demo_calls) of None \<Rightarrow> False
     | Some gs \<Rightarrow> lock_step 0 gs = None \<and> lock_step 2 gs = None \<and> list_ex (\<lambda>g. Todo g \<noteq> []) gs"
    by code_simp
  then obtain gs where gs: "lock_run [0, 1, 1, 0] (map makes demo_calls) = Some gs" "lock_step 0 gs = None" "lock_step 2 gs = None"
    "\<exists>g \<in> set gs. Todo g \<noteq> []" by (auto simp: list_ex_iff split: option.splits)
  from no_deadlock [OF gs(1)] gs show ?thesis by auto
qed

end
