(* ===== verification/Spec2Isabelle.thy ===== *)
theory Spec2Isabelle
  imports Main_Gateway Simulated Summaries Safe_Conn Lock_Order
begin

text \<open>
  \<^bold>\<open>A verification development for zx909-gw\<close>, the TCP gateway between ZX909 / Topin GPS
  trackers and ThingsBoard. The model is a shallow embedding of the Go code under \<open>src/\<close>:
  pure functions, with the state passed explicitly and a panic of the Go runtime (an index or
  slice out of range) as \<open>None\<close> of the type \<open>go\<close>, so that a result \<open>Some\<close> is a proof that the
  code does not panic. Bytes and unsigned integers are words of their width; the type \<open>int\<close> of
  Go, 64 bits wide, is \<open>int\<close>, with the conversions to narrower types written out; floating-point
  numbers are the rationals they denote, rounded after each operation (\<open>round64\<close>).

  \<^bold>\<open>The parts and how they interact.\<close> A connection's goroutine reads bytes into a buffer
  (\<open>Server.handleConn\<close>), takes frames off it (\<open>ExtractFrame\<close>), and dispatches each on its
  protocol number (\<open>handleFrame\<close>), which answers on the connection, keeps the session in the
  table of the server, and publishes to the uplink client when the registry allows it. Logins and
  Wi-Fi packets start goroutines of their own. Commands come from MQTT RPC or from the debug API,
  both through the command handler, which looks the connection up in the table.

  \<^bold>\<open>Theories, and the code they model.\<close>
  \<^item> \<open>Prelude\<close>: panicking operations on byte slices, big-endian encodings, shared lemmas and the
    collections of the development. \<open>GoFmt\<close>, \<open>GoTime\<close>, \<open>Float64\<close>, \<open>Json\<close>: what the program
    uses of \<open>fmt\<close>, \<open>time\<close>, \<open>float64\<close> and \<open>encoding/json\<close>.
  \<^item> \<open>Frame\<close>, \<open>Messages\<close> (\<open>internal/protocol/frame.go\<close>): \<open>ExtractFrame\<close> and what it calls, its
    declarative specification \<open>extract_spec\<close>, and well-formed messages on the wire.
  \<^item> \<open>WifiLbs\<close>, \<open>Gps\<close>, \<open>Login\<close>, \<open>Status\<close>, \<open>Iccid\<close>, \<open>Crc\<close>, \<open>Commands\<close> (the other files of
    \<open>internal/protocol\<close>, and the acknowledgements of \<open>frame.go\<close>): parsers and builders.
    \<open>Summaries\<close>: the text of frames and packets in the logs.
  \<^item> \<open>Drain\<close> (\<open>drainFrames\<close> and the read loop of \<open>server.go\<close>), over any frame handler.
  \<^item> \<open>Config\<close> (\<open>internal/config\<close>); \<open>Io\<close>: the environment (clock, HTTP, MQTT broker, network), as
    functions of a counter, and a trace of what the program did.
  \<^item> \<open>Registry\<close> (\<open>internal/registry\<close>): the Paapeli client with its token and cache.
    \<open>Geo\<close> (\<open>internal/geolocation\<close>). \<open>Command\<close> (\<open>internal/command\<close>). \<open>Mqtt\<close> (\<open>internal/mqtt\<close>).
  \<^item> \<open>Server\<close> (\<open>internal/server/server.go\<close>): sessions, uplink and the frame handler, as functions
    on the record \<open>server\<close>; sessions are shared by pointer in the code and live in a heap here.
    \<open>Safe_Conn\<close>: the type \<open>SafeConn\<close>, with writes that go out piece by piece under its mutex.
  \<^item> \<open>Gateway\<close>: the server as a transition system (\<open>act\<close>, \<open>reachable\<close>) in which a handler, a
    background goroutine or a command is one step. \<open>Lifecycle\<close>: the steps of one connection are
    \<open>handleConn\<close>. \<open>DebugApi\<close> (\<open>internal/server/debug_api.go\<close>).
  \<^item> \<open>Goroutine\<close>: programs of atomic steps, the logic in which they are proved under interference
    (an invariant, a rely and a guarantee), and the events a program can emit. On it the same
    functions one section under a lock at a time, with the suffix \<open>_p\<close>: \<open>Registry_Locks\<close>,
    \<open>Server_Locks\<close>, and \<open>Requests\<close> (the RPC callback and the debug API). Run without
    interference they are the functions above (the lemmas \<open>..._run\<close>). \<open>Server_Contracts\<close>: what
    the goroutines of the server rely on and guarantee; \<open>Replies\<close>: what a handler writes.
  \<^item> \<open>Interleaved\<close>: the running gateway at the granularity of the locks (\<open>move\<close>, \<open>occurs\<close>) and its
    invariant \<open>ginv\<close>. \<open>Refinement\<close>: the runs of \<open>Gateway\<close> are among its runs, and what holds at
    every moment. \<open>Shutdown\<close>: the end of the gateway.
    \<open>Lock_Order\<close>: the locks of all methods as scripts of locking and unlocking, with the
    semantics of \<open>sync.Mutex\<close> and \<open>sync.RWMutex\<close>.
  \<^item> \<open>Main_Gateway\<close> (\<open>cmd/gateway/main.go\<close> and the creation of the MQTT client), \<open>Toy\<close>
    (\<open>cmd/toy/main.go\<close>, with the errors of the network in \<open>toy_run\<close>), \<open>Simulated\<close>: the
    simulator of \<open>Toy\<close> against the gateway.

  \<^bold>\<open>Interfaces\<close> are locales, interpreted on the model's definitions in the theory that provides
  them: \<open>registry_interface\<close> (Registry), \<open>geolocation_interface\<close> (Geo), \<open>uplink_client\<close> (Mqtt),
  \<open>session_lookup\<close> and its extension \<open>stable_lookup\<close> (Command; provided by Server), \<open>part\<close> and
  \<open>rely_guarantee\<close> (Goroutine; provided by \<open>Registry_Locks\<close>, \<open>Server_Locks\<close> and \<open>Server_Contracts\<close>).

  \<^bold>\<open>What is shown.\<close> Framing: extraction meets its specification on every buffer, a stream of
  well-formed messages is handled the same however TCP cuts it, the loop ends on every input.
  Parsers: round trips with the wire layout, no panic on any input, accuracy of coordinates.
  Registry: a positive answer rests on a confirmation of the back end, also when lookups run at
  the same time; what a lookup costs, the lifetime of answers, the renewal of tokens. Server:
  the replies to every frame and the answer to every RPC and debug request under any
  interference, the reach of commands, packets that are never mixed on a connection; the locks
  are taken in one order and no goroutine is stuck (\<open>no_deadlock\<close>). Gateway, over all interleavings of the
  sections under a lock: only licensed IMEIs reach the broker, one live connection per IMEI, a
  consistent table; shutdown can complete from every state, and waits for every connection that
  was counted. A connection alone refines \<open>handleConn\<close>, and the coarse runs are fine
  runs (\<open>reachable_occurs\<close>), which makes what is shown of the former facts of the latter. End
  to end: from the configuration file to the broker, from an RPC message to the tracker and
  back, from the simulator to its replies. Theorems without a claim number are further facts,
  among them concrete runs that show behaviour the comments of the code or the protocol do not
  intend.

  \<^bold>\<open>Bounds and fuel.\<close> \<open>parse_value\<close> of \<open>Json\<close> takes fuel; \<open>parse_one\<close> gives it twice the length
  of the input plus one, and \<open>parse_fuel\<close> shows that more changes nothing. All other recursion is
  structural or has a measure. The retry of \<open>fetch\<close> is bounded by its flag.

  \<^bold>\<open>Granularity.\<close> A section under a lock, a request, a publication or a write is one step of a
  goroutine, so a lock that is held across several of them (\<open>registerSession\<close> while it closes the
  replaced connection, \<open>ListSessions\<close> while it reads the sessions) is either one step or, for
  \<open>ListSessions\<close>, a sequence of steps in which more can happen than in the code. That a close
  waits for a write is shown in \<open>Safe_Conn\<close>, for one connection; locks that are held while others
  are taken are in \<open>Lock_Order\<close>, without what is done under them.

  A write that fails puts a proper prefix of its packet, possibly empty, on the wire
  (\<open>WriteWithDeadline\<close>, \<open>torn\<close>): what was asked for is there when the write succeeded, and cut
  when it failed.

  \<^bold>\<open>Not modelled.\<close> Log output other than its text in \<open>Summaries\<close>; deadlines and timeouts, which
  appear as errors of reads, writes and requests; the buffers of the kernel; the closing of the
  MQTT client and of the HTTP server at the end of the program. The order in which
  \<open>ListSessions\<close> lists a map is that of the model's list. The YAML parser, Paho and \<open>net/http\<close>
  are parameters, as are \<open>math.Cos\<close> and the random numbers of the simulator. Strings are
  compared as bytes; the text of library errors is left out; \<open>%q\<close> takes bytes from 0x80 on to be
  printable. The tests of the repository are not modelled. What the map of the code leaves out
  is comments, imports, declarations of interfaces, and these.

  \<^bold>\<open>Order.\<close> Modelled in the order framing, parsers, builders, simulator, environment, registry,
  server, gateway, programs, and then the steps of goroutines between their locks.
\<close>

end
